(* ===== verification/Prelude.thy ===== *)
theory Prelude
  imports Main "HOL-Library.AList" "HOL-Library.Char_ord" "HOL-Library.List_Lexorder"
    "HOL-Library.Product_Lexorder" "HOL-Library.Word" "HOL-Library.Multiset"
begin

text \<open>
  What every component of the development shares: Go strings, maps, errors and sorting.

  \<^item> A Go string is a list of bytes, here a list of characters; the order of the library
    theories \<open>Char_ord\<close> and \<open>List_Lexorder\<close> is Go's bytewise lexicographic order.
  \<^item> A Go map is an association list. Its order stands for the order in which one particular
    \<open>range\<close> loop of Go would visit it, which Go leaves unspecified: statements that do not
    depend on that order are stated and proved as such. Assignment is \<open>AList.update\<close>, lookup is
    \<open>map_of\<close>, and \<open>gomap_ok\<close> says that no key occurs twice.
  \<^item> An error value is a \<open>go_error\<close>: a message, a status error of the API server, or an error
    wrapped by \<open>fmt.Errorf\<close> with \<open>%w\<close>.
  \<^item> The stable sorts of Go's standard library are \<open>stable_sort\<close>; the locale
    \<open>stable_sorter\<close> is the contract the clients use.
\<close>

section \<open>Collections of rules\<close>

named_theorems gomap_rules \<open>rewriting lookups and keys of Go maps\<close>
named_theorems error_rules \<open>rewriting messages and reasons of Go errors\<close>

section \<open>Machine integers\<close>

type_synonym int32 = "32 word"
type_synonym int64 = "64 word"

lemma sint_eq_iff: "sint a = sint b \<longleftrightarrow> a = b" for a b :: "'a::len word"
  by (auto intro: signed_word_eqI)

section \<open>Go maps\<close>

type_synonym 'v gomap = "(string \<times> 'v) list"

abbreviation gomap_put :: "string \<Rightarrow> 'v \<Rightarrow> 'v gomap \<Rightarrow> 'v gomap" where
  "gomap_put \<equiv> AList.update"

definition gomap_ok :: "'v gomap \<Rightarrow> bool" where
  "gomap_ok m \<longleftrightarrow> distinct (map fst m)"

lemma gomap_ok_Nil [simp]: "gomap_ok []"
  by (simp add: gomap_ok_def)

lemma gomap_ok_Cons [simp]: "gomap_ok ((k, v) # m) \<longleftrightarrow> map_of m k = None \<and> gomap_ok m"
  by (simp add: gomap_ok_def map_of_eq_None_iff)

lemma gomap_ok_put [simp, intro]: "gomap_ok m \<Longrightarrow> gomap_ok (gomap_put k v m)"
  by (simp add: gomap_ok_def distinct_update)

lemma map_of_put [gomap_rules, simp]:
  "map_of (gomap_put k v m) j = (if j = k then Some v else map_of m j)"
  by (simp add: update_conv')

lemma gomap_get_iff: "gomap_ok m \<Longrightarrow> map_of m k = Some v \<longleftrightarrow> (k, v) \<in> set m"
  by (simp add: gomap_ok_def)

lemma set_gomap_put: "gomap_ok m \<Longrightarrow> set (gomap_put k v m) = insert (k, v) {p \<in> set m. fst p \<noteq> k}"
  by (induction m) (force simp: gomap_ok_def)+

lemma gomap_put_fresh: "map_of m k = None \<Longrightarrow> gomap_put k v m = m @ [(k, v)]"
  by (induction m) (auto split: if_splits)

lemma gomap_ok_perm: "mset m = mset n \<Longrightarrow> gomap_ok m \<longleftrightarrow> gomap_ok n"
  unfolding gomap_ok_def by (metis mset_eq_imp_distinct_iff mset_map)

lemma map_of_perm:
  assumes "mset m = mset n" and "gomap_ok m"
  shows "map_of m = map_of n"
proof
  fix k
  have "gomap_ok n" using assms gomap_ok_perm by blast
  moreover have "set m = set n" using assms(1) by (metis set_mset_mset)
  ultimately show "map_of m k = map_of n k"
    using assms(2) by (metis gomap_get_iff not_Some_eq)
qed

text \<open>Two lists of distinct keys that look up alike differ by their order only.\<close>

lemma gomap_eq_perm:
  assumes "gomap_ok m" and "gomap_ok n" and "map_of m = map_of n"
  shows "mset m = mset n"
proof -
  have "set m = set n"
    using assms gomap_get_iff by (metis subsetI subset_antisym surj_pair)
  moreover have "distinct m" "distinct n"
    using assms by (auto simp: gomap_ok_def distinct_map)
  ultimately show ?thesis by (simp add: set_eq_iff_mset_eq_distinct)
qed

section \<open>Strings\<close>

text \<open>The names below are those of Go's \<open>strings\<close> and \<open>strconv\<close> packages.\<close>

definition quote_char :: char where
  "quote_char = CHR 0x22"

definition strings_Compare :: "string \<Rightarrow> string \<Rightarrow> int" where
  "strings_Compare a b = (if a < b then - 1 else if a = b then 0 else 1)"

fun strings_Join :: "string list \<Rightarrow> string \<Rightarrow> string" where
  "strings_Join [] sep = []"
| "strings_Join [x] sep = x"
| "strings_Join (x # xs) sep = x @ sep @ strings_Join xs sep"

lemma strings_Join_Cons:
  "strings_Join (x # xs) sep = x @ (if xs = [] then [] else sep @ strings_Join xs sep)"
  by (cases xs) auto

text \<open>
  \<open>strings.Join\<close> loses no information when its separator is one character that occurs in none
  of the parts.
\<close>

lemma strings_Join_inj:
  assumes "\<forall>x \<in> set p. c \<notin> set x" and "\<forall>x \<in> set q. c \<notin> set x"
    and "p \<noteq> []" and "q \<noteq> []" and "strings_Join p [c] = strings_Join q [c]"
  shows "p = q"
  using assms
proof (induction p arbitrary: q)
  case Nil
  then show ?case by simp
next
  case (Cons x p)
  then obtain y r where q: "q = y # r" by (cases q) auto
  have eq: "x @ (if p = [] then [] else c # strings_Join p [c])
          = y @ (if r = [] then [] else c # strings_Join r [c])"
    using Cons.prems(5) by (auto simp: q strings_Join_Cons)
  have xy: "c \<notin> set x" "c \<notin> set y" using Cons.prems(1,2) by (auto simp: q)
  have "takeWhile (\<lambda>a. a \<noteq> c) (x @ (if p = [] then [] else c # strings_Join p [c])) = x"
    using xy by (subst takeWhile_append2) auto
  moreover have "takeWhile (\<lambda>a. a \<noteq> c) (y @ (if r = [] then [] else c # strings_Join r [c])) = y"
    using xy by (subst takeWhile_append2) auto
  ultimately have "x = y" using eq by simp
  with eq have rest: "(if p = [] then [] else c # strings_Join p [c])
                    = (if r = [] then [] else c # strings_Join r [c])" by simp
  show ?case
  proof (cases "p = []")
    case True
    with rest \<open>x = y\<close> show ?thesis by (simp add: q split: if_splits)
  next
    case False
    with rest have "r \<noteq> []" "strings_Join p [c] = strings_Join r [c]"
      by (auto split: if_splits)
    with Cons.IH[of r] Cons.prems False have "p = r" by (auto simp: q)
    with \<open>x = y\<close> show ?thesis by (simp add: q)
  qed
qed

text \<open>\<open>strings.Cut\<close> at a one-character separator: what is before it, what is after it.\<close>

fun strings_Cut :: "string \<Rightarrow> char \<Rightarrow> string \<times> string" where
  "strings_Cut [] c = ([], [])"
| "strings_Cut (x # xs) c =
     (if x = c then ([], xs) else (let (a, b) = strings_Cut xs c in (x # a, b)))"

fun strings_HasPrefix :: "string \<Rightarrow> string \<Rightarrow> bool" where
  "strings_HasPrefix s [] = True"
| "strings_HasPrefix [] (p # ps) = False"
| "strings_HasPrefix (x # xs) (p # ps) = (x = p \<and> strings_HasPrefix xs ps)"

fun strings_Contains :: "string \<Rightarrow> string \<Rightarrow> bool" where
  "strings_Contains [] p = (p = [])"
| "strings_Contains (x # xs) p = (strings_HasPrefix (x # xs) p \<or> strings_Contains xs p)"

text \<open>
  \<open>strings.ToLower\<close> and \<open>strings.TrimSpace\<close> on ASCII text: the first is applied to the names of
  exported Go fields, the second to names of field managers.
\<close>

definition ascii_lower :: "char \<Rightarrow> char" where
  "ascii_lower c = (let n = of_char c :: nat in if 65 \<le> n \<and> n \<le> 90 then char_of (n + 32) else c)"

definition strings_ToLower :: "string \<Rightarrow> string" where
  "strings_ToLower s = map ascii_lower s"

definition is_space :: "char \<Rightarrow> bool" where
  "is_space c \<longleftrightarrow> c \<in> {CHR 0x09, CHR 0x0A, CHR 0x0B, CHR 0x0C, CHR 0x0D, CHR 0x20}"

definition strings_TrimSpace :: "string \<Rightarrow> string" where
  "strings_TrimSpace s = rev (dropWhile is_space (rev (dropWhile is_space s)))"

lemma length_TrimSpace: "length (strings_TrimSpace s) \<le> length s"
  unfolding strings_TrimSpace_def
  by (metis length_dropWhile_le le_trans length_rev)

text \<open>Decimal printing, the \<open>%d\<close> of \<open>fmt.Sprintf\<close>.\<close>

fun show_nat :: "nat \<Rightarrow> string" where
  "show_nat n = (if n < 10 then [char_of (48 + n)] else show_nat (n div 10) @ [char_of (48 + n mod 10)])"

declare show_nat.simps [simp del]

definition show_int :: "int \<Rightarrow> string" where
  "show_int i = (if i < 0 then ''-'' @ show_nat (nat (- i)) else show_nat (nat i))"

text \<open>
  \<open>strconv.Quote\<close>, the \<open>%q\<close> of \<open>fmt.Sprintf\<close>, on ASCII text; bytes of printable characters
  beyond ASCII stand for themselves.
\<close>

definition hex_digit :: "nat \<Rightarrow> char" where
  "hex_digit n = (if n < 10 then char_of (48 + n) else char_of (87 + n))"

definition quote_one :: "char \<Rightarrow> string" where
  "quote_one c =
     (if c = quote_char \<or> c = CHR 0x5C then [CHR 0x5C, c]
      else if c = CHR 0x07 then [CHR 0x5C, CHR ''a'']
      else if c = CHR 0x08 then [CHR 0x5C, CHR ''b'']
      else if c = CHR 0x0C then [CHR 0x5C, CHR ''f'']
      else if c = CHR 0x0A then [CHR 0x5C, CHR ''n'']
      else if c = CHR 0x0D then [CHR 0x5C, CHR ''r'']
      else if c = CHR 0x09 then [CHR 0x5C, CHR ''t'']
      else if c = CHR 0x0B then [CHR 0x5C, CHR ''v'']
      else (let n = of_char c :: nat in
        if n < 32 \<or> n = 127 then [CHR 0x5C, CHR ''x'', hex_digit (n div 16), hex_digit (n mod 16)]
        else [c]))"

definition strconv_Quote :: "string \<Rightarrow> string" where
  "strconv_Quote s = quote_char # concat (map quote_one s) @ [quote_char]"

section \<open>Names\<close>

text \<open>\<open>types.NamespacedName\<close>, ordered by namespace first, and printed as \<open>namespace/name\<close>.\<close>

datatype NamespacedName = NamespacedName (nn_Namespace: string) (nn_Name: string)

instantiation NamespacedName :: linorder
begin

definition less_eq_NamespacedName :: "NamespacedName \<Rightarrow> NamespacedName \<Rightarrow> bool" where
  "less_eq_NamespacedName a b \<longleftrightarrow> (nn_Namespace a, nn_Name a) \<le> (nn_Namespace b, nn_Name b)"

definition less_NamespacedName :: "NamespacedName \<Rightarrow> NamespacedName \<Rightarrow> bool" where
  "less_NamespacedName a b \<longleftrightarrow> (nn_Namespace a, nn_Name a) < (nn_Namespace b, nn_Name b)"

instance
  by standard (auto simp: less_eq_NamespacedName_def less_NamespacedName_def less_prod_def
      less_eq_prod_def NamespacedName.expand)

end

definition nn_String :: "NamespacedName \<Rightarrow> string" where
  "nn_String n = nn_Namespace n @ ''/'' @ nn_Name n"

section \<open>Errors\<close>

text \<open>
  An error of the API server carries a reason; \<open>fmt.Errorf\<close> with \<open>%w\<close> puts a prefix before the
  message and keeps the wrapped error reachable, so that \<open>apierrors.IsNotFound\<close> and
  \<open>apierrors.IsConflict\<close>, which unwrap, still see the reason.
\<close>

datatype api_reason = ReasonNotFound | ReasonConflict | ReasonOther

datatype go_error =
    ErrMsg string
  | ErrStatus api_reason string
  | ErrWrap string go_error

fun Error :: "go_error \<Rightarrow> string" where
  "Error (ErrMsg s) = s"
| "Error (ErrStatus r s) = s"
| "Error (ErrWrap p e) = p @ '': '' @ Error e"

fun reason_of :: "go_error \<Rightarrow> api_reason" where
  "reason_of (ErrMsg s) = ReasonOther"
| "reason_of (ErrStatus r s) = r"
| "reason_of (ErrWrap p e) = reason_of e"

definition IsNotFound :: "go_error \<Rightarrow> bool" where
  "IsNotFound e \<longleftrightarrow> reason_of e = ReasonNotFound"

definition IsConflict :: "go_error \<Rightarrow> bool" where
  "IsConflict e \<longleftrightarrow> reason_of e = ReasonConflict"

text \<open>\<open>client.IgnoreNotFound\<close>: a not-found error counts as success.\<close>

definition IgnoreNotFound :: "go_error \<Rightarrow> go_error option" where
  "IgnoreNotFound e = (if IsNotFound e then None else Some e)"

lemma IsNotFound_wrap [error_rules, simp]: "IsNotFound (ErrWrap p e) = IsNotFound e"
  by (simp add: IsNotFound_def)

lemma IsConflict_wrap [error_rules, simp]: "IsConflict (ErrWrap p e) = IsConflict e"
  by (simp add: IsConflict_def)

lemma IsConflict_not_NotFound [error_rules]: "IsConflict e \<Longrightarrow> \<not> IsNotFound e"
  by (simp add: IsConflict_def IsNotFound_def)

section \<open>Panics\<close>

text \<open>A call either returns or panics with a message.\<close>

datatype 'a outcome = Done 'a | Panic string

section \<open>Stable sorting\<close>

text \<open>
  Go's \<open>slices.SortStableFunc\<close> and \<open>sort.SliceStable\<close> insert each element of a block behind the
  elements it is not less than.
\<close>

fun insert_stable :: "('a \<Rightarrow> 'a \<Rightarrow> bool) \<Rightarrow> 'a \<Rightarrow> 'a list \<Rightarrow> 'a list" where
  "insert_stable lt x [] = [x]"
| "insert_stable lt x (y # ys) = (if lt x y then x # y # ys else y # insert_stable lt x ys)"

definition stable_sort :: "('a \<Rightarrow> 'a \<Rightarrow> bool) \<Rightarrow> 'a list \<Rightarrow> 'a list" where
  "stable_sort lt xs = foldl (\<lambda>acc x. insert_stable lt x acc) [] xs"

definition SortStableFunc :: "('a \<Rightarrow> 'a \<Rightarrow> int) \<Rightarrow> 'a list \<Rightarrow> 'a list" where
  "SortStableFunc cmp xs = stable_sort (\<lambda>a b. cmp a b < 0) xs"

definition SliceStable :: "('a \<Rightarrow> 'a \<Rightarrow> bool) \<Rightarrow> 'a list \<Rightarrow> 'a list" where
  "SliceStable lt xs = stable_sort lt xs"

lemma mset_insert_stable [simp]: "mset (insert_stable lt x xs) = add_mset x (mset xs)"
  by (induction xs) auto

lemma set_insert_stable [simp]: "set (insert_stable lt x xs) = insert x (set xs)"
  by (induction xs) auto

lemma stable_sort_Nil [simp]: "stable_sort lt [] = []"
  by (simp add: stable_sort_def)

lemma stable_sort_snoc [simp]: "stable_sort lt (xs @ [x]) = insert_stable lt x (stable_sort lt xs)"
  by (simp add: stable_sort_def)

lemma mset_stable_sort [simp]: "mset (stable_sort lt xs) = mset xs"
  by (induction xs rule: rev_induct) auto

lemma sorted_insert_stable:
  fixes f :: "'a \<Rightarrow> 'k::linorder"
  assumes "\<And>a b. lt a b \<longleftrightarrow> f a < f b" and "sorted (map f xs)"
  shows "sorted (map f (insert_stable lt x xs))"
  using assms(2) by (induction xs) (auto simp: assms(1) not_less)

lemma filter_insert_stable:
  fixes f :: "'a \<Rightarrow> 'k::linorder"
  assumes lt: "\<And>a b. lt a b \<longleftrightarrow> f a < f b" and "sorted (map f xs)"
  shows "filter (\<lambda>y. f y = k) (insert_stable lt x xs)
       = filter (\<lambda>y. f y = k) xs @ (if f x = k then [x] else [])"
  using assms(2)
proof (induction xs)
  case Nil
  then show ?case by simp
next
  case (Cons y ys)
  show ?case
  proof (cases "lt x y")
    case True
    then have "\<forall>z \<in> set (y # ys). f z \<noteq> f x"
      using Cons.prems by (auto simp: lt)
    then have "filter (\<lambda>z. f z = f x) (y # ys) = []"
      by (simp add: filter_empty_conv)
    then show ?thesis using True by (cases "f x = k") simp_all
  next
    case False
    have "sorted (map f ys)" using Cons.prems by simp
    from Cons.IH[OF this] False show ?thesis by simp
  qed
qed

lemma sorted_stable_sort:
  fixes f :: "'a \<Rightarrow> 'k::linorder"
  assumes "\<And>a b. lt a b \<longleftrightarrow> f a < f b"
  shows "sorted (map f (stable_sort lt xs))"
  by (induction xs rule: rev_induct) (simp_all add: sorted_insert_stable[where f = f, OF assms])

lemma filter_stable_sort:
  fixes f :: "'a \<Rightarrow> 'k::linorder"
  assumes "\<And>a b. lt a b \<longleftrightarrow> f a < f b"
  shows "filter (\<lambda>y. f y = k) (stable_sort lt xs) = filter (\<lambda>y. f y = k) xs"
  by (induction xs rule: rev_induct)
    (simp_all add: filter_insert_stable[where f = f, OF assms sorted_stable_sort[where f = f, OF assms]])

text \<open>
  The contract of a stable sort by a key, and what follows from it: such a sort is a function
  of its input, whatever the algorithm is, and sorting twice changes nothing.
\<close>

locale stable_sorter =
  fixes key :: "'a \<Rightarrow> 'k::linorder" and srt :: "'a list \<Rightarrow> 'a list"
  assumes srt_mset: "mset (srt xs) = mset xs"
    and srt_sorted: "sorted (map key (srt xs))"
    and srt_stable: "filter (\<lambda>y. key y = k) (srt xs) = filter (\<lambda>y. key y = k) xs"
begin

lemma srt_unique: "srt xs = sort_key key xs"
proof (rule properties_for_sort_key[symmetric])
  show "filter (\<lambda>x. key k = key x) (srt xs) = filter (\<lambda>x. key k = key x) xs" for k
    using srt_stable[of "key k" xs] by (simp only: eq_commute)
qed (rule srt_mset srt_sorted)+

lemma srt_set: "set (srt xs) = set xs"
  by (metis srt_mset set_mset_mset)

lemma srt_length: "length (srt xs) = length xs"
  by (metis srt_mset size_mset)

lemma srt_idem: "sorted (map key xs) \<Longrightarrow> srt xs = xs"
  by (simp add: srt_unique sort_key_id_if_sorted)

lemma srt_srt: "srt (srt xs) = srt xs"
  by (rule srt_idem) (rule srt_sorted)

lemma srt_distinct: "distinct (srt xs) = distinct xs"
  by (metis mset_eq_imp_distinct_iff srt_mset)

text \<open>When the key tells the elements apart, the result does not depend on the input's order.\<close>

lemma srt_perm:
  assumes "mset xs = mset ys" and "inj_on key (set xs)"
  shows "srt xs = srt ys"
proof -
  have "sort_key key xs = sort_key key ys"
    by (rule sort_key_inj_key_eq) (use assms in auto)
  then show ?thesis by (simp add: srt_unique)
qed

lemma srt_nth_le: "i \<le> j \<Longrightarrow> j < length xs \<Longrightarrow> key (srt xs ! i) \<le> key (srt xs ! j)"
  using sorted_nth_mono[OF srt_sorted[of xs], of i j] by (simp add: srt_length)

end

lemma stable_sort_contract:
  fixes f :: "'a \<Rightarrow> 'k::linorder"
  assumes "\<And>a b. lt a b \<longleftrightarrow> f a < f b"
  shows "stable_sorter f (stable_sort lt)"
  by (unfold_locales)
    (simp_all add: sorted_stable_sort[where f = f, OF assms] filter_stable_sort[where f = f, OF assms])

end
