(* ===== verification/Any_Values.thy ===== *)
theory Any_Values
  imports Prelude
begin

text \<open>
  The values that \<open>encoding/json\<close> puts into a variable of type \<open>any\<close>: what the overrides of a
  custom resource hold once decoded. A number is a \<open>float64\<close>, here its IEEE 754 bits; an object
  is a Go map, an association list whose order is the order one \<open>range\<close> loop visits it in.
  \<open>any_ok\<close> says that no object has a key twice, \<open>any_eqv\<close> that two values are the same up to the
  order of their maps, and \<open>leaf_at\<close> reads a value at a path of keys.
\<close>

section \<open>Values\<close>

type_synonym float64 = "64 word"

datatype any =
    Null
  | Bool bool
  | Num float64
  | Str string
  | Arr "any list"
  | Obj "(string \<times> any) list"

type_synonym anymap = "any gomap"

text \<open>Go's \<open>==\<close> on \<open>float64\<close>: the two zeros are equal, a NaN equals nothing.\<close>

definition float64_nan :: "float64 \<Rightarrow> bool" where
  "float64_nan w \<longleftrightarrow> drop_bit 52 w mod 2048 = 2047 \<and> take_bit 52 w \<noteq> 0"

definition float64_zero :: "float64 \<Rightarrow> bool" where
  "float64_zero w \<longleftrightarrow> take_bit 63 w = 0"

definition float64_eq :: "float64 \<Rightarrow> float64 \<Rightarrow> bool" where
  "float64_eq a b \<longleftrightarrow> \<not> float64_nan a \<and> (a = b \<or> float64_zero a \<and> float64_zero b)"

fun is_obj :: "any \<Rightarrow> bool" where
  "is_obj (Obj m) = True"
| "is_obj _ = False"

lemma is_obj_iff: "is_obj v \<longleftrightarrow> (\<exists>m. v = Obj m)"
  by (cases v) auto

section \<open>Maps without repeated keys\<close>

fun any_ok :: "any \<Rightarrow> bool" where
  "any_ok (Obj m) = (gomap_ok m \<and> (\<forall>p \<in> set m. any_ok (snd p)))"
| "any_ok (Arr xs) = (\<forall>x \<in> set xs. any_ok x)"
| "any_ok _ = True"

definition map_ok :: "anymap \<Rightarrow> bool" where
  "map_ok m \<longleftrightarrow> any_ok (Obj m)"

lemma map_ok_iff: "map_ok m \<longleftrightarrow> gomap_ok m \<and> (\<forall>k v. map_of m k = Some v \<longrightarrow> any_ok v)"
  unfolding map_ok_def by (force simp: gomap_get_iff)

lemma map_okI:
  "gomap_ok m \<Longrightarrow> (\<And>k v. map_of m k = Some v \<Longrightarrow> any_ok v) \<Longrightarrow> map_ok m"
  by (simp add: map_ok_iff)

lemma map_okD:
  "map_ok m \<Longrightarrow> gomap_ok m"
  "map_ok m \<Longrightarrow> map_of m k = Some v \<Longrightarrow> any_ok v"
  by (auto simp: map_ok_iff)

lemma map_ok_memD: "map_ok m \<Longrightarrow> e \<in> set m \<Longrightarrow> any_ok (snd e)"
  by (simp add: map_ok_def)

lemma map_ok_Nil [simp]: "map_ok []"
  by (simp add: map_ok_def)

lemma map_ok_Cons [simp]: "map_ok ((k, v) # m) \<longleftrightarrow> map_of m k = None \<and> any_ok v \<and> map_ok m"
  by (auto simp: map_ok_def)

lemma map_ok_put [simp, intro]: "map_ok m \<Longrightarrow> any_ok v \<Longrightarrow> map_ok (gomap_put k v m)"
  by (auto simp: map_ok_iff split: if_splits)

lemma any_ok_Obj [simp]: "any_ok (Obj m) = map_ok m"
  by (simp add: map_ok_def)

declare any_ok.simps(1) [simp del]

section \<open>Values up to the order of their maps\<close>

text \<open>
  Two values that differ by the order in which their maps list the keys are the same Go value:
  the order is only that of one \<open>range\<close> loop.
\<close>

inductive any_eqv :: "any \<Rightarrow> any \<Rightarrow> bool" where
  eqv_Null: "any_eqv Null Null"
| eqv_Bool: "any_eqv (Bool b) (Bool b)"
| eqv_Num: "any_eqv (Num n) (Num n)"
| eqv_Str: "any_eqv (Str s) (Str s)"
| eqv_Arr: "list_all2 any_eqv xs ys \<Longrightarrow> any_eqv (Arr xs) (Arr ys)"
| eqv_Obj: "(\<And>k. rel_option any_eqv (map_of m k) (map_of n k)) \<Longrightarrow> any_eqv (Obj m) (Obj n)"

inductive_simps any_eqv_simps [simp]:
  "any_eqv Null w" "any_eqv (Bool b) w" "any_eqv (Num n) w" "any_eqv (Str s) w"
  "any_eqv (Arr xs) w" "any_eqv (Obj m) w"

definition map_eqv :: "anymap \<Rightarrow> anymap \<Rightarrow> bool" where
  "map_eqv m n \<longleftrightarrow> any_eqv (Obj m) (Obj n)"

lemma map_eqv_iff: "map_eqv m n \<longleftrightarrow> (\<forall>k. rel_option any_eqv (map_of m k) (map_of n k))"
  by (auto simp: map_eqv_def)

lemma any_eqv_is_obj: "any_eqv v w \<Longrightarrow> is_obj v = is_obj w"
  by (cases rule: any_eqv.cases) auto

lemma any_eqv_refl [simp]: "any_eqv v v"
proof (induction v)
  case (Obj m)
  have "rel_option any_eqv (map_of m k) (map_of m k)" for k
  proof (cases "map_of m k")
    case (Some v)
    then have "(k, v) \<in> set m" by (rule map_of_SomeD)
    with Obj[of "(k, v)" v] show ?thesis by (auto simp: Some)
  qed simp
  then show ?case by auto
next
  case (Arr xs)
  then show ?case by (auto simp: list_all2_same)
qed auto

lemma map_eqv_refl [simp]: "map_eqv m m"
  by (simp add: map_eqv_def)

lemma any_eqv_sym: "any_eqv v w \<Longrightarrow> any_eqv w v"
proof (induction rule: any_eqv.induct)
  case (eqv_Arr xs ys)
  then show ?case
    by (auto simp: list_all2_conv_all_nth)
next
  case (eqv_Obj m n)
  have "rel_option any_eqv (map_of n k) (map_of m k)" for k
    using eqv_Obj[of k] by (cases "map_of m k"; cases "map_of n k") auto
  then show ?case by auto
qed auto

lemma any_eqv_trans: "any_eqv u v \<Longrightarrow> any_eqv v w \<Longrightarrow> any_eqv u w"
proof (induction arbitrary: w rule: any_eqv.induct)
  case (eqv_Arr xs ys)
  then show ?case by (fastforce simp: list_all2_conv_all_nth)
next
  case (eqv_Obj m n)
  then obtain p where w: "w = Obj p" and np: "\<forall>k. rel_option any_eqv (map_of n k) (map_of p k)"
    by auto
  have "rel_option any_eqv (map_of m k) (map_of p k)" for k
    using eqv_Obj.IH[of k] np[rule_format, of k]
    by (cases "map_of m k"; cases "map_of n k"; cases "map_of p k") auto
  then show ?case by (auto simp: w)
qed auto

lemma map_eqv_sym: "map_eqv m n \<Longrightarrow> map_eqv n m"
  unfolding map_eqv_def by (rule any_eqv_sym)

lemma map_eqv_trans: "map_eqv m n \<Longrightarrow> map_eqv n p \<Longrightarrow> map_eqv m p"
  unfolding map_eqv_def by (rule any_eqv_trans)

text \<open>Every reordering of a map's keys is the same map.\<close>

lemma map_eqv_perm: "mset m = mset n \<Longrightarrow> gomap_ok m \<Longrightarrow> map_eqv m n"
proof -
  assume "mset m = mset n" "gomap_ok m"
  then have "map_of m = map_of n" by (rule map_of_perm)
  moreover have "map_eqv m m" by simp
  ultimately show ?thesis unfolding map_eqv_iff by metis
qed

lemma map_eqv_put:
  "map_eqv m n \<Longrightarrow> any_eqv v w \<Longrightarrow> map_eqv (gomap_put k v m) (gomap_put k w n)"
  by (simp add: map_eqv_iff)

text \<open>
  A canonical form: every map sorted by its keys. It is a value that can be computed, and it
  is the same for equivalent values.
\<close>

fun canon :: "any \<Rightarrow> any" where
  "canon (Obj m) = Obj (sort_key fst (map (\<lambda>p. (fst p, canon (snd p))) m))"
| "canon (Arr xs) = Arr (map canon xs)"
| "canon v = v"

lemma map_of_map_snd: "map_of (map (\<lambda>p. (fst p, f (snd p))) m) k = map_option f (map_of m k)"
  by (induction m) auto

lemma gomap_ok_map_snd: "gomap_ok (map (\<lambda>p. (fst p, f (snd p))) m) = gomap_ok m"
  by (simp add: gomap_ok_def comp_def)

lemma sort_key_fst_unique:
  assumes "gomap_ok m" and "gomap_ok n" and "map_of m = map_of n"
  shows "sort_key fst m = sort_key fst n"
proof (rule sort_key_inj_key_eq)
  show "mset m = mset (sort_key fst n)"
    using gomap_eq_perm[OF assms] by simp
  show "inj_on fst (set m)"
    using assms(1) by (simp add: gomap_ok_def distinct_map)
qed simp

lemma canon_eqv:
  "any_eqv v w \<Longrightarrow> any_ok v \<Longrightarrow> any_ok w \<Longrightarrow> canon v = canon w"
proof (induction rule: any_eqv.induct)
  case (eqv_Arr xs ys)
  then show ?case by (auto simp: list_all2_conv_all_nth intro: nth_equalityI)
next
  case (eqv_Obj m n)
  have m: "map_ok m" and n: "map_ok n" using eqv_Obj.prems by auto
  have "map_option canon (map_of m k) = map_option canon (map_of n k)" for k
    using eqv_Obj.IH[of k] map_okD(2)[OF m, of k] map_okD(2)[OF n, of k]
    by (cases "map_of m k"; cases "map_of n k") auto
  then have "map_of (map (\<lambda>p. (fst p, canon (snd p))) m)
           = map_of (map (\<lambda>p. (fst p, canon (snd p))) n)"
    by (simp add: map_of_map_snd fun_eq_iff)
  then show ?case
    using m n by (auto intro!: sort_key_fst_unique simp: gomap_ok_map_snd map_ok_iff)
qed auto

section \<open>Reading a value at a path\<close>

type_synonym path = "string list"

fun value_at :: "path \<Rightarrow> any \<Rightarrow> any option" where
  "value_at [] v = Some v"
| "value_at (k # p) (Obj m) = (case map_of m k of None \<Rightarrow> None | Some v \<Rightarrow> value_at p v)"
| "value_at (k # p) _ = None"

text \<open>A leaf is a value that is not a map.\<close>

definition leaf_at :: "path \<Rightarrow> any \<Rightarrow> any option" where
  "leaf_at p v = (case value_at p v of None \<Rightarrow> None | Some x \<Rightarrow> if is_obj x then None else Some x)"

text \<open>
  A value touches a path when it has something to say about it: a value at the path itself, or
  a leaf at a prefix of it.
\<close>

fun touches :: "path \<Rightarrow> any \<Rightarrow> bool" where
  "touches [] v = True"
| "touches (k # p) (Obj m) = (case map_of m k of None \<Rightarrow> False | Some v \<Rightarrow> touches p v)"
| "touches (k # p) _ = True"

lemma leaf_at_Nil [simp]: "leaf_at [] v = (if is_obj v then None else Some v)"
  by (simp add: leaf_at_def)

lemma leaf_at_Cons_Obj [simp]:
  "leaf_at (k # p) (Obj m) = (case map_of m k of None \<Rightarrow> None | Some v \<Rightarrow> leaf_at p v)"
  by (auto simp: leaf_at_def split: option.splits)

lemma leaf_at_Cons_leaf [simp]: "\<not> is_obj v \<Longrightarrow> leaf_at (k # p) v = None"
  by (cases v) (auto simp: leaf_at_def)

lemma leaf_at_not_obj: "leaf_at p v = Some x \<Longrightarrow> \<not> is_obj x"
  by (auto simp: leaf_at_def split: option.splits if_splits)

lemma touches_leaf [simp]: "\<not> is_obj v \<Longrightarrow> touches p v"
  by (cases v; cases p) auto

lemma leaf_at_touches: "leaf_at p v = Some x \<Longrightarrow> touches p v"
proof (induction p v rule: touches.induct)
  case (2 k p m)
  then show ?case by (cases "map_of m k") auto
qed auto

lemma value_at_prefix_leaf:
  "\<not> is_obj v \<Longrightarrow> \<exists>q r x. p = q @ r \<and> value_at q v = Some x \<and> (r = [] \<or> \<not> is_obj x)"
  by (rule exI[of _ "[]"]) simp

lemma touches_value_at:
  "touches p v \<longleftrightarrow> (\<exists>q r x. p = q @ r \<and> value_at q v = Some x \<and> (r = [] \<or> \<not> is_obj x))"
  (is "_ \<longleftrightarrow> ?R p v")
proof (induction p v rule: touches.induct)
  case (1 v)
  have "?R [] v" by (rule exI[of _ "[]"]) auto
  then show ?case by simp
next
  case (2 k p m)
  show ?case
  proof (cases "map_of m k")
    case None
    then have "\<not> ?R (k # p) (Obj m)"
      by (auto simp: Cons_eq_append_conv)
    then show ?thesis using None by simp
  next
    case (Some v)
    have "?R (k # p) (Obj m) \<longleftrightarrow> ?R p v"
    proof
      assume "?R (k # p) (Obj m)"
      then obtain q r x where h: "k # p = q @ r" "value_at q (Obj m) = Some x" "r = [] \<or> \<not> is_obj x"
        by blast
      from h obtain q' where "q = k # q'" "p = q' @ r" by (cases q) auto
      with h Some show "?R p v" by auto
    next
      assume "?R p v"
      then obtain q r x where "p = q @ r" "value_at q v = Some x" "r = [] \<or> \<not> is_obj x" by blast
      then have "k # p = (k # q) @ r \<and> value_at (k # q) (Obj m) = Some x \<and> (r = [] \<or> \<not> is_obj x)"
        by (simp add: Some)
      then show "?R (k # p) (Obj m)" by blast
    qed
    with 2[OF Some] Some show ?thesis by simp
  qed
qed (rule iffI, rule value_at_prefix_leaf, simp, simp)+

text \<open>Reading does not depend on the order of the maps.\<close>

lemma leaf_at_eqv: "any_eqv v w \<Longrightarrow> rel_option any_eqv (leaf_at p v) (leaf_at p w)"
proof (induction p arbitrary: v w)
  case Nil
  then show ?case using any_eqv_is_obj by auto
next
  case (Cons k p)
  from Cons.prems show ?case
  proof (cases rule: any_eqv.cases)
    case (eqv_Obj m n)
    then show ?thesis
      using Cons.IH eqv_Obj(3)[of k] by (cases "map_of m k"; cases "map_of n k") auto
  qed auto
qed

lemma touches_eqv: "any_eqv v w \<Longrightarrow> touches p v = touches p w"
proof (induction p arbitrary: v w)
  case (Cons k p)
  from Cons.prems show ?case
  proof (cases rule: any_eqv.cases)
    case (eqv_Obj m n)
    then show ?thesis
      using Cons.IH eqv_Obj(3)[of k] by (cases "map_of m k"; cases "map_of n k") auto
  qed auto
qed simp

end
