(* ===== verification/Tenant_Groups.thy ===== *)
theory Tenant_Groups
  imports Any_Values
begin

text \<open>
  \<open>internal/merge/types.go\<close> and \<open>internal/merge/group.go\<close>: the contributions the merge engine
  works on, their grouping by tenant and the order in which a tenant's contributions are
  layered. The precedence key is (weight, namespace, name), the weight read as a signed 32-bit
  integer; \<open>SortGroup\<close> is an instance of the stable-sort contract for that key.
\<close>

section \<open>Types\<close>

record Override =
  ov_Namespace :: string
  ov_Name :: string
  ov_TenantId :: string
  ov_Weight :: int32
  ov_Overrides :: anymap

record CRRef =
  ref_Namespace :: string
  ref_Name :: string
  ref_Weight :: int32

definition refOf :: "Override \<Rightarrow> CRRef" where
  "refOf cr = \<lparr>ref_Namespace = ov_Namespace cr, ref_Name = ov_Name cr, ref_Weight = ov_Weight cr\<rparr>"

section \<open>Grouping by tenant\<close>

text \<open>\<open>out[cr.TenantId] = append(out[cr.TenantId], cr)\<close>; a missing key reads as a nil slice.\<close>

definition group_append :: "Override list gomap \<Rightarrow> Override \<Rightarrow> Override list gomap" where
  "group_append out cr =
     (let old = (case map_of out (ov_TenantId cr) of None \<Rightarrow> [] | Some g \<Rightarrow> g)
      in gomap_put (ov_TenantId cr) (old @ [cr]) out)"

definition GroupByTenant :: "Override list \<Rightarrow> Override list gomap" where
  "GroupByTenant crs = foldl group_append [] crs"

lemma GroupByTenant_Nil [simp]: "GroupByTenant [] = []"
  by (simp add: GroupByTenant_def)

lemma GroupByTenant_snoc [simp]: "GroupByTenant (crs @ [cr]) = group_append (GroupByTenant crs) cr"
  by (simp add: GroupByTenant_def)

lemma map_of_group_append:
  "map_of (group_append out cr) t =
     (if t = ov_TenantId cr
      then Some ((case map_of out t of None \<Rightarrow> [] | Some g \<Rightarrow> g) @ [cr]) else map_of out t)"
  by (simp add: group_append_def Let_def)

lemma gomap_ok_GroupByTenant [simp, intro]: "gomap_ok (GroupByTenant crs)"
  by (induction crs rule: rev_induct) (simp_all add: group_append_def Let_def)

text \<open>Each bucket holds exactly the contributions of its tenant, in input order.\<close>

lemma map_of_GroupByTenant:
  "map_of (GroupByTenant crs) t =
     (let g = filter (\<lambda>c. ov_TenantId c = t) crs in if g = [] then None else Some g)"
  by (induction crs rule: rev_induct) (auto simp: map_of_group_append Let_def)

lemma GroupByTenant_member:
  "(t, g) \<in> set (GroupByTenant crs) \<longleftrightarrow> g = filter (\<lambda>c. ov_TenantId c = t) crs \<and> g \<noteq> []"
  by (auto simp flip: gomap_get_iff[OF gomap_ok_GroupByTenant]
      simp: map_of_GroupByTenant Let_def split: if_splits)

lemma GroupByTenant_keys: "fst ` set (GroupByTenant crs) = ov_TenantId ` set crs"
proof -
  have "t \<in> fst ` set (GroupByTenant crs) \<longleftrightarrow> t \<in> ov_TenantId ` set crs" for t
    by (auto simp: image_iff GroupByTenant_member filter_empty_conv Bex_def)
  then show ?thesis by blast
qed

section \<open>The order of precedence\<close>

type_synonym precedence = "int \<times> NamespacedName"

definition compare_overrides :: "Override \<Rightarrow> Override \<Rightarrow> int" where
  "compare_overrides a b =
     (if ov_Weight a \<noteq> ov_Weight b then (if sint (ov_Weight a) < sint (ov_Weight b) then - 1 else 1)
      else (let c = strings_Compare (ov_Namespace a) (ov_Namespace b) in
        if c \<noteq> 0 then c else strings_Compare (ov_Name a) (ov_Name b)))"

definition SortGroup :: "Override list \<Rightarrow> Override list" where
  "SortGroup grp = SortStableFunc compare_overrides grp"

definition override_key :: "Override \<Rightarrow> precedence" where
  "override_key cr = (sint (ov_Weight cr), NamespacedName (ov_Namespace cr) (ov_Name cr))"

lemma compare_overrides_less:
  "compare_overrides a b < 0 \<longleftrightarrow> override_key a < override_key b"
  by (auto simp: compare_overrides_def override_key_def strings_Compare_def Let_def sint_eq_iff
      less_prod_def less_NamespacedName_def)

interpretation sort_group: stable_sorter override_key SortGroup
  unfolding SortGroup_def SortStableFunc_def
  by (rule stable_sort_contract) (rule compare_overrides_less)

text \<open>Different custom resources of one kind have different (namespace, name).\<close>

definition override_id :: "Override \<Rightarrow> NamespacedName" where
  "override_id cr = NamespacedName (ov_Namespace cr) (ov_Name cr)"

definition distinct_ids :: "Override list \<Rightarrow> bool" where
  "distinct_ids crs \<longleftrightarrow> distinct (map override_id crs)"

lemma distinct_ids_key: "distinct_ids crs \<Longrightarrow> inj_on override_key (set crs)"
proof (rule inj_onI)
  fix a b
  assume "distinct_ids crs" "a \<in> set crs" "b \<in> set crs" "override_key a = override_key b"
  then have "override_id a = override_id b" by (simp add: override_id_def override_key_def)
  then show "a = b"
    using \<open>distinct_ids crs\<close> \<open>a \<in> set crs\<close> \<open>b \<in> set crs\<close>
    by (auto simp: distinct_ids_def distinct_map inj_on_def)
qed

lemma distinct_ids_filter: "distinct_ids crs \<Longrightarrow> distinct_ids (filter P crs)"
  by (simp add: distinct_ids_def distinct_map_filter)

lemma distinct_ids_perm: "mset crs = mset crs' \<Longrightarrow> distinct_ids crs \<longleftrightarrow> distinct_ids crs'"
  unfolding distinct_ids_def by (metis mset_eq_imp_distinct_iff mset_map)

text \<open>
  The layered contributions of one tenant, as a function of all contributions: what the rest
  of the development reads off \<open>GroupByTenant\<close> and \<open>SortGroup\<close>.
\<close>

definition layers :: "Override list \<Rightarrow> string \<Rightarrow> Override list" where
  "layers crs t = SortGroup (filter (\<lambda>c. ov_TenantId c = t) crs)"

lemma set_layers: "set (layers crs t) = {c \<in> set crs. ov_TenantId c = t}"
  by (auto simp: layers_def sort_group.srt_set)

lemma sorted_layers: "sorted (map override_key (layers crs t))"
  unfolding layers_def by (rule sort_group.srt_sorted)

lemma layers_perm:
  assumes "mset crs = mset crs'" and "distinct_ids crs"
  shows "layers crs t = layers crs' t"
  unfolding layers_def
proof (rule sort_group.srt_perm)
  show "mset (filter (\<lambda>c. ov_TenantId c = t) crs) = mset (filter (\<lambda>c. ov_TenantId c = t) crs')"
    using assms(1) by (metis mset_filter)
  show "inj_on override_key (set (filter (\<lambda>c. ov_TenantId c = t) crs))"
    using assms(2) by (intro distinct_ids_key distinct_ids_filter)
qed

end
