(* ===== verification/Deep_Merge.thy ===== *)
theory Deep_Merge
  imports Any_Values
begin

text \<open>
  \<open>internal/merge/merge.go\<close>: \<open>deepCopy\<close> and \<open>DeepMerge\<close>. Go updates the destination map in place
  while it ranges over the source; the model passes the destination along and returns it. The
  theory shows what the merged map holds at every key (\<open>map_of_merge_into\<close>), what it holds at
  every path (\<open>leaf_at_merge_into\<close>: the source decides every path it touches), that the result
  does not depend on the iteration order of either map, and the algebra of the merge.
\<close>

section \<open>The operations\<close>

text \<open>\<open>out[k] = deepCopy(vv)\<close> for every entry, into a fresh map or slice.\<close>

fun deepCopy :: "any \<Rightarrow> any" where
  "deepCopy (Obj x) = Obj (foldl (\<lambda>out e. gomap_put (fst e) (snd e) out) []
     (map (\<lambda>e. (fst e, deepCopy (snd e))) x))"
| "deepCopy (Arr x) = Arr (map deepCopy x)"
| "deepCopy x = x"

text \<open>The loop of \<open>DeepMerge\<close> over the source's entries, into a destination that is not nil.\<close>

function (sequential) merge_into :: "anymap \<Rightarrow> anymap \<Rightarrow> anymap" where
  "merge_into dst [] = dst"
| "merge_into dst ((k, v) # src) =
     merge_into
       (case map_of dst k of
          None \<Rightarrow> gomap_put k (deepCopy v) dst
        | Some existing \<Rightarrow>
            (case (existing, v) of
               (Obj existingMap, Obj vMap) \<Rightarrow> gomap_put k (Obj (merge_into existingMap vMap)) dst
             | _ \<Rightarrow> gomap_put k (deepCopy v) dst))
       src"
  by pat_completeness auto
termination
  by (relation "measure (\<lambda>(dst, src). size (Obj src))") auto

definition DeepMerge :: "anymap option \<Rightarrow> anymap \<Rightarrow> anymap" where
  "DeepMerge dst src = merge_into (case dst of None \<Rightarrow> [] | Some d \<Rightarrow> d) src"

section \<open>Copying\<close>

lemma put_all_fresh:
  "gomap_ok (acc @ xs) \<Longrightarrow> foldl (\<lambda>out e. gomap_put (fst e) (snd e) out) acc xs = acc @ xs"
proof (induction xs arbitrary: acc)
  case (Cons e xs)
  have "map_of acc (fst e) = None"
    using Cons.prems by (auto simp: gomap_ok_def map_of_eq_None_iff)
  then have "gomap_put (fst e) (snd e) acc = acc @ [e]" by (simp add: gomap_put_fresh)
  then show ?case using Cons.IH[of "acc @ [e]"] Cons.prems by simp
qed simp

text \<open>A deep copy is the same value.\<close>

lemma deepCopy_id: "any_ok v \<Longrightarrow> deepCopy v = v"
proof (induction v rule: deepCopy.induct)
  case (1 m)
  have "(fst e, deepCopy (snd e)) = e" if e: "e \<in> set m" for e
  proof -
    have "any_ok (snd e)" using 1(2) e map_ok_memD by simp
    then show ?thesis using 1(1)[OF e] by simp
  qed
  then have "map (\<lambda>e. (fst e, deepCopy (snd e))) m = m" by (simp add: map_idI)
  moreover have "gomap_ok m" using 1(2) by (simp add: map_ok_iff)
  ultimately show ?case using put_all_fresh[of "[]" m] by simp
next
  case (2 xs)
  then show ?case by (simp add: map_idI)
qed auto

section \<open>What the merged map holds at a key\<close>

text \<open>The value that one entry of the source leaves in the destination.\<close>

definition merge_entry :: "any option \<Rightarrow> any \<Rightarrow> any" where
  "merge_entry old v =
     (case old of
        Some (Obj d) \<Rightarrow> (case v of Obj s \<Rightarrow> Obj (merge_into d s) | _ \<Rightarrow> v)
      | _ \<Rightarrow> v)"

lemma merge_entry_simps [simp]:
  "merge_entry None v = v"
  "merge_entry (Some (Obj d)) (Obj s) = Obj (merge_into d s)"
  "\<not> is_obj e \<Longrightarrow> merge_entry (Some e) v = v"
  "\<not> is_obj v \<Longrightarrow> merge_entry old v = v"
  by (auto simp: merge_entry_def split: option.splits any.splits)

lemma merge_into_Cons:
  "any_ok v \<Longrightarrow> merge_into dst ((k, v) # src)
     = merge_into (gomap_put k (merge_entry (map_of dst k) v) dst) src"
  by (auto simp: merge_entry_def deepCopy_id simp del: deepCopy.simps split: option.splits any.splits)

declare merge_into.simps(2) [simp del]

lemma map_of_merge_into:
  "map_ok src \<Longrightarrow> map_of (merge_into dst src) k =
     (case map_of src k of None \<Rightarrow> map_of dst k | Some v \<Rightarrow> Some (merge_entry (map_of dst k) v))"
proof (induction src arbitrary: dst)
  case (Cons e src)
  obtain j v where e: "e = (j, v)" by (cases e)
  show ?case
    using Cons by (auto simp: e merge_into_Cons split: option.splits)
qed simp

lemma gomap_ok_merge_into: "map_ok src \<Longrightarrow> gomap_ok dst \<Longrightarrow> gomap_ok (merge_into dst src)"
proof (induction src arbitrary: dst)
  case (Cons e src)
  then show ?case by (cases e) (simp add: merge_into_Cons)
qed simp

lemma any_ok_merge_entry:
  "any_ok v \<Longrightarrow> (\<And>e. old = Some e \<Longrightarrow> any_ok e) \<Longrightarrow> any_ok (merge_entry old v)"
proof (induction v arbitrary: old)
  case (Obj s)
  show ?case
  proof (cases "\<exists>d. old = Some (Obj d)")
    case True
    then obtain d where old: "old = Some (Obj d)" by blast
    then have d: "map_ok d" and s: "map_ok s" using Obj.prems by auto
    have "map_ok (merge_into d s)"
    proof (rule map_okI)
      show "gomap_ok (merge_into d s)" using d s by (simp add: gomap_ok_merge_into map_ok_iff)
      fix k v assume v: "map_of (merge_into d s) k = Some v"
      show "any_ok v"
      proof (cases "map_of s k")
        case None
        then show ?thesis using v d by (auto simp: map_of_merge_into[OF s] map_ok_iff)
      next
        case (Some w)
        then have mem: "(k, w) \<in> set s" by (rule map_of_SomeD)
        have "any_ok (merge_entry (map_of d k) w)"
          by (rule Obj.IH[OF mem]) (use map_okD(2)[OF s Some] map_okD(2)[OF d] in auto)
        then show ?thesis using v Some by (simp add: map_of_merge_into[OF s])
      qed
    qed
    then show ?thesis by (simp add: old)
  next
    case False
    then have "merge_entry old (Obj s) = Obj s"
      by (auto simp: merge_entry_def split: option.splits any.splits)
    then show ?thesis using Obj.prems by simp
  qed
qed auto

lemma map_ok_merge_into:
  assumes "map_ok dst" and "map_ok src"
  shows "map_ok (merge_into dst src)"
  using any_ok_merge_entry[of "Obj src" "Some (Obj dst)"] assms by simp

section \<open>What the merged map holds at a path\<close>

text \<open>The source decides every path it touches; the others keep the destination's leaf.\<close>

lemma not_touched: "\<not> touches p v \<Longrightarrow> leaf_at p v = None"
  using leaf_at_touches by (cases "leaf_at p v") auto

lemma leaf_at_merge_into:
  "map_ok s \<Longrightarrow> p \<noteq> [] \<Longrightarrow> leaf_at p (Obj (merge_into d s)) =
     (if touches p (Obj s) then leaf_at p (Obj s) else leaf_at p (Obj d))"
proof (induction p arbitrary: d s)
  case (Cons k p)
  note s = map_of_merge_into[OF Cons.prems(1)]
  show ?case
  proof (cases "map_of s k")
    case None
    then show ?thesis by (simp add: s)
  next
    case w: (Some w)
    show ?thesis
    proof (cases "p = [] \<or> \<not> is_obj w")
      case True
      then show ?thesis
        by (cases "map_of d k") (auto simp: s w is_obj_iff merge_entry_def split: any.splits)
    next
      case False
      then obtain m where m: "w = Obj m" and p: "p \<noteq> []" by (auto simp: is_obj_iff)
      have "map_ok m" using map_okD(2)[OF Cons.prems(1) w] by (simp add: m)
      note IH = Cons.IH[OF this p]
      show ?thesis
      proof (cases "map_of d k")
        case None
        then show ?thesis using not_touched[of p w] by (simp add: s w)
      next
        case (Some e)
        show ?thesis
        proof (cases e)
          case (Obj d')
          then show ?thesis using IH[of d'] by (simp add: s w Some m)
        qed (use Some p not_touched[of p w] in \<open>auto simp: s w neq_Nil_conv\<close>)
      qed
    qed
  qed
qed simp

text \<open>
  Merging a list of maps one after the other: every leaf of the result is what the last map
  that touches its path says.
\<close>

lemma leaf_at_merge_all:
  assumes "\<forall>s \<in> set ss. map_ok s" and "p \<noteq> []"
  shows "leaf_at p (Obj (foldl merge_into d ss)) =
     (case find (\<lambda>s. touches p (Obj s)) (rev ss) of
        None \<Rightarrow> leaf_at p (Obj d) | Some s \<Rightarrow> leaf_at p (Obj s))"
  using assms(1)
proof (induction ss rule: rev_induct)
  case (snoc s ss)
  then show ?case using leaf_at_merge_into[OF _ assms(2), of s] by simp
qed simp

section \<open>Independence of the iteration order\<close>

lemma merge_entry_eqv:
  assumes "any_ok v" and "any_ok w" and "any_eqv v w" and "rel_option any_eqv old old'"
  shows "any_eqv (merge_entry old v) (merge_entry old' w)"
  using assms
proof (induction v arbitrary: old old' w)
  case (Obj s)
  obtain t where w: "w = Obj t" and st: "map_eqv s t"
    using Obj.prems(3) by (auto simp: map_eqv_def)
  have s: "map_ok s" and t: "map_ok t" using Obj.prems(1,2) w by auto
  show ?case
  proof (cases "\<exists>d. old = Some (Obj d)")
    case False
    then have "\<nexists>d. old' = Some (Obj d)"
      using Obj.prems(4) by (cases old; cases old') (auto dest: any_eqv_sym)
    with False have "merge_entry old (Obj s) = Obj s" "merge_entry old' (Obj t) = Obj t"
      by (auto simp: merge_entry_def split: option.splits any.splits)
    then show ?thesis using Obj.prems(3) w by simp
  next
    case True
    then obtain d d' where d: "old = Some (Obj d)" "old' = Some (Obj d')" "map_eqv d d'"
      using Obj.prems(4) by (cases old') (auto simp: map_eqv_def)
    have "rel_option any_eqv (map_of (merge_into d s) k) (map_of (merge_into d' t) k)" for k
    proof (cases "map_of s k")
      case None
      then have "map_of t k = None" using st[unfolded map_eqv_iff, rule_format, of k] by simp
      then show ?thesis
        using None d(3) by (simp add: map_of_merge_into s t map_eqv_iff)
    next
      case (Some v)
      then obtain u where u: "map_of t k = Some u" "any_eqv v u"
        using st[unfolded map_eqv_iff, rule_format, of k] by (cases "map_of t k") auto
      have "any_eqv (merge_entry (map_of d k) v) (merge_entry (map_of d' k) u)"
        by (rule Obj.IH[OF map_of_SomeD[OF Some]])
          (use map_okD(2)[OF s Some] map_okD(2)[OF t u(1)] u(2) d(3) in \<open>auto simp: map_eqv_iff\<close>)
      then show ?thesis by (simp add: map_of_merge_into s t Some u(1))
    qed
    then show ?thesis by (simp add: d w)
  qed
qed auto

lemma merge_into_eqv:
  assumes "map_ok s" and "map_ok t" and "map_eqv s t" and "map_eqv d d'"
  shows "map_eqv (merge_into d s) (merge_into d' t)"
  using merge_entry_eqv[of "Obj s" "Obj t" "Some (Obj d)" "Some (Obj d')"] assms
  by (simp add: map_eqv_def)

section \<open>Algebra\<close>

lemma merge_entry_idem:
  "any_ok v \<Longrightarrow> any_eqv (merge_entry (Some (merge_entry old v)) v) (merge_entry old v)"
proof (induction v arbitrary: old)
  case (Obj s)
  have s: "map_ok s" using Obj.prems by simp
  have step: "map_eqv (merge_into (merge_into d s) s) (merge_into d s)" for d
    unfolding map_eqv_iff
  proof
    fix k
    show "rel_option any_eqv (map_of (merge_into (merge_into d s) s) k) (map_of (merge_into d s) k)"
    proof (cases "map_of s k")
      case None
      then show ?thesis by (simp add: map_of_merge_into[OF s] option.rel_refl)
    next
      case (Some v)
      from Obj.IH[OF map_of_SomeD[OF Some]] show ?thesis
        using map_okD(2)[OF s Some] by (simp add: map_of_merge_into[OF s] Some)
    qed
  qed
  have self: "map_eqv (merge_into s s) s"
    unfolding map_eqv_iff
  proof
    fix k
    show "rel_option any_eqv (map_of (merge_into s s) k) (map_of s k)"
    proof (cases "map_of s k")
      case None
      then show ?thesis by (simp add: map_of_merge_into[OF s])
    next
      case (Some v)
      from Obj.IH[OF map_of_SomeD[OF Some], of v None] show ?thesis
        using map_okD(2)[OF s Some] by (simp add: map_of_merge_into[OF s] Some)
    qed
  qed
  show ?case
  proof (cases "\<exists>d. old = Some (Obj d)")
    case True
    then obtain d where "old = Some (Obj d)" by blast
    then show ?thesis using step by (simp add: map_eqv_def)
  next
    case False
    then have "merge_entry old (Obj s) = Obj s"
      by (auto simp: merge_entry_def split: option.splits any.splits)
    then show ?thesis using self by (simp add: map_eqv_def)
  qed
qed auto

lemma merge_into_idem:
  "map_ok s \<Longrightarrow> map_eqv (merge_into (merge_into d s) s) (merge_into d s)"
  using merge_entry_idem[of "Obj s" "Some (Obj d)"] by (simp add: map_eqv_def)

lemma merge_into_empty: "map_ok s \<Longrightarrow> merge_into [] s = s"
proof -
  have "merge_into d s = d @ s" if "gomap_ok (d @ s)" "map_ok s" for d
    using that
  proof (induction s arbitrary: d)
    case (Cons e s)
    obtain k v where e: "e = (k, v)" by (cases e)
    have "map_of d k = None"
      using Cons.prems(1) by (auto simp: e gomap_ok_def map_of_eq_None_iff)
    then show ?case
      using Cons.IH[of "d @ [(k, v)]"] Cons.prems by (simp add: e merge_into_Cons gomap_put_fresh)
  qed simp
  then show "map_ok s \<Longrightarrow> merge_into [] s = s" by (simp add: map_ok_iff)
qed

end
