(* ===== verification/Tracking.thy ===== *)
theory Tracking
  imports Tenant_Groups Deep_Merge
begin

text \<open>
  \<open>internal/merge/conflict.go\<close>: the merge of one tenant's layered contributions together with
  the conflicts per leaf. The callback that \<open>TrackingMerge\<close> hands to \<open>walkLeaves\<close> does not
  influence the walk, so \<open>walkLeaves\<close> is the list of its calls in order and the callback is the
  step \<open>visit\<close> of a fold over that list. Comparing two leaves can panic: Go's \<open>==\<close> on two
  interface values that both hold maps does, and \<open>leafValuesEqual\<close> applies it to the elements
  of slices.
\<close>

section \<open>Comparing leaves\<close>

text \<open>Go's \<open>==\<close> on two values of type \<open>any\<close>.\<close>

fun go_equal :: "any \<Rightarrow> any \<Rightarrow> bool outcome" where
  "go_equal Null Null = Done True"
| "go_equal (Bool a) (Bool b) = Done (a = b)"
| "go_equal (Num a) (Num b) = Done (float64_eq a b)"
| "go_equal (Str a) (Str b) = Done (a = b)"
| "go_equal (Arr a) (Arr b) =
     Panic ''runtime error: comparing uncomparable type []interface {}''"
| "go_equal (Obj a) (Obj b) =
     Panic ''runtime error: comparing uncomparable type map[string]interface {}''"
| "go_equal _ _ = Done False"

fun leafValuesEqual :: "any \<Rightarrow> any \<Rightarrow> bool outcome"
  and elementsEqual :: "any list \<Rightarrow> any list \<Rightarrow> bool outcome" where
  "leafValuesEqual (Arr ax) b =
     (case b of
        Arr bx \<Rightarrow> if length ax \<noteq> length bx then Done False else elementsEqual ax bx
      | _ \<Rightarrow> Done False)"
| "leafValuesEqual a b = go_equal a b"
| "elementsEqual (x # ax) (y # bx) =
     (case leafValuesEqual x y of
        Panic e \<Rightarrow> Panic e
      | Done eq \<Rightarrow> if \<not> eq then Done False else elementsEqual ax bx)"
| "elementsEqual _ _ = Done True"

section \<open>Visiting the leaves\<close>

fun walkLeaves :: "anymap \<Rightarrow> path \<Rightarrow> (path \<times> any) list" where
  "walkLeaves [] pre = []"
| "walkLeaves ((k, vv) # v) pre =
     (case vv of Obj m \<Rightarrow> walkLeaves m (pre @ [k]) | _ \<Rightarrow> [(pre @ [k], vv)]) @ walkLeaves v pre"

section \<open>Merging with provenance\<close>

record FieldConflict =
  fc_Tenant :: string
  fc_Path :: path
  fc_Winner :: CRRef
  fc_Losers :: "CRRef list"
  fc_SameWeight :: bool

record writerInfo =
  wi_ref :: CRRef
  wi_value :: any

record tracking =
  tr_merged :: anymap
  tr_provenance :: "string \<Rightarrow> writerInfo option"
  tr_conflicts :: "string \<Rightarrow> FieldConflict option"
  tr_pathKeyOrder :: "string list"

definition path_key :: "path \<Rightarrow> string" where
  "path_key p = strings_Join p [CHR 0x00]"

definition zero_CRRef :: CRRef where
  "zero_CRRef = \<lparr>ref_Namespace = [], ref_Name = [], ref_Weight = 0\<rparr>"

text \<open>A conflicting write: the conflict's record is made on the first one, then extended.\<close>

definition record_conflict ::
  "string \<Rightarrow> CRRef \<Rightarrow> path \<Rightarrow> string \<Rightarrow> writerInfo \<Rightarrow> tracking \<Rightarrow> tracking" where
  "record_conflict tenant ref p key prior st =
     (let (fc, order) =
        (case tr_conflicts st key of
           Some fc \<Rightarrow> (fc, tr_pathKeyOrder st)
         | None \<Rightarrow>
             (\<lparr>fc_Tenant = tenant, fc_Path = p, fc_Winner = zero_CRRef, fc_Losers = [],
               fc_SameWeight = False\<rparr>, tr_pathKeyOrder st @ [key]));
        fc = fc\<lparr>fc_Losers := fc_Losers fc @ [wi_ref prior], fc_Winner := ref\<rparr>;
        fc = (if ref_Weight (wi_ref prior) = ref_Weight ref then fc\<lparr>fc_SameWeight := True\<rparr> else fc)
      in st\<lparr>tr_conflicts := (tr_conflicts st)(key \<mapsto> fc), tr_pathKeyOrder := order\<rparr>)"

text \<open>The callback of \<open>walkLeaves\<close>: one leaf written by one custom resource.\<close>

definition visit :: "string \<Rightarrow> CRRef \<Rightarrow> path \<Rightarrow> any \<Rightarrow> tracking \<Rightarrow> tracking outcome" where
  "visit tenant ref p value st =
     (let key = path_key p;
          checked =
            (case tr_provenance st key of
               None \<Rightarrow> Done st
             | Some prior \<Rightarrow>
                 (case leafValuesEqual (wi_value prior) value of
                    Panic e \<Rightarrow> Panic e
                  | Done True \<Rightarrow> Done st
                  | Done False \<Rightarrow> Done (record_conflict tenant ref p key prior st)))
      in case checked of
           Panic e \<Rightarrow> Panic e
         | Done st' \<Rightarrow>
             Done (st'\<lparr>tr_provenance :=
               (tr_provenance st')(key \<mapsto> \<lparr>wi_ref = ref, wi_value = value\<rparr>)\<rparr>))"

fun visit_all :: "string \<Rightarrow> CRRef \<Rightarrow> (path \<times> any) list \<Rightarrow> tracking \<Rightarrow> tracking outcome" where
  "visit_all tenant ref [] st = Done st"
| "visit_all tenant ref ((p, value) # vs) st =
     (case visit tenant ref p value st of
        Panic e \<Rightarrow> Panic e
      | Done st' \<Rightarrow> visit_all tenant ref vs st')"

fun track_overrides :: "string \<Rightarrow> Override list \<Rightarrow> tracking \<Rightarrow> tracking outcome" where
  "track_overrides tenant [] st = Done st"
| "track_overrides tenant (cr # crs) st =
     (case visit_all tenant (refOf cr) (walkLeaves (ov_Overrides cr) []) st of
        Panic e \<Rightarrow> Panic e
      | Done st' \<Rightarrow>
          track_overrides tenant crs
            (st'\<lparr>tr_merged := DeepMerge (Some (tr_merged st')) (ov_Overrides cr)\<rparr>))"

text \<open>\<open>out = append(out, *conflicts[k])\<close>; a key without an entry would be a nil dereference.\<close>

fun materialize :: "(string \<Rightarrow> FieldConflict option) \<Rightarrow> string list \<Rightarrow> FieldConflict list outcome" where
  "materialize conflicts [] = Done []"
| "materialize conflicts (k # ks) =
     (case conflicts k of
        None \<Rightarrow> Panic ''runtime error: invalid memory address or nil pointer dereference''
      | Some fc \<Rightarrow>
          (case materialize conflicts ks of Panic e \<Rightarrow> Panic e | Done out \<Rightarrow> Done (fc # out)))"

definition tracking_start :: tracking where
  "tracking_start = \<lparr>tr_merged = [], tr_provenance = (\<lambda>_. None), tr_conflicts = (\<lambda>_. None),
     tr_pathKeyOrder = []\<rparr>"

definition TrackingMerge :: "string \<Rightarrow> Override list \<Rightarrow> (anymap \<times> FieldConflict list) outcome" where
  "TrackingMerge tenant crs =
     (case track_overrides tenant crs tracking_start of
        Panic e \<Rightarrow> Panic e
      | Done st \<Rightarrow>
          (case materialize (tr_conflicts st) (tr_pathKeyOrder st) of
             Panic e \<Rightarrow> Panic e
           | Done out \<Rightarrow> Done (tr_merged st, out)))"

section \<open>When comparing does not panic\<close>

text \<open>A value without maps inside can be compared with anything.\<close>

fun plain :: "any \<Rightarrow> bool" where
  "plain (Obj m) = False"
| "plain (Arr xs) = (\<forall>x \<in> set xs. plain x)"
| "plain _ = True"

lemma go_equal_plain: "plain a \<Longrightarrow> \<not> (\<exists>xs. a = Arr xs) \<Longrightarrow> \<exists>r. go_equal a b = Done r"
  by (cases a; cases b) auto

lemma leafValuesEqual_plain:
  "plain a \<Longrightarrow> \<exists>r. leafValuesEqual a b = Done r"
  "\<forall>x \<in> set ax. plain x \<Longrightarrow> \<exists>r. elementsEqual ax bx = Done r"
proof (induction a b and ax bx rule: leafValuesEqual_elementsEqual.induct)
  case (1 ax b)
  then show ?case by (cases b) auto
next
  case (3 x ax y bx)
  then obtain r where r: "leafValuesEqual x y = Done r" by auto
  show ?case
  proof (cases r)
    case True
    then show ?thesis using 3 r by auto
  qed (auto simp: r)
qed (auto intro: go_equal_plain)

section \<open>The leaves that a walk visits\<close>

lemma walkLeaves_append:
  "walkLeaves m (a @ b) = map (\<lambda>(p, v). (a @ p, v)) (walkLeaves m b)"
proof (induction m b rule: walkLeaves.induct)
  case (2 k vv v b)
  then show ?case by (cases vv) auto
qed simp

lemma walkLeaves_prefix:
  "walkLeaves m pre = map (\<lambda>(p, v). (pre @ p, v)) (walkLeaves m [])"
  using walkLeaves_append[of m pre "[]"] by simp

lemma leaf_at_leaf: "\<not> is_obj w \<Longrightarrow> leaf_at p w = Some v \<longleftrightarrow> p = [] \<and> v = w"
  by (cases p) auto

lemma leaf_at_Cons_map:
  assumes "map_of m k = None"
  shows "(\<exists>p. q = pre @ p \<and> p \<noteq> [] \<and> leaf_at p (Obj ((k, vv) # m)) = Some v) \<longleftrightarrow>
      (\<exists>p. q = pre @ k # p \<and> leaf_at p vv = Some v) \<or>
      (\<exists>p. q = pre @ p \<and> p \<noteq> [] \<and> leaf_at p (Obj m) = Some v)" (is "?L \<longleftrightarrow> ?A \<or> ?B")
proof
  assume ?L
  then obtain j p where h: "q = pre @ j # p" "leaf_at (j # p) (Obj ((k, vv) # m)) = Some v"
    unfolding neq_Nil_conv by blast
  show "?A \<or> ?B"
  proof (cases "j = k")
    case True
    then have ?A using h by simp
    then show ?thesis ..
  next
    case False
    then have "leaf_at (j # p) (Obj m) = Some v" using h(2) by simp
    then have ?B using h(1) by blast
    then show ?thesis ..
  qed
next
  assume "?A \<or> ?B"
  then show ?L
  proof
    assume ?A
    then obtain p where "q = pre @ k # p" "leaf_at (k # p) (Obj ((k, vv) # m)) = Some v" by auto
    then show ?L by blast
  next
    assume ?B
    then obtain j p where h: "q = pre @ j # p" "leaf_at (j # p) (Obj m) = Some v"
      unfolding neq_Nil_conv by blast
    then have "j \<noteq> k" using assms by auto
    then have "leaf_at (j # p) (Obj ((k, vv) # m)) = Some v" using h(2) by simp
    then show ?L using h(1) by blast
  qed
qed

lemma set_walkLeaves_prefix:
  "map_ok m \<Longrightarrow> (q, v) \<in> set (walkLeaves m pre) \<longleftrightarrow>
     (\<exists>p. q = pre @ p \<and> p \<noteq> [] \<and> leaf_at p (Obj m) = Some v)"
proof (induction m pre arbitrary: q rule: walkLeaves.induct)
  case (1 pre)
  then show ?case by (auto simp: neq_Nil_conv)
next
  case (2 k vv m pre)
  have m: "map_ok m" "map_of m k = None" using 2(3) by auto
  have hd: "(q, v) \<in> set (case vv of Obj n \<Rightarrow> walkLeaves n (pre @ [k]) | _ \<Rightarrow> [(pre @ [k], vv)]) \<longleftrightarrow>
      (\<exists>p. q = pre @ k # p \<and> leaf_at p vv = Some v)"
  proof (cases vv)
    case (Obj n)
    then have "map_ok n" using 2(3) by simp
    moreover have "leaf_at p (Obj n) = Some v \<Longrightarrow> p \<noteq> []" for p by (cases p) auto
    ultimately show ?thesis using 2(1)[OF Obj] Obj by auto
  qed (auto simp: leaf_at_leaf)
  show ?case
    unfolding walkLeaves.simps set_append Un_iff hd 2(2)[OF m(1)] leaf_at_Cons_map[OF m(2)] ..
qed

lemma set_walkLeaves:
  "map_ok m \<Longrightarrow> (p, v) \<in> set (walkLeaves m []) \<longleftrightarrow> p \<noteq> [] \<and> leaf_at p (Obj m) = Some v"
  by (simp add: set_walkLeaves_prefix)

text \<open>Each leaf is visited once.\<close>

lemma distinct_walkLeaves: "map_ok m \<Longrightarrow> distinct (map fst (walkLeaves m pre))"
proof (induction m pre rule: walkLeaves.induct)
  case (2 k vv m pre)
  have m: "map_ok m" "map_of m k = None" using 2(3) by auto
  have sub: "distinct (map fst (case vv of Obj n \<Rightarrow> walkLeaves n (pre @ [k]) | _ \<Rightarrow> [(pre @ [k], vv)]))"
    using 2(1,3) by (cases vv) auto
  have "\<exists>r. q = pre @ k # r"
    if "q \<in> fst ` set (case vv of Obj n \<Rightarrow> walkLeaves n (pre @ [k]) | _ \<Rightarrow> [(pre @ [k], vv)])" for q
    using that 2(3) by (cases vv) (auto simp: set_walkLeaves_prefix)
  moreover have "\<not> (\<exists>r. q = pre @ k # r)" if "q \<in> fst ` set (walkLeaves m pre)" for q
    using that m by (auto simp: set_walkLeaves_prefix neq_Nil_conv)
  ultimately show ?case using sub 2(2)[OF m(1)] by auto
qed simp

lemma filter_walkLeaves:
  assumes "map_ok m" and "p \<noteq> []"
  shows "filter (\<lambda>w. fst w = p) (walkLeaves m []) =
     (case leaf_at p (Obj m) of None \<Rightarrow> [] | Some v \<Rightarrow> [(p, v)])"
proof -
  have d: "distinct (map fst (walkLeaves m []))" using assms(1) by (rule distinct_walkLeaves)
  have single: "filter (\<lambda>w. fst w = p) xs = (case map_of xs p of None \<Rightarrow> [] | Some v \<Rightarrow> [(p, v)])"
    if "distinct (map fst xs)" for xs :: "(path \<times> any) list"
    using that by (induction xs) (auto split: option.splits simp: filter_empty_conv map_of_eq_None_iff rev_image_eqI)
  have "map_of (walkLeaves m []) p = leaf_at p (Obj m)"
    using set_walkLeaves[OF assms(1), of p] assms(2) d
    by (cases "leaf_at p (Obj m)") (auto simp: map_of_eq_None_iff)
  then show ?thesis by (simp add: single[OF d])
qed

section \<open>The writes of a run\<close>

text \<open>
  A write is a reference, a path and a value. The writes of a tenant's layers, in the order in
  which the callback sees them, determine everything \<open>TrackingMerge\<close> records: the last write
  of a path is its provenance, and each pair of consecutive writes of a path with different
  values is a clash.
\<close>

type_synonym leaf_write = "CRRef \<times> path \<times> any"

definition writes_of :: "Override \<Rightarrow> leaf_write list" where
  "writes_of cr = map (\<lambda>(p, v). (refOf cr, p, v)) (walkLeaves (ov_Overrides cr) [])"

fun visit_writes :: "string \<Rightarrow> leaf_write list \<Rightarrow> tracking \<Rightarrow> tracking outcome" where
  "visit_writes tenant [] st = Done st"
| "visit_writes tenant ((ref, p, value) # ws) st =
     (case visit tenant ref p value st of
        Panic e \<Rightarrow> Panic e
      | Done st' \<Rightarrow> visit_writes tenant ws st')"

lemma visit_all_writes:
  "visit_all tenant ref pvs st = visit_writes tenant (map (\<lambda>(p, v). (ref, p, v)) pvs) st"
  by (induction pvs arbitrary: st) (auto split: outcome.splits)

lemma visit_override:
  "visit_all tenant (refOf cr) (walkLeaves (ov_Overrides cr) []) st
     = visit_writes tenant (writes_of cr) st"
  by (simp add: visit_all_writes writes_of_def)

lemma visit_writes_append:
  "visit_writes tenant (xs @ ys) st =
     (case visit_writes tenant xs st of Panic e \<Rightarrow> Panic e | Done st' \<Rightarrow> visit_writes tenant ys st')"
  by (induction tenant xs st rule: visit_writes.induct) (auto split: outcome.splits)

text \<open>The callback neither reads nor writes the merged map.\<close>

lemma visit_merged:
  "visit tenant ref p value (st\<lparr>tr_merged := m\<rparr>)
     = map_outcome (\<lambda>s. s\<lparr>tr_merged := m\<rparr>) (visit tenant ref p value st)"
  by (simp add: visit_def Let_def record_conflict_def split: option.splits outcome.splits bool.splits)

lemma visit_keeps_merged:
  "visit tenant ref p value st = Done st' \<Longrightarrow> tr_merged st' = tr_merged st"
  by (auto simp: visit_def Let_def record_conflict_def split: option.splits outcome.splits bool.splits)

lemma visit_writes_merged:
  "visit_writes tenant ws (st\<lparr>tr_merged := m\<rparr>)
     = map_outcome (\<lambda>s. s\<lparr>tr_merged := m\<rparr>) (visit_writes tenant ws st)"
  by (induction tenant ws st rule: visit_writes.induct)
    (simp_all add: visit_merged split: outcome.split)

lemma visit_writes_keeps_merged:
  "visit_writes tenant ws st = Done st' \<Longrightarrow> tr_merged st' = tr_merged st"
  by (induction tenant ws st rule: visit_writes.induct)
    (auto split: outcome.splits dest: visit_keeps_merged)

definition merge_overrides :: "anymap \<Rightarrow> Override list \<Rightarrow> anymap" where
  "merge_overrides m crs = foldl merge_into m (map ov_Overrides crs)"

lemma track_overrides_writes:
  "track_overrides tenant crs st =
     map_outcome (\<lambda>s. s\<lparr>tr_merged := merge_overrides (tr_merged st) crs\<rparr>)
       (visit_writes tenant (concat (map writes_of crs)) st)"
proof (induction crs arbitrary: st)
  case Nil
  then show ?case by (simp add: merge_overrides_def)
next
  case (Cons cr crs)
  show ?case
    by (simp add: visit_override visit_writes_append Cons.IH
        visit_writes_merged merge_overrides_def DeepMerge_def visit_writes_keeps_merged
        outcome.map_comp comp_def split: outcome.split)
qed

section \<open>What a run records\<close>

definition write_key :: "leaf_write \<Rightarrow> string" where
  "write_key w = path_key (fst (snd w))"

definition history :: "string \<Rightarrow> leaf_write list \<Rightarrow> leaf_write list" where
  "history key ws = filter (\<lambda>w. write_key w = key) ws"

definition differ :: "leaf_write \<Rightarrow> leaf_write \<Rightarrow> bool" where
  "differ a b \<longleftrightarrow> leafValuesEqual (snd (snd a)) (snd (snd b)) = Done False"

definition clashes :: "leaf_write list \<Rightarrow> (leaf_write \<times> leaf_write) list" where
  "clashes h = filter (\<lambda>(a, b). differ a b) (zip h (tl h))"

definition conflict_of_clashes ::
  "string \<Rightarrow> (leaf_write \<times> leaf_write) list \<Rightarrow> FieldConflict option" where
  "conflict_of_clashes tenant cs =
     (if cs = [] then None
      else Some \<lparr>fc_Tenant = tenant, fc_Path = fst (snd (snd (hd cs))),
        fc_Winner = fst (snd (last cs)), fc_Losers = map (\<lambda>c. fst (fst c)) cs,
        fc_SameWeight = (\<exists>c \<in> set cs. ref_Weight (fst (fst c)) = ref_Weight (fst (snd c)))\<rparr>)"

definition conflict_of :: "string \<Rightarrow> leaf_write list \<Rightarrow> FieldConflict option" where
  "conflict_of tenant h = conflict_of_clashes tenant (clashes h)"

lemma history_snoc:
  "history key (ws @ [w]) = history key ws @ (if write_key w = key then [w] else [])"
  by (simp add: history_def)

lemma clashes_short [simp]: "clashes [] = []" "clashes [w] = []"
  by (simp_all add: clashes_def)

lemma zip_tl_snoc: "h \<noteq> [] \<Longrightarrow> zip (h @ [w]) (tl (h @ [w])) = zip h (tl h) @ [(last h, w)]"
proof (induction h)
  case (Cons a h)
  then show ?case by (cases h) auto
qed simp

lemma clashes_snoc:
  "h \<noteq> [] \<Longrightarrow> clashes (h @ [w]) = clashes h @ (if differ (last h) w then [(last h, w)] else [])"
  by (simp add: clashes_def zip_tl_snoc del: tl_append2)

definition recorded :: "string \<Rightarrow> leaf_write list \<Rightarrow> tracking \<Rightarrow> bool" where
  "recorded tenant ws st \<longleftrightarrow>
     (\<forall>key. tr_provenance st key =
        (let h = history key ws in
         if h = [] then None else Some \<lparr>wi_ref = fst (last h), wi_value = snd (snd (last h))\<rparr>)) \<and>
     (\<forall>key. tr_conflicts st key = conflict_of tenant (history key ws)) \<and>
     distinct (tr_pathKeyOrder st) \<and>
     set (tr_pathKeyOrder st) = {key. tr_conflicts st key \<noteq> None}"

lemma recorded_start: "recorded tenant [] tracking_start"
  by (simp add: recorded_def tracking_start_def history_def conflict_of_def conflict_of_clashes_def)

lemma record_conflict_simps:
  "tr_provenance (record_conflict tenant ref p key prior st) = tr_provenance st"
  "tr_pathKeyOrder (record_conflict tenant ref p key prior st) =
     (if tr_conflicts st key = None then tr_pathKeyOrder st @ [key] else tr_pathKeyOrder st)"
  by (simp_all add: record_conflict_def Let_def split: option.splits)

lemma record_conflict_entry:
  assumes "tr_conflicts st key = conflict_of_clashes tenant cs"
    and "wi_ref prior = fst a" and "b = (ref, p, v)"
  shows "tr_conflicts (record_conflict tenant ref p key prior st)
       = (tr_conflicts st)(key := conflict_of_clashes tenant (cs @ [(a, b)]))"
  using assms by (auto simp: record_conflict_def conflict_of_clashes_def Let_def)

lemma visit_recorded:
  assumes "recorded tenant ws st" and "visit tenant ref p v st = Done st'"
  shows "recorded tenant (ws @ [(ref, p, v)]) st'"
proof -
  let ?w = "(ref, p, v)" and ?key = "path_key p"
  let ?h = "history ?key ws"
  have prov: "tr_provenance st k =
      (if history k ws = [] then None
       else Some \<lparr>wi_ref = fst (last (history k ws)), wi_value = snd (snd (last (history k ws)))\<rparr>)"
    and conf: "tr_conflicts st k = conflict_of tenant (history k ws)"
    and ord: "distinct (tr_pathKeyOrder st)" "set (tr_pathKeyOrder st) = {k. tr_conflicts st k \<noteq> None}"
    for k using assms(1) by (auto simp: recorded_def Let_def)
  have hist: "history k (ws @ [?w]) = history k ws @ (if k = ?key then [?w] else [])" for k
    by (auto simp: history_snoc write_key_def)
  show ?thesis
  proof (cases "?h \<noteq> [] \<and> differ (last ?h) ?w")
    case False
    then have st': "st' = st\<lparr>tr_provenance := (tr_provenance st)(?key \<mapsto> \<lparr>wi_ref = ref, wi_value = v\<rparr>)\<rparr>"
      using assms(2) prov[of ?key]
      by (auto simp: visit_def Let_def differ_def split: outcome.splits bool.splits if_splits)
    have "conflict_of tenant (history k (ws @ [?w])) = conflict_of tenant (history k ws)" for k
      using False by (cases "?h = []") (auto simp: hist conflict_of_def clashes_snoc)
    then show ?thesis
      using prov conf ord by (auto simp: recorded_def st' hist Let_def)
  next
    case True
    define prior where "prior = \<lparr>wi_ref = fst (last ?h), wi_value = snd (snd (last ?h))\<rparr>"
    define rc where "rc = record_conflict tenant ref p ?key prior st"
    have st': "st' = rc\<lparr>tr_provenance := (tr_provenance rc)(?key \<mapsto> \<lparr>wi_ref = ref, wi_value = v\<rparr>)\<rparr>"
      using assms(2) prov[of ?key] True
      by (auto simp: visit_def Let_def differ_def prior_def rc_def)
    have entry: "tr_conflicts rc = (tr_conflicts st)(?key := conflict_of tenant (?h @ [?w]))"
      unfolding rc_def conflict_of_def
      using record_conflict_entry[of st ?key tenant "clashes ?h" prior "last ?h" ?w ref p v]
        conf[of ?key] True by (simp add: conflict_of_def clashes_snoc prior_def)
    have new: "conflict_of tenant (?h @ [?w]) \<noteq> None"
      using True by (simp add: conflict_of_def clashes_snoc conflict_of_clashes_def)
    have order: "distinct (tr_pathKeyOrder rc)"
        "set (tr_pathKeyOrder rc) = {k. tr_conflicts rc k \<noteq> None}"
      using ord new unfolding entry by (auto simp: rc_def record_conflict_simps)
    have "tr_provenance rc = tr_provenance st" by (simp add: rc_def record_conflict_simps)
    then show ?thesis
      using prov conf order by (auto simp: recorded_def st' hist Let_def entry)
  qed
qed

lemma visit_writes_recorded:
  "visit_writes tenant ws tracking_start = Done st \<Longrightarrow> recorded tenant ws st"
proof (induction ws arbitrary: st rule: rev_induct)
  case Nil
  then show ?case using recorded_start by simp
next
  case (snoc w ws)
  obtain ref p v where w: "w = (ref, p, v)" by (cases w) auto
  from snoc.prems obtain st1 where "visit_writes tenant ws tracking_start = Done st1"
      and "visit tenant ref p v st1 = Done st"
    by (auto simp: w visit_writes_append split: outcome.splits)
  then show ?case using snoc.IH visit_recorded w by blast
qed

section \<open>The result of a run\<close>

definition all_writes :: "Override list \<Rightarrow> leaf_write list" where
  "all_writes crs = concat (map writes_of crs)"

lemma materialize_Done:
  "\<forall>k \<in> set ks. conflicts k \<noteq> None \<Longrightarrow> materialize conflicts ks = Done (map (\<lambda>k. the (conflicts k)) ks)"
  by (induction ks) auto

text \<open>The conflicts are listed in the order of their first clash, one per path key.\<close>

lemma TrackingMerge_Done:
  assumes "TrackingMerge tenant crs = Done (m, cs)"
  obtains order where
    "m = merge_overrides [] crs"
    "distinct order"
    "set order = {key. conflict_of tenant (history key (all_writes crs)) \<noteq> None}"
    "cs = map (\<lambda>key. the (conflict_of tenant (history key (all_writes crs)))) order"
proof -
  have start: "tr_merged tracking_start = []" by (simp add: tracking_start_def)
  obtain st where st: "visit_writes tenant (all_writes crs) tracking_start = Done st"
    using assms by (cases "visit_writes tenant (all_writes crs) tracking_start")
      (auto simp: TrackingMerge_def track_overrides_writes all_writes_def)
  then have m: "m = merge_overrides [] crs"
    and mat: "materialize (tr_conflicts st) (tr_pathKeyOrder st) = Done cs"
    using assms by (auto simp: TrackingMerge_def track_overrides_writes start
        simp flip: all_writes_def split: outcome.splits)
  have r: "recorded tenant (all_writes crs) st" using st by (rule visit_writes_recorded)
  then have cs: "cs = map (\<lambda>key. the (conflict_of tenant (history key (all_writes crs)))) (tr_pathKeyOrder st)"
    using mat materialize_Done[of "tr_pathKeyOrder st" "tr_conflicts st"]
    by (simp add: recorded_def)
  show thesis using that[OF m _ _ cs] r by (simp add: recorded_def)
qed

text \<open>Without maps inside slices the merge never panics.\<close>

definition plain_leaves :: "anymap \<Rightarrow> bool" where
  "plain_leaves m \<longleftrightarrow> (\<forall>w \<in> set (walkLeaves m []). plain (snd w))"

lemma visit_plain:
  assumes "\<And>key w. tr_provenance st key = Some w \<Longrightarrow> plain (wi_value w)" and "plain v"
  obtains st' where "visit tenant ref p v st = Done st'"
    and "\<And>key w. tr_provenance st' key = Some w \<Longrightarrow> plain (wi_value w)"
proof -
  have "\<exists>r. leafValuesEqual (wi_value w) v = Done r" if "tr_provenance st (path_key p) = Some w" for w
    using assms(1)[OF that] leafValuesEqual_plain(1) by blast
  then obtain st' where st': "visit tenant ref p v st = Done st'"
    by (cases "tr_provenance st (path_key p)") (fastforce simp: visit_def Let_def split: bool.splits)+
  have "plain (wi_value w)" if "tr_provenance st' key = Some w" for key w
    using st' that assms
    by (auto simp: visit_def Let_def record_conflict_simps split: option.splits outcome.splits
        bool.splits if_splits)
  with st' show thesis by (rule that)
qed

lemma visit_writes_plain:
  "(\<And>key w. tr_provenance st key = Some w \<Longrightarrow> plain (wi_value w)) \<Longrightarrow>
   \<forall>w \<in> set ws. plain (snd (snd w)) \<Longrightarrow> \<exists>st'. visit_writes tenant ws st = Done st'"
proof (induction ws arbitrary: st)
  case (Cons w ws)
  obtain ref p v where w: "w = (ref, p, v)" by (cases w) auto
  have "plain v" using Cons.prems(2) by (simp add: w)
  then obtain st' where "visit tenant ref p v st = Done st'"
      and "\<And>key w. tr_provenance st' key = Some w \<Longrightarrow> plain (wi_value w)"
    using visit_plain[where tenant = tenant and ref = ref and p = p] Cons.prems(1) by blast
  then show ?case using Cons.IH[of st'] Cons.prems(2) by (simp add: w)
qed simp

lemma TrackingMerge_plain:
  assumes "\<forall>cr \<in> set crs. plain_leaves (ov_Overrides cr)"
  shows "\<exists>cs. TrackingMerge tenant crs = Done (merge_overrides [] crs, cs)"
proof -
  have "\<forall>w \<in> set (all_writes crs). plain (snd (snd w))"
    using assms by (auto simp: all_writes_def writes_of_def plain_leaves_def)
  moreover have "tr_provenance tracking_start key = None" for key by (simp add: tracking_start_def)
  ultimately obtain st where st: "visit_writes tenant (all_writes crs) tracking_start = Done st"
    using visit_writes_plain[of tracking_start "all_writes crs" tenant] by auto
  then have "recorded tenant (all_writes crs) st" by (rule visit_writes_recorded)
  then show ?thesis
    using st materialize_Done[of "tr_pathKeyOrder st" "tr_conflicts st"]
    by (auto simp: TrackingMerge_def track_overrides_writes all_writes_def recorded_def
        tracking_start_def)
qed

section \<open>The history of a path\<close>

definition no_nul :: "path \<Rightarrow> bool" where
  "no_nul p \<longleftrightarrow> (\<forall>k \<in> set p. CHR 0x00 \<notin> set k)"

definition no_nul_keys :: "anymap \<Rightarrow> bool" where
  "no_nul_keys m \<longleftrightarrow> (\<forall>w \<in> set (walkLeaves m []). no_nul (fst w))"

lemma path_key_inj:
  "no_nul p \<Longrightarrow> no_nul q \<Longrightarrow> p \<noteq> [] \<Longrightarrow> q \<noteq> [] \<Longrightarrow> path_key p = path_key q \<longleftrightarrow> p = q"
  unfolding path_key_def no_nul_def using strings_Join_inj by blast

text \<open>The custom resources that write a path, in layer order, with what each writes.\<close>

definition path_history :: "path \<Rightarrow> Override list \<Rightarrow> leaf_write list" where
  "path_history p crs = List.map_filter
     (\<lambda>cr. map_option (\<lambda>v. (refOf cr, p, v)) (leaf_at p (Obj (ov_Overrides cr)))) crs"

lemma path_history_simps [simp]:
  "path_history p [] = []"
  "path_history p (cr # crs) = (case leaf_at p (Obj (ov_Overrides cr)) of
     None \<Rightarrow> path_history p crs | Some v \<Rightarrow> (refOf cr, p, v) # path_history p crs)"
  by (simp_all add: path_history_def List.map_filter_simps split: option.split)

definition mergeable :: "Override list \<Rightarrow> bool" where
  "mergeable crs \<longleftrightarrow> (\<forall>cr \<in> set crs. map_ok (ov_Overrides cr) \<and> no_nul_keys (ov_Overrides cr))"

lemma history_writes_of:
  assumes "map_ok (ov_Overrides cr)" and "no_nul_keys (ov_Overrides cr)" and "no_nul p" and "p \<noteq> []"
  shows "history (path_key p) (writes_of cr) = (case leaf_at p (Obj (ov_Overrides cr)) of
     None \<Rightarrow> [] | Some v \<Rightarrow> [(refOf cr, p, v)])"
proof -
  have "filter (\<lambda>w. path_key (fst w) = path_key p) (walkLeaves (ov_Overrides cr) [])
      = filter (\<lambda>w. fst w = p) (walkLeaves (ov_Overrides cr) [])"
  proof (rule filter_cong[OF refl])
    fix w assume w: "w \<in> set (walkLeaves (ov_Overrides cr) [])"
    then have "no_nul (fst w)" using assms(2) by (simp add: no_nul_keys_def)
    moreover have "fst w \<noteq> []"
      using w set_walkLeaves[OF assms(1), of "fst w" "snd w"] by simp
    ultimately show "path_key (fst w) = path_key p \<longleftrightarrow> fst w = p"
      using assms(3,4) by (simp add: path_key_inj)
  qed
  then have "filter (\<lambda>w. path_key (fst w) = path_key p) (walkLeaves (ov_Overrides cr) [])
      = (case leaf_at p (Obj (ov_Overrides cr)) of None \<Rightarrow> [] | Some v \<Rightarrow> [(p, v)])"
    by (simp add: filter_walkLeaves[OF assms(1,4)])
  then show ?thesis
    by (auto simp: history_def writes_of_def write_key_def filter_map comp_def case_prod_beta
        split: option.splits)
qed

lemma history_all_writes:
  assumes "mergeable crs" and "no_nul p" and "p \<noteq> []"
  shows "history (path_key p) (all_writes crs) = path_history p crs"
  using assms(1)
proof (induction crs)
  case Nil
  then show ?case by (simp add: history_def all_writes_def)
next
  case (Cons cr crs)
  have "history key (xs @ ys) = history key xs @ history key ys" for key xs ys
    by (simp add: history_def)
  then show ?case
    using Cons history_writes_of[of cr p, OF _ _ assms(2,3)]
    by (auto simp: all_writes_def mergeable_def split: option.splits)
qed

lemma history_other_key:
  assumes "mergeable crs" and "history key (all_writes crs) \<noteq> []"
  obtains p where "key = path_key p" and "no_nul p" and "p \<noteq> []"
proof -
  from assms(2) obtain w where w: "w \<in> set (all_writes crs)" "write_key w = key"
    by (auto simp: history_def filter_empty_conv)
  then obtain cr v p where "cr \<in> set crs" "(p, v) \<in> set (walkLeaves (ov_Overrides cr) [])"
      "key = path_key p"
    by (auto simp: all_writes_def writes_of_def write_key_def)
  then show thesis
    using that[of p] assms(1) set_walkLeaves
    by (fastforce simp: mergeable_def no_nul_keys_def)
qed

lemma clashes_member:
  "c \<in> set (clashes h) \<Longrightarrow> fst c \<in> set h \<and> snd c \<in> set h \<and> differ (fst c) (snd c)"
  by (cases c; cases h) (auto simp: clashes_def dest: set_zip_leftD set_zip_rightD)

lemma path_history_path: "w \<in> set (path_history p crs) \<Longrightarrow> fst (snd w) = p"
  by (induction crs) (auto split: option.splits)

lemma conflict_of_path:
  "conflict_of tenant (path_history p crs) = Some fc \<Longrightarrow> fc_Path fc = p \<and> fc_Tenant fc = tenant"
  using clashes_member[of "hd (clashes (path_history p crs))" "path_history p crs"]
  by (auto simp: conflict_of_def conflict_of_clashes_def path_history_path split: if_splits)

text \<open>
  The conflicts reported for a tenant, path by path: a path is reported exactly when two
  consecutive writers of it disagree, and the report is a function of the path's history.
\<close>

lemma TrackingMerge_conflicts:
  assumes "mergeable crs" and "TrackingMerge tenant crs = Done (m, cs)"
  shows "fc \<in> set cs \<longleftrightarrow>
    fc_Path fc \<noteq> [] \<and> no_nul (fc_Path fc) \<and> conflict_of tenant (path_history (fc_Path fc) crs) = Some fc"
    and "distinct (map fc_Path cs)"
proof -
  obtain order where ord: "distinct order"
      "set order = {key. conflict_of tenant (history key (all_writes crs)) \<noteq> None}"
      "cs = map (\<lambda>key. the (conflict_of tenant (history key (all_writes crs)))) order"
    using TrackingMerge_Done[OF assms(2)] by metis
  have key: "\<exists>p. key = path_key p \<and> p \<noteq> [] \<and> no_nul p \<and>
      history key (all_writes crs) = path_history p crs \<and> fc_Path fc = p"
    if "conflict_of tenant (history key (all_writes crs)) = Some fc" for key fc
  proof -
    have "history key (all_writes crs) \<noteq> []"
      using that by (auto simp: conflict_of_def conflict_of_clashes_def)
    with assms(1) obtain p where p: "key = path_key p" "no_nul p" "p \<noteq> []" by (rule history_other_key)
    then have "history key (all_writes crs) = path_history p crs"
      using history_all_writes[OF assms(1)] by simp
    with p that conflict_of_path show ?thesis by metis
  qed
  show "fc \<in> set cs \<longleftrightarrow> fc_Path fc \<noteq> [] \<and> no_nul (fc_Path fc) \<and>
      conflict_of tenant (path_history (fc_Path fc) crs) = Some fc"
  proof
    assume "fc \<in> set cs"
    then obtain key where "conflict_of tenant (history key (all_writes crs)) = Some fc"
      using ord by auto
    then show "fc_Path fc \<noteq> [] \<and> no_nul (fc_Path fc) \<and>
        conflict_of tenant (path_history (fc_Path fc) crs) = Some fc"
      using key by metis
  next
    assume h: "fc_Path fc \<noteq> [] \<and> no_nul (fc_Path fc) \<and>
        conflict_of tenant (path_history (fc_Path fc) crs) = Some fc"
    then have "conflict_of tenant (history (path_key (fc_Path fc)) (all_writes crs)) = Some fc"
      using history_all_writes[OF assms(1)] by simp
    then show "fc \<in> set cs" using ord(2,3) by force
  qed
  have "inj_on (fc_Path \<circ> (\<lambda>key. the (conflict_of tenant (history key (all_writes crs))))) (set order)"
  proof (rule inj_onI)
    fix k k' assume "k \<in> set order" "k' \<in> set order" and
      eq: "(fc_Path \<circ> (\<lambda>key. the (conflict_of tenant (history key (all_writes crs))))) k
         = (fc_Path \<circ> (\<lambda>key. the (conflict_of tenant (history key (all_writes crs))))) k'"
    then obtain fc fc' where "conflict_of tenant (history k (all_writes crs)) = Some fc"
        "conflict_of tenant (history k' (all_writes crs)) = Some fc'" "fc_Path fc = fc_Path fc'"
      using ord(2) by auto
    then show "k = k'" using key by metis
  qed
  then show "distinct (map fc_Path cs)" using ord(1) by (simp add: ord(3) distinct_map)
qed

end
