(* ===== verification/Sha256.thy ===== *)
theory Sha256
  imports Prelude
begin

text \<open>
  SHA-256 (FIPS 180-4), Go's \<open>crypto/sha256\<close>, on byte strings, and \<open>hex.EncodeToString\<close> of its
  digest: the fingerprint that \<open>internal/render\<close> takes of a rendered body. The functions are
  executable by the simplifier; the digest of \<open>abc\<close> below is the standard's test vector.
\<close>

unbundle bit_operations_syntax

section \<open>SHA-256\<close>

text \<open>The round constants and the initial hash value of FIPS 180-4.\<close>

definition sha256_K :: "32 word list" where
  "sha256_K = [1116352408, 1899447441, 3049323471, 3921009573, 961987163, 1508970993,
   2453635748, 2870763221, 3624381080, 310598401, 607225278, 1426881987,
   1925078388, 2162078206, 2614888103, 3248222580, 3835390401, 4022224774,
   264347078, 604807628, 770255983, 1249150122, 1555081692, 1996064986,
   2554220882, 2821834349, 2952996808, 3210313671, 3336571891, 3584528711,
   113926993, 338241895, 666307205, 773529912, 1294757372, 1396182291,
   1695183700, 1986661051, 2177026350, 2456956037, 2730485921, 2820302411,
   3259730800, 3345764771, 3516065817, 3600352804, 4094571909, 275423344,
   430227734, 506948616, 659060556, 883997877, 958139571, 1322822218,
   1537002063, 1747873779, 1955562222, 2024104815, 2227730452, 2361852424,
   2428436474, 2756734187, 3204031479, 3329325298]"

definition sha256_H0 :: "32 word list" where
  "sha256_H0 = [1779033703, 3144134277, 1013904242, 2773480762, 1359893119, 2600822924,
   528734635, 1541459225]"

definition rotr32 :: "nat \<Rightarrow> 32 word \<Rightarrow> 32 word" where
  "rotr32 n x = drop_bit n x OR push_bit (32 - n) x"

definition big_sigma0 :: "32 word \<Rightarrow> 32 word" where
  "big_sigma0 x = rotr32 2 x XOR rotr32 13 x XOR rotr32 22 x"
definition big_sigma1 :: "32 word \<Rightarrow> 32 word" where
  "big_sigma1 x = rotr32 6 x XOR rotr32 11 x XOR rotr32 25 x"
definition small_sigma0 :: "32 word \<Rightarrow> 32 word" where
  "small_sigma0 x = rotr32 7 x XOR rotr32 18 x XOR drop_bit 3 x"
definition small_sigma1 :: "32 word \<Rightarrow> 32 word" where
  "small_sigma1 x = rotr32 17 x XOR rotr32 19 x XOR drop_bit 10 x"

text \<open>The message schedule, kept with the newest word first while it grows.\<close>

fun sha256_schedule :: "nat \<Rightarrow> 32 word list \<Rightarrow> 32 word list" where
  "sha256_schedule 0 ws = rev ws"
| "sha256_schedule (Suc n) ws = sha256_schedule n ((small_sigma1 (ws ! 1) + ws ! 6 + small_sigma0 (ws ! 14) + ws ! 15) # ws)"

fun sha256_round :: "32 word list \<Rightarrow> 32 word \<times> 32 word \<Rightarrow> 32 word list" where
  "sha256_round [a,b,c,d,e,f,g,h] (k, w) =
    (let t1 = h + big_sigma1 e + ((e AND f) XOR (NOT e AND g)) + k + w;
         t2 = big_sigma0 a + ((a AND b) XOR (a AND c) XOR (b AND c))
     in [t1 + t2, a, b, c, d + t1, e, f, g])"
| "sha256_round st kw = st"

definition sha256_compress :: "32 word list \<Rightarrow> 32 word list \<Rightarrow> 32 word list" where
  "sha256_compress st blk = map2 (+) st (foldl sha256_round st (zip sha256_K (sha256_schedule 48 (rev blk))))"

fun sha256_words :: "8 word list \<Rightarrow> 32 word list" where
  "sha256_words (a # b # c # d # xs) = (push_bit 24 (ucast a) OR push_bit 16 (ucast b) OR push_bit 8 (ucast c) OR ucast d) # sha256_words xs"
| "sha256_words _ = []"

definition sha256_pad :: "8 word list \<Rightarrow> 8 word list" where
  "sha256_pad bs = (let l = length bs; n = 8 * int l in bs @ [128] @ replicate ((119 - l mod 64) mod 64) 0
     @ map (\<lambda>i. word_of_int (drop_bit i n)) [56,48,40,32,24,16,8,0])"

function sha256_blocks :: "32 word list \<Rightarrow> 32 word list \<Rightarrow> 32 word list" where
  "sha256_blocks st ws = (if length ws < 16 then st else sha256_blocks (sha256_compress st (take 16 ws)) (drop 16 ws))"
  by pat_completeness auto
termination by (relation "measure (\<lambda>(st, ws). length ws)") auto

definition sha256 :: "string \<Rightarrow> 32 word list" where
  "sha256 s = sha256_blocks sha256_H0 (sha256_words (sha256_pad (map of_char s)))"


section \<open>Hexadecimal text\<close>

definition hex_of_word :: "32 word \<Rightarrow> string" where
  "hex_of_word w = map (\<lambda>i. hex_digit (unat (drop_bit i w AND 15))) [28, 24, 20, 16, 12, 8, 4, 0]"

definition hex_digest :: "string \<Rightarrow> string" where
  "hex_digest s = concat (map hex_of_word (sha256 s))"

lemma length_sha256_round: "length st = 8 \<Longrightarrow> length (sha256_round st kw) = 8"
  by (cases "(st, kw)" rule: sha256_round.cases) (auto simp: Let_def)

lemma length_sha256_rounds: "length st = 8 \<Longrightarrow> length (foldl sha256_round st kws) = 8"
  by (induction kws arbitrary: st) (simp_all add: length_sha256_round)

lemma length_sha256_compress: "length st = 8 \<Longrightarrow> length (sha256_compress st blk) = 8"
  by (simp add: sha256_compress_def length_sha256_rounds)

lemma length_sha256_blocks: "length st = 8 \<Longrightarrow> length (sha256_blocks st ws) = 8"
proof (induction st ws rule: sha256_blocks.induct)
  case (1 st ws)
  then show ?case by (subst sha256_blocks.simps) (simp add: length_sha256_compress)
qed

lemma length_sha256: "length (sha256 s) = 8"
  unfolding sha256_def by (rule length_sha256_blocks) (simp add: sha256_H0_def)

text \<open>A digest is 64 characters long.\<close>

lemma length_hex_digest: "length (hex_digest s) = 64"
proof -
  have "length (concat (map hex_of_word ws)) = 8 * length ws" for ws
    by (induction ws) (simp_all add: hex_of_word_def)
  then show ?thesis by (simp add: hex_digest_def length_sha256)
qed

lemma hex_digest_nonempty: "hex_digest s \<noteq> []"
  using length_hex_digest[of s] by auto

lemma sha256_abc:
  "sha256 ''abc'' = [3128432319, 2399260650, 1094795486, 1571693091, 2953011619, 2518121116,
     3021012833, 4060091821]"
  by code_simp

lemma hex_digest_abc:
  "hex_digest ''abc'' = ''ba7816bf8f01cfea414140de5dae2223b00361a396177a9cb410ff61f20015ad''"
  unfolding hex_digest_def sha256_abc by code_simp

end
