(* ===== verification/Rendering.thy ===== *)
theory Rendering
  imports Any_Values Sha256
begin

text \<open>
  \<open>SortedMarshal\<close> of \<open>internal/merge/merge.go\<close> and \<open>internal/render/render.go\<close>. The YAML encoder
  (\<open>gopkg.in/yaml.v3\<close>) is third-party code and a parameter: a record of its two calls. What
  \<open>render.go\<close> relies on is the documented behaviour \<open>sorts_keys\<close>: the text it writes for a value
  does not depend on the iteration order of the value's maps. The fingerprint \<open>Hash\<close> is SHA-256
  in hexadecimal.
\<close>

section \<open>Marshalling\<close>

text \<open>\<open>enc.Encode(v)\<close> after \<open>enc.SetIndent(n)\<close> on an empty buffer, and \<open>enc.Close()\<close>.\<close>

record yaml_encoder =
  enc_Encode :: "nat \<Rightarrow> any \<Rightarrow> go_error + string"
  enc_Close :: "string \<Rightarrow> go_error + string"

definition SortedMarshal :: "yaml_encoder \<Rightarrow> any \<Rightarrow> go_error + string" where
  "SortedMarshal enc v =
     (case enc_Encode enc 2 v of
        Inl err \<Rightarrow> Inl err
      | Inr buf \<Rightarrow>
          (case enc_Close enc buf of
             Inl err \<Rightarrow> Inl err
           | Inr out \<Rightarrow> Inr out))"

definition sorts_keys :: "yaml_encoder \<Rightarrow> bool" where
  "sorts_keys enc \<longleftrightarrow>
     (\<forall>n v w. any_ok v \<longrightarrow> any_ok w \<longrightarrow> any_eqv v w \<longrightarrow> enc_Encode enc n v = enc_Encode enc n w)"

lemma SortedMarshal_eqv:
  "sorts_keys enc \<Longrightarrow> any_ok v \<Longrightarrow> any_ok w \<Longrightarrow> any_eqv v w \<Longrightarrow>
     SortedMarshal enc v = SortedMarshal enc w"
proof -
  assume "sorts_keys enc" "any_ok v" "any_ok w" "any_eqv v w"
  then have "enc_Encode enc 2 v = enc_Encode enc 2 w" unfolding sorts_keys_def by blast
  then show ?thesis by (simp add: SortedMarshal_def)
qed

section \<open>Rendering\<close>

definition DataKey :: string where
  "DataKey = ''runtime-tenants.yaml''"

text \<open>\<open>render.Output\<close>: tenant to merged overrides.\<close>

type_synonym Output = "anymap gomap"

definition render_keys :: "Output \<Rightarrow> string list" where
  "render_keys tenants = sort (map fst tenants)"

definition render_inner :: "Output \<Rightarrow> anymap" where
  "render_inner tenants =
     foldl (\<lambda>inner k. gomap_put k (Obj (the (map_of tenants k))) inner) [] (render_keys tenants)"

definition render_doc :: "Output \<Rightarrow> any" where
  "render_doc tenants = Obj [(''overrides'', Obj (render_inner tenants))]"

definition Render :: "yaml_encoder \<Rightarrow> Output \<Rightarrow> go_error + string" where
  "Render enc tenants = SortedMarshal enc (render_doc tenants)"

definition Hash :: "string \<Rightarrow> string" where
  "Hash body = hex_digest body"

lemma length_Hash: "length (Hash body) = 64"
  by (simp add: Hash_def length_hex_digest)

lemma Hash_nonempty: "Hash body \<noteq> []"
  by (simp add: Hash_def hex_digest_nonempty)

section \<open>What the rendered document holds\<close>

lemma put_keys:
  "distinct ks \<Longrightarrow> map_of acc = (\<lambda>_. None) \<or> set ks \<inter> fst ` set acc = {} \<Longrightarrow>
     foldl (\<lambda>inner k. gomap_put k (f k) inner) acc ks = acc @ map (\<lambda>k. (k, f k)) ks"
proof (induction ks arbitrary: acc)
  case (Cons k ks)
  have dis: "set (k # ks) \<inter> fst ` set acc = {}"
    using Cons.prems(2) by (cases acc) (auto simp: fun_eq_iff split: if_splits)
  then have "map_of acc k = None" by (auto simp: map_of_eq_None_iff)
  then have "gomap_put k (f k) acc = acc @ [(k, f k)]" by (rule gomap_put_fresh)
  then show ?case
    using Cons.IH[of "acc @ [(k, f k)]"] Cons.prems(1) dis by auto
qed simp

lemma render_inner_eq:
  "gomap_ok tenants \<Longrightarrow>
     render_inner tenants = map (\<lambda>k. (k, Obj (the (map_of tenants k)))) (render_keys tenants)"
  unfolding render_inner_def by (subst put_keys) (auto simp: render_keys_def gomap_ok_def)

text \<open>The document lists the tenants in lexical order, each with its own overrides.\<close>

lemma render_inner_sorted: "gomap_ok tenants \<Longrightarrow> sorted (map fst (render_inner tenants))"
  by (simp add: render_inner_eq render_keys_def comp_def)

lemma gomap_ok_render_inner: "gomap_ok tenants \<Longrightarrow> gomap_ok (render_inner tenants)"
  by (simp add: render_inner_eq render_keys_def comp_def gomap_ok_def)

lemma map_of_render_inner:
  "gomap_ok tenants \<Longrightarrow> map_of (render_inner tenants) t = map_option Obj (map_of tenants t)"
proof -
  assume ok: "gomap_ok tenants"
  have "map_of (map (\<lambda>k. (k, f k)) ks) t = (if t \<in> set ks then Some (f t) else None)"
    for f :: "string \<Rightarrow> any" and ks by (induction ks) auto
  then show ?thesis
    using ok by (cases "map_of tenants t")
      (force simp: render_inner_eq render_keys_def map_of_eq_None_iff dest: map_of_SomeD)+
qed

lemma leaf_at_render_doc:
  "gomap_ok tenants \<Longrightarrow> leaf_at (''overrides'' # t # p) (render_doc tenants) =
     (case map_of tenants t of None \<Rightarrow> None | Some m \<Rightarrow> leaf_at p (Obj m))"
  by (simp add: render_doc_def map_of_render_inner split: option.split)

lemma render_doc_ok:
  "gomap_ok tenants \<Longrightarrow> (\<And>t m. map_of tenants t = Some m \<Longrightarrow> map_ok m) \<Longrightarrow> any_ok (render_doc tenants)"
  by (auto simp: render_doc_def map_ok_iff[of "render_inner tenants"] gomap_ok_render_inner
      map_of_render_inner)

section \<open>Rendering does not depend on iteration order\<close>

definition output_eqv :: "Output \<Rightarrow> Output \<Rightarrow> bool" where
  "output_eqv a b \<longleftrightarrow> (\<forall>t. rel_option map_eqv (map_of a t) (map_of b t))"

definition output_ok :: "Output \<Rightarrow> bool" where
  "output_ok a \<longleftrightarrow> gomap_ok a \<and> (\<forall>t m. map_of a t = Some m \<longrightarrow> map_ok m)"

lemma render_doc_eqv:
  assumes "output_ok a" and "output_ok b" and "output_eqv a b"
  shows "any_eqv (render_doc a) (render_doc b)"
proof -
  have "rel_option any_eqv (map_of (render_inner a) t) (map_of (render_inner b) t)" for t
    using assms unfolding output_ok_def output_eqv_def map_eqv_def
    by (cases "map_of a t"; cases "map_of b t") (auto simp: map_of_render_inner dest: spec[of _ t])
  then show ?thesis by (auto simp: render_doc_def)
qed

lemma Render_eqv:
  assumes "sorts_keys enc" and "output_ok a" and "output_ok b" and "output_eqv a b"
  shows "Render enc a = Render enc b"
  unfolding Render_def
  by (rule SortedMarshal_eqv[OF assms(1)])
    (use assms in \<open>auto simp: output_ok_def intro: render_doc_ok render_doc_eqv\<close>)

text \<open>
  The order of the tenants alone does not matter even to an encoder that keeps it: \<open>Render\<close>
  rebuilds the map in the order of the sorted keys.
\<close>

lemma Render_perm:
  assumes "mset a = mset b" and "gomap_ok a"
  shows "Render enc a = Render enc b"
proof -
  have ok: "gomap_ok b" using assms gomap_ok_perm by blast
  have "mset (map fst a) = mset (map fst b)" using assms(1) by simp
  then have "render_keys a = render_keys b"
    unfolding render_keys_def by (rule properties_for_sort[OF _ sorted_sort, symmetric, simplified])
  then have "render_inner a = render_inner b"
    by (simp add: render_inner_eq assms(2) ok map_of_perm[OF assms])
  then show ?thesis by (simp add: Render_def render_doc_def)
qed

text \<open>An empty output renders the empty document.\<close>

lemma render_doc_Nil: "render_doc [] = Obj [(''overrides'', Obj [])]"
  by (simp add: render_doc_def render_inner_def render_keys_def)

end
