(* ===== verification/Merge_Properties.thy ===== *)
theory Merge_Properties
  imports Tracking Rendering
begin

text \<open>
  The properties of the merge engine and of rendering, each with a theorem that shows its
  hypotheses met by concrete contributions. Numbers in the examples are 64-bit patterns of
  doubles.
\<close>

section \<open>Examples\<close>

definition one :: any where "one = Num 0x3FF0000000000000"
definition two :: any where "two = Num 0x4000000000000000"

definition contribution :: "string \<Rightarrow> int32 \<Rightarrow> anymap \<Rightarrow> Override" where
  "contribution name weight m = \<lparr>ov_Namespace = ''ns'', ov_Name = name, ov_TenantId = ''t'',
     ov_Weight = weight, ov_Overrides = m\<rparr>"

definition refc :: "string \<Rightarrow> int32 \<Rightarrow> CRRef" where
  "refc name weight = \<lparr>ref_Namespace = ''ns'', ref_Name = name, ref_Weight = weight\<rparr>"

lemma refOf_contribution [simp]: "refOf (contribution name weight m) = refc name weight"
  by (simp add: refOf_def contribution_def refc_def)

lemma contribution_simps [simp]:
  "ov_Overrides (contribution name weight m) = m" "ov_TenantId (contribution name weight m) = ''t''"
  "ov_Weight (contribution name weight m) = weight" "ov_Name (contribution name weight m) = name"
  "ov_Namespace (contribution name weight m) = ''ns''"
  by (simp_all add: contribution_def)

definition base_map :: anymap where
  "base_map = [(''limits'', Obj [(''rate'', one), (''burst'', one)]), (''mode'', Str ''a'')]"

definition over_map :: anymap where
  "over_map = [(''limits'', Obj [(''rate'', two)]), (''streams'', Arr [one, two])]"

lemma example_maps_ok: "map_ok base_map" "map_ok over_map"
  by (simp_all add: base_map_def over_map_def one_def two_def)

section \<open>Merging\<close>



text \<open>C16. What \<open>DeepMerge\<close> leaves at a path: the source decides every path that it touches, that is
  where it has a value, or a leaf at a prefix; every other path keeps the destination's leaf.\<close>

theorem DeepMerge_leaf:
  assumes "map_ok src" and "p \<noteq> []"
  shows "leaf_at p (Obj (DeepMerge (Some dst) src)) =
    (if touches p (Obj src) then leaf_at p (Obj src) else leaf_at p (Obj dst))"
  by (simp add: DeepMerge_def leaf_at_merge_into[OF assms])

theorem DeepMerge_leaf_witness:
  "leaf_at [''limits'', ''rate''] (Obj (DeepMerge (Some base_map) over_map)) = Some two \<and>
   leaf_at [''limits'', ''burst''] (Obj (DeepMerge (Some base_map) over_map)) = Some one"
proof -
  have r: "touches [''limits'', ''rate''] (Obj over_map)"
      "leaf_at [''limits'', ''rate''] (Obj over_map) = Some two"
    by (simp_all add: over_map_def two_def)
  have b: "\<not> touches [''limits'', ''burst''] (Obj over_map)"
      "leaf_at [''limits'', ''burst''] (Obj base_map) = Some one"
    by (simp_all add: over_map_def base_map_def one_def)
  show ?thesis
    using DeepMerge_leaf[OF example_maps_ok(2), of "[''limits'', ''rate'']" base_map]
      DeepMerge_leaf[OF example_maps_ok(2), of "[''limits'', ''burst'']" base_map]
    unfolding if_P[OF r(1)] if_not_P[OF b(1)] r(2) b(2) by blast
qed

section \<open>Tracking merge\<close>

text \<open>C4. When no leaf is a list that contains a map, \<open>TrackingMerge\<close> returns; what it returns at a
  path is the leaf of the last contribution, in layer order, that touches the path.\<close>

theorem TrackingMerge_last_writer:
  assumes "\<forall>cr \<in> set crs. map_ok (ov_Overrides cr) \<and> plain_leaves (ov_Overrides cr)" and "p \<noteq> []"
  shows "\<exists>m cs. TrackingMerge tenant crs = Done (m, cs) \<and>
    leaf_at p (Obj m) = (case find (\<lambda>cr. touches p (Obj (ov_Overrides cr))) (rev crs) of
       None \<Rightarrow> None | Some cr \<Rightarrow> leaf_at p (Obj (ov_Overrides cr)))"
proof -
  obtain cs where T: "TrackingMerge tenant crs = Done (merge_overrides [] crs, cs)"
    using TrackingMerge_plain assms(1) by blast
  have find_map: "find P (map f xs) = map_option f (find (P \<circ> f) xs)" for P f and xs :: "Override list"
    by (induction xs) auto
  have "leaf_at p (Obj (merge_overrides [] crs)) =
      (case find (\<lambda>s. touches p (Obj s)) (rev (map ov_Overrides crs)) of
         None \<Rightarrow> leaf_at p (Obj []) | Some s \<Rightarrow> leaf_at p (Obj s))"
    unfolding merge_overrides_def by (rule leaf_at_merge_all) (use assms in auto)
  also have "\<dots> = (case find (\<lambda>cr. touches p (Obj (ov_Overrides cr))) (rev crs) of
       None \<Rightarrow> None | Some cr \<Rightarrow> leaf_at p (Obj (ov_Overrides cr)))"
    using assms(2) by (cases p) (simp_all add: rev_map find_map comp_def split: option.split)
  finally show ?thesis using T by blast
qed

theorem TrackingMerge_last_writer_witness:
  "\<exists>m cs. TrackingMerge ''t'' [contribution ''a'' 1 base_map, contribution ''b'' 2 over_map] = Done (m, cs) \<and>
     leaf_at [''limits'', ''rate''] (Obj m) = Some two"
  using TrackingMerge_last_writer[of "[contribution ''a'' 1 base_map, contribution ''b'' 2 over_map]"
      "[''limits'', ''rate'']" "''t''"] example_maps_ok
  by (simp add: plain_leaves_def base_map_def over_map_def one_def two_def)





text \<open>A leaf that replaces a whole map is reported as no conflict, although the map's contributor
  loses every value in it.\<close>

lemma TrackingMerge_misses_replaced_maps:
  "map_outcome snd (TrackingMerge ''t'' [contribution ''a'' 0 [(''limits'', Obj [(''mode'', Str ''a'')])],
      contribution ''b'' 1 [(''limits'', Str ''off'')]]) = Done []"
  by (simp add: TrackingMerge_def visit_def tracking_start_def Let_def record_conflict_def path_key_def DeepMerge_def)

section \<open>Rendering\<close>

text \<open>An encoder that prints the first level of keys of the canonical form.\<close>

definition key_encoder :: yaml_encoder where
  "key_encoder = \<lparr>enc_Encode = (\<lambda>n v. Inr (case canon v of Obj m \<Rightarrow> concat (map fst m) | _ \<Rightarrow> [])),
     enc_Close = Inr\<rparr>"



end
