(* ===== verification/Scheme.thy ===== *)
theory Scheme
  imports Prelude
begin

text \<open>
  The registration of the API types: \<open>api/v1alpha1/groupversion_info.go\<close>, the \<open>init\<close> functions of the
  two type files, and the \<open>init\<close> function of \<open>cmd/main.go\<close>. The builder and the scheme are those of
  controller-runtime and apimachinery: the record \<open>scheme_lib\<close>. Go runs the initialization of an
  imported package first, its variables and then its \<open>init\<close> functions in the order of the files.
\<close>

section \<open>The library\<close>

record group_version =
  gv_Group :: string
  gv_Version :: string

text \<open>
  \<open>sl_Builder\<close> is the literal \<open>&scheme.Builder{GroupVersion: gv}\<close>, \<open>sl_Register\<close> and \<open>sl_AddToScheme\<close> are
  its methods, \<open>sl_NewScheme\<close> is \<open>runtime.NewScheme\<close>, \<open>sl_AddClientGo\<close> the \<open>AddToScheme\<close> of client-go, and
  \<open>sl_Recognizes\<close> is \<open>Scheme.Recognizes\<close>. A Go type is given by its name, which is its kind.
\<close>

record ('b, 's) scheme_lib =
  sl_Builder :: "group_version \<Rightarrow> 'b"
  sl_Register :: "'b \<Rightarrow> string list \<Rightarrow> 'b"
  sl_AddToScheme :: "'b \<Rightarrow> 's \<Rightarrow> go_error + 's"
  sl_NewScheme :: 's
  sl_AddClientGo :: "'s \<Rightarrow> go_error + 's"
  sl_Recognizes :: "'s \<Rightarrow> group_version \<Rightarrow> string \<Rightarrow> bool"

section \<open>Package v1alpha1\<close>

definition GroupVersion :: group_version where
  "GroupVersion = \<lparr>gv_Group = ''runtimeoverrides.io'', gv_Version = ''v1alpha1''\<rparr>"

definition SchemeBuilder :: "('b, 's) scheme_lib \<Rightarrow> 'b" where
  "SchemeBuilder sl = sl_Builder sl GroupVersion"

definition init_loki_types :: "('b, 's) scheme_lib \<Rightarrow> 'b \<Rightarrow> 'b" where
  "init_loki_types sl b = sl_Register sl b [''LokiTenantOverride'', ''LokiTenantOverrideList'']"

definition init_mimir_types :: "('b, 's) scheme_lib \<Rightarrow> 'b \<Rightarrow> 'b" where
  "init_mimir_types sl b = sl_Register sl b [''MimirTenantOverride'', ''MimirTenantOverrideList'']"

text \<open>The variable \<open>SchemeBuilder\<close> once the package is initialized; \<open>AddToScheme\<close> is its method value.\<close>

definition AddToScheme :: "('b, 's) scheme_lib \<Rightarrow> 's \<Rightarrow> go_error + 's" where
  "AddToScheme sl = sl_AddToScheme sl (init_mimir_types sl (init_loki_types sl (SchemeBuilder sl)))"

section \<open>Package main\<close>

text \<open>\<open>utilruntime.Must\<close> panics on an error.\<close>

definition Must :: "go_error + 's \<Rightarrow> 's outcome" where
  "Must r = (case r of Inl err \<Rightarrow> Panic (Error err) | Inr s \<Rightarrow> Done s)"

definition init_scheme :: "('b, 's) scheme_lib \<Rightarrow> 's outcome" where
  "init_scheme sl =
     (case Must (sl_AddClientGo sl (sl_NewScheme sl)) of
        Panic msg \<Rightarrow> Panic msg
      | Done s \<Rightarrow> Must (AddToScheme sl s))"

section \<open>The kinds the operator uses\<close>

text \<open>
  What the documentation of the library promises: adding to a scheme loses nothing, a builder adds
  every type registered with it under its group and version, and client-go adds its own types.
\<close>

definition corev1 :: group_version where
  "corev1 = \<lparr>gv_Group = [], gv_Version = ''v1''\<rparr>"

definition adds_types :: "('b, 's) scheme_lib \<Rightarrow> bool" where
  "adds_types sl \<longleftrightarrow>
     (\<forall>b s s' gv k. sl_AddToScheme sl b s = Inr s' \<longrightarrow> sl_Recognizes sl s gv k \<longrightarrow> sl_Recognizes sl s' gv k) \<and>
     (\<forall>gv rs s s' r k. sl_AddToScheme sl (foldl (sl_Register sl) (sl_Builder sl gv) rs) s = Inr s' \<longrightarrow>
        r \<in> set rs \<longrightarrow> k \<in> set r \<longrightarrow> sl_Recognizes sl s' gv k) \<and>
     (\<forall>s s'. sl_AddClientGo sl s = Inr s' \<longrightarrow> sl_Recognizes sl s' corev1 ''ConfigMap'')"

definition own_kinds :: "string list list" where
  "own_kinds = [[''LokiTenantOverride'', ''LokiTenantOverrideList''],
     [''MimirTenantOverride'', ''MimirTenantOverrideList'']]"

definition operator_kinds :: "(group_version \<times> string) list" where
  "operator_kinds = (corev1, ''ConfigMap'') # map (Pair GroupVersion) (concat own_kinds)"

lemma adds_typesD:
  assumes "adds_types sl"
  shows "sl_AddToScheme sl b s = Inr s' \<Longrightarrow> sl_Recognizes sl s gv k \<Longrightarrow> sl_Recognizes sl s' gv k"
    and "sl_AddToScheme sl (foldl (sl_Register sl) (sl_Builder sl gv) rs) s = Inr s' \<Longrightarrow>
      r \<in> set rs \<Longrightarrow> k \<in> set r \<Longrightarrow> sl_Recognizes sl s' gv k"
    and "sl_AddClientGo sl s = Inr s' \<Longrightarrow> sl_Recognizes sl s' corev1 ''ConfigMap''"
  using assms unfolding adds_types_def by blast+

text \<open>Every kind that the operator reads or writes is in the scheme when \<open>main\<close> begins.\<close>

lemma init_scheme_knows:
  assumes "adds_types sl" and "init_scheme sl = Done s" and "(gv, k) \<in> set operator_kinds"
  shows "sl_Recognizes sl s gv k"
proof -
  obtain s0 where s0: "sl_AddClientGo sl (sl_NewScheme sl) = Inr s0" and s: "AddToScheme sl s0 = Inr s"
    using assms(2) by (auto simp: init_scheme_def Must_def split: sum.splits)
  let ?regs = "[[''LokiTenantOverride'', ''LokiTenantOverrideList''], [''MimirTenantOverride'', ''MimirTenantOverrideList'']]"
  have "foldl (sl_Register sl) (sl_Builder sl GroupVersion) own_kinds =
      init_mimir_types sl (init_loki_types sl (SchemeBuilder sl))"
    by (simp only: own_kinds_def init_loki_types_def init_mimir_types_def SchemeBuilder_def foldl.simps)
  with s have add: "sl_AddToScheme sl (foldl (sl_Register sl) (sl_Builder sl GroupVersion) own_kinds) s0 = Inr s"
    by (simp only: AddToScheme_def)
  from assms(3) consider "gv = corev1" "k = ''ConfigMap''" | "gv = GroupVersion" "k \<in> set (concat own_kinds)"
    unfolding operator_kinds_def by auto
  then show ?thesis
  proof cases
    case 1
    then show ?thesis using adds_typesD(1)[OF assms(1) add] adds_typesD(3)[OF assms(1) s0] by blast
  next
    case 2
    then show ?thesis using adds_typesD(2)[OF assms(1) add] by auto
  qed
qed

text \<open>A scheme that is a list of what was added fulfils the promises.\<close>

definition list_scheme :: "(group_version \<times> string list, (group_version \<times> string) list) scheme_lib" where
  "list_scheme =
     \<lparr>sl_Builder = (\<lambda>gv. (gv, [])), sl_Register = (\<lambda>(gv, ks) r. (gv, ks @ r)),
      sl_AddToScheme = (\<lambda>(gv, ks) s. Inr (s @ map (Pair gv) ks)), sl_NewScheme = [],
      sl_AddClientGo = (\<lambda>s. Inr (s @ [(corev1, ''ConfigMap'')])), sl_Recognizes = (\<lambda>s gv k. (gv, k) \<in> set s)\<rparr>"

lemma list_scheme_adds: "adds_types list_scheme"
proof -
  have "foldl (\<lambda>(gv, ks) r. (gv, ks @ r)) (gv, ks) rs = (gv, ks @ concat rs)"
    for gv :: group_version and ks :: "string list" and rs
    by (induction rs arbitrary: ks) simp_all
  then show ?thesis by (auto simp: adds_types_def list_scheme_def)
qed

lemma list_scheme_init: "init_scheme list_scheme = Done operator_kinds"
  by (simp add: init_scheme_def Must_def AddToScheme_def init_loki_types_def init_mimir_types_def
      SchemeBuilder_def list_scheme_def operator_kinds_def own_kinds_def)

end
