(* ===== verification/Config.thy ===== *)
theory Config
  imports Prelude
begin

text \<open>
  \<open>internal/config/config.go\<close>: the per-target configuration and its validation. What the
  validation establishes is \<open>target_ok\<close> for each enabled target and at least one of them enabled;
  what it does not establish is that two enabled targets own different config maps.
\<close>

record TargetConfig =
  tc_Enabled :: bool
  tc_OutputCM :: NamespacedName

record Targets =
  tg_Loki :: TargetConfig
  tg_Mimir :: TargetConfig

definition validate_target :: "TargetConfig \<Rightarrow> string \<Rightarrow> go_error option" where
  "validate_target tc name =
     (if nn_Name (tc_OutputCM tc) = [] then
        Some (ErrMsg (name @ '': output ConfigMap name is required when enabled''))
      else if nn_Namespace (tc_OutputCM tc) = [] then
        Some (ErrMsg (name @ '': output ConfigMap namespace is required when enabled''))
      else None)"

definition Targets_Validate :: "Targets \<Rightarrow> go_error option" where
  "Targets_Validate t =
     (case (if tc_Enabled (tg_Loki t) then validate_target (tg_Loki t) ''loki'' else None) of
        Some err \<Rightarrow> Some err
      | None \<Rightarrow>
          (case (if tc_Enabled (tg_Mimir t) then validate_target (tg_Mimir t) ''mimir'' else None) of
             Some err \<Rightarrow> Some err
           | None \<Rightarrow>
               if \<not> tc_Enabled (tg_Loki t) \<and> \<not> tc_Enabled (tg_Mimir t)
               then Some (ErrMsg ''at least one of --loki-enabled or --mimir-enabled must be true'')
               else None))"

definition target_ok :: "TargetConfig \<Rightarrow> bool" where
  "target_ok tc \<longleftrightarrow> (tc_Enabled tc \<longrightarrow>
     nn_Name (tc_OutputCM tc) \<noteq> [] \<and> nn_Namespace (tc_OutputCM tc) \<noteq> [])"

lemma validate_target_ok:
  "validate_target tc name = None \<longleftrightarrow>
     nn_Name (tc_OutputCM tc) \<noteq> [] \<and> nn_Namespace (tc_OutputCM tc) \<noteq> []"
  by (simp add: validate_target_def)

text \<open>The whole of what \<open>Validate\<close> accepts.\<close>

lemma Targets_Validate_accepts:
  "Targets_Validate t = None \<longleftrightarrow>
     target_ok (tg_Loki t) \<and> target_ok (tg_Mimir t) \<and>
     (tc_Enabled (tg_Loki t) \<or> tc_Enabled (tg_Mimir t))"
  by (auto simp: Targets_Validate_def target_ok_def validate_target_def)

text \<open>A rejection names the first offending target: Loki before Mimir, name before namespace.\<close>

lemma Targets_Validate_loki_first:
  "tc_Enabled (tg_Loki t) \<Longrightarrow> \<not> target_ok (tg_Loki t) \<Longrightarrow>
     Targets_Validate t = validate_target (tg_Loki t) ''loki''"
  by (auto simp: Targets_Validate_def target_ok_def validate_target_def)

lemma Targets_Validate_mimir:
  "target_ok (tg_Loki t) \<Longrightarrow> \<not> target_ok (tg_Mimir t) \<Longrightarrow>
     Targets_Validate t = validate_target (tg_Mimir t) ''mimir''"
  by (auto simp: Targets_Validate_def target_ok_def validate_target_def)

text \<open>Two enabled targets may share their config map.\<close>

definition shared_output :: "Targets \<Rightarrow> bool" where
  "shared_output t \<longleftrightarrow> tc_Enabled (tg_Loki t) \<and> tc_Enabled (tg_Mimir t) \<and>
     tc_OutputCM (tg_Loki t) = tc_OutputCM (tg_Mimir t)"

lemma Targets_Validate_shared:
  "shared_output t \<Longrightarrow> target_ok (tg_Loki t) \<Longrightarrow> Targets_Validate t = None"
  by (auto simp: Targets_Validate_accepts shared_output_def target_ok_def)

end
