(* ===== verification/Api_Types.thy ===== *)
theory Api_Types
  imports Prelude
begin

text \<open>
  The API objects: \<open>api/v1alpha1\<close> (the two kinds of custom resource, which have the same shape
  field by field, their status and its vocabulary), and of the Kubernetes types only the fields
  that the operator reads or writes. A \<open>metav1.Time\<close> is a number of nanoseconds, the zero time
  being 0.
\<close>

section \<open>Time\<close>

type_synonym gotime = int

definition zero_time :: gotime where
  "zero_time = 0"

definition time_IsZero :: "gotime \<Rightarrow> bool" where
  "time_IsZero t \<longleftrightarrow> t = zero_time"

text \<open>
  \<open>UnixNano\<close> counts nanoseconds from 1970 in 64 bits; the zero time is 1 January of year 1,
  62135596800 seconds earlier. Outside the years 1678 to 2262 the count wraps around.
\<close>

definition unix_epoch :: gotime where
  "unix_epoch = 62135596800 * 1000000000"

definition UnixNano :: "gotime \<Rightarrow> int64" where
  "UnixNano t = word_of_int (t - unix_epoch)"

lemma UnixNano_less:
  assumes "\<bar>a - unix_epoch\<bar> < 2 ^ 63" and "\<bar>b - unix_epoch\<bar> < 2 ^ 63"
  shows "sint (UnixNano a) < sint (UnixNano b) \<longleftrightarrow> a < b"
proof -
  have "sint (UnixNano t) = t - unix_epoch" if "\<bar>t - unix_epoch\<bar> < 2 ^ 63" for t
    using that by (simp add: UnixNano_def sint_sbintrunc' signed_take_bit_int_eq_self
        del: of_int_diff)
  with assms show ?thesis by simp
qed

section \<open>Conditions and status\<close>

record Condition =
  cond_Type :: string
  cond_Status :: string
  cond_ObservedGeneration :: int64
  cond_LastTransitionTime :: gotime
  cond_Reason :: string
  cond_Message :: string

definition ConditionTrue :: string where "ConditionTrue = ''True''"
definition ConditionFalse :: string where "ConditionFalse = ''False''"

definition ConditionValidated :: string where "ConditionValidated = ''Validated''"
definition ConditionApplied :: string where "ConditionApplied = ''Applied''"

definition ReasonValidationSucceeded :: string where
  "ReasonValidationSucceeded = ''ValidationSucceeded''"
definition ReasonValidationFailed :: string where
  "ReasonValidationFailed = ''ValidationFailed''"
definition ReasonWrittenToConfigMap :: string where
  "ReasonWrittenToConfigMap = ''WrittenToConfigMap''"
definition ReasonTargetDisabled :: string where
  "ReasonTargetDisabled = ''TargetDisabled''"

lemmas vocabulary = ConditionTrue_def ConditionFalse_def ConditionValidated_def
  ConditionApplied_def ReasonValidationSucceeded_def ReasonValidationFailed_def
  ReasonWrittenToConfigMap_def ReasonTargetDisabled_def

record ContributingPeer =
  peer_Namespace :: string
  peer_Name :: string
  peer_Weight :: int32

section \<open>Custom resources\<close>

text \<open>
  \<open>Spec.Overrides\<close> is a pointer to a \<open>runtime.RawExtension\<close>, of which the code reads the raw
  JSON bytes: \<open>None\<close> is the nil pointer.
\<close>

record TenantOverrideSpec =
  spec_TenantId :: string
  spec_Weight :: int32
  spec_Overrides :: "string option"

record TenantOverrideStatus =
  st_ObservedGeneration :: int64
  st_EffectiveTenantId :: string
  st_Conditions :: "Condition list"
  st_ContributingPeers :: "ContributingPeer list"

record TenantOverride =
  cr_Namespace :: string
  cr_Name :: string
  cr_Generation :: int64
  cr_ResourceVersion :: string
  cr_Spec :: TenantOverrideSpec
  cr_Status :: TenantOverrideStatus

type_synonym LokiTenantOverrideSpec = TenantOverrideSpec
type_synonym LokiTenantOverrideStatus = TenantOverrideStatus
type_synonym LokiTenantOverride = TenantOverride
type_synonym MimirTenantOverrideSpec = TenantOverrideSpec
type_synonym MimirTenantOverrideStatus = TenantOverrideStatus
type_synonym MimirTenantOverride = TenantOverride

definition cr_id :: "TenantOverride \<Rightarrow> NamespacedName" where
  "cr_id cr = NamespacedName (cr_Namespace cr) (cr_Name cr)"

section \<open>Config maps\<close>

record ManagedFieldsEntry =
  mf_Manager :: string
  mf_Time :: "gotime option"

record ConfigMap =
  cm_Namespace :: string
  cm_Name :: string
  cm_Labels :: "string gomap"
  cm_Data :: "string gomap"
  cm_Generation :: int64
  cm_ManagedFields :: "ManagedFieldsEntry list"

definition cm_id :: "ConfigMap \<Rightarrow> NamespacedName" where
  "cm_id cm = NamespacedName (cm_Namespace cm) (cm_Name cm)"

text \<open>\<open>live.Data[key]\<close>: a missing key reads as the empty string.\<close>

definition cm_body :: "string \<Rightarrow> ConfigMap \<Rightarrow> string" where
  "cm_body key cm = (case map_of (cm_Data cm) key of None \<Rightarrow> [] | Some b \<Rightarrow> b)"

end
