(* ===== verification/Hash_Cache.thy ===== *)
theory Hash_Cache
  imports Prelude
begin

text \<open>
  \<open>internal/controller/hashcache.go\<close>: the last applied hash per target. Each method takes the
  lock for its whole body, so a concurrent history is a sequence of these operations; the
  locale states the contract of the cache and what any such sequence leaves in it, and the
  model is an instance.
\<close>

section \<open>The contract\<close>

locale keyed_cache =
  fixes fresh :: 'c
    and put :: "'c \<Rightarrow> string \<Rightarrow> string \<Rightarrow> 'c"
    and lookup :: "'c \<Rightarrow> string \<Rightarrow> string option"
  assumes lookup_fresh: "lookup fresh t = None"
    and lookup_put: "lookup (put c t h) u = (if u = t then Some h else lookup c u)"
begin

lemma lookup_put_same [simp]: "lookup (put c t h) t = Some h"
  by (simp add: lookup_put)

lemma lookup_put_other [simp]: "u \<noteq> t \<Longrightarrow> lookup (put c t h) u = lookup c u"
  by (simp add: lookup_put)

text \<open>The writers of one target do not disturb the others, in whatever order they run.\<close>

lemma put_commute: "t \<noteq> u \<Longrightarrow> lookup (put (put c t h) u g) = lookup (put (put c u g) t h)"
  by (auto simp: lookup_put fun_eq_iff)

lemma lookup_puts:
  "lookup (foldl (\<lambda>c (t, h). put c t h) c ws) u =
     (case find (\<lambda>w. fst w = u) (rev ws) of None \<Rightarrow> lookup c u | Some w \<Rightarrow> Some (snd w))"
  by (induction ws rule: rev_induct) (auto simp: lookup_put)

lemma lookup_puts_fresh:
  "lookup (foldl (\<lambda>c (t, h). put c t h) fresh ws) u =
     map_option snd (find (\<lambda>w. fst w = u) (rev ws))"
  by (simp add: lookup_puts lookup_fresh option.case_eq_if map_option_case split: option.split)

end

section \<open>The cache\<close>

record HashCache =
  hc_hashes :: "string \<Rightarrow> string option"

definition NewHashCache :: HashCache where
  "NewHashCache = \<lparr>hc_hashes = (\<lambda>_. None)\<rparr>"

definition HashCache_Set :: "HashCache \<Rightarrow> string \<Rightarrow> string \<Rightarrow> HashCache" where
  "HashCache_Set h target hash = h\<lparr>hc_hashes := (hc_hashes h)(target \<mapsto> hash)\<rparr>"

definition HashCache_Get :: "HashCache \<Rightarrow> string \<Rightarrow> string option" where
  "HashCache_Get h target = hc_hashes h target"

interpretation hashes: keyed_cache NewHashCache HashCache_Set HashCache_Get
  by unfold_locales (auto simp: NewHashCache_def HashCache_Set_def HashCache_Get_def)

end
