(* ===== verification/Metrics.thy ===== *)
theory Metrics
  imports Prelude
begin

text \<open>
  \<open>internal/metrics/metrics.go\<close>: the operator's counters and gauges. A vector metric has one
  value per list of label values; \<open>Inc\<close> and \<open>SetGauge\<close> are \<open>WithLabelValues(...).Inc()\<close> and
  \<open>.Set(...)\<close>.
\<close>

datatype ReconcileResult = ResultSuccess | ResultNoop | ResultWriteFailed

fun result_label :: "ReconcileResult \<Rightarrow> string" where
  "result_label ResultSuccess = ''success''"
| "result_label ResultNoop = ''noop''"
| "result_label ResultWriteFailed = ''write_failed''"

datatype counter =
  ReconcileTotal | ValidationErrorsTotal | FieldConflictsTotal | OutputDriftTotal

datatype gauge =
  ActiveTenants | ActiveCRs | OutputSizeBytes | LastReconcileTimestamp

fun counter_name :: "counter \<Rightarrow> string" where
  "counter_name ReconcileTotal = ''runtime_overrides_reconcile_total''"
| "counter_name ValidationErrorsTotal = ''runtime_overrides_validation_errors_total''"
| "counter_name FieldConflictsTotal = ''runtime_overrides_field_conflicts_total''"
| "counter_name OutputDriftTotal = ''runtime_overrides_output_drift_total''"

fun counter_labels :: "counter \<Rightarrow> string list" where
  "counter_labels ReconcileTotal = [''target'', ''result'']"
| "counter_labels ValidationErrorsTotal = [''target'', ''tenant'', ''reason'']"
| "counter_labels FieldConflictsTotal = [''target'', ''tenant'', ''field'']"
| "counter_labels OutputDriftTotal = [''target'', ''conflicting_field_manager'']"

fun gauge_name :: "gauge \<Rightarrow> string" where
  "gauge_name ActiveTenants = ''runtime_overrides_active_tenants''"
| "gauge_name ActiveCRs = ''runtime_overrides_active_crs''"
| "gauge_name OutputSizeBytes = ''runtime_overrides_output_size_bytes''"
| "gauge_name LastReconcileTimestamp = ''runtime_overrides_last_reconcile_timestamp_seconds''"

record metrics =
  m_counters :: "counter \<Rightarrow> string list \<Rightarrow> nat"
  m_gauges :: "gauge \<Rightarrow> string list \<Rightarrow> int option"

definition no_metrics :: metrics where
  "no_metrics = \<lparr>m_counters = (\<lambda>_ _. 0), m_gauges = (\<lambda>_ _. None)\<rparr>"

definition Inc :: "counter \<Rightarrow> string list \<Rightarrow> metrics \<Rightarrow> metrics" where
  "Inc c labels m = m\<lparr>m_counters := (m_counters m)
     (c := (m_counters m c)(labels := Suc (m_counters m c labels)))\<rparr>"

definition SetGauge :: "gauge \<Rightarrow> string list \<Rightarrow> int \<Rightarrow> metrics \<Rightarrow> metrics" where
  "SetGauge g labels v m = m\<lparr>m_gauges := (m_gauges m)(g := (m_gauges m g)(labels \<mapsto> v))\<rparr>"

text \<open>The registration in \<open>init\<close> panics when two collectors share a name: they do not.\<close>

definition registered :: "string list" where
  "registered = [counter_name ReconcileTotal, gauge_name ActiveTenants, gauge_name ActiveCRs,
     counter_name ValidationErrorsTotal, counter_name FieldConflictsTotal,
     gauge_name OutputSizeBytes, gauge_name LastReconcileTimestamp, counter_name OutputDriftTotal]"

lemma registered_distinct: "distinct registered"
  by (simp add: registered_def)

lemma counters_Inc:
  "m_counters (Inc c labels m) d ls =
     (if d = c \<and> ls = labels then Suc (m_counters m d ls) else m_counters m d ls)"
  by (simp add: Inc_def)

lemma counters_SetGauge [simp]: "m_counters (SetGauge g labels v m) = m_counters m"
  by (simp add: SetGauge_def)

lemma gauges_Inc [simp]: "m_gauges (Inc c labels m) = m_gauges m"
  by (simp add: Inc_def)

lemma gauges_SetGauge:
  "m_gauges (SetGauge g labels v m) h ls =
     (if h = g \<and> ls = labels then Some v else m_gauges m h ls)"
  by (simp add: SetGauge_def)

text \<open>Increments commute: the order in which a loop over a Go map counts does not matter.\<close>

lemma Inc_commute: "Inc c ls (Inc d ks m) = Inc d ks (Inc c ls m)"
  by (cases m) (auto simp: Inc_def fun_eq_iff)

lemma counters_mono_Inc: "m_counters m d ls \<le> m_counters (Inc c labels m) d ls"
  by (simp add: counters_Inc)

end
