(* ===== verification/Cluster.thy ===== *)
theory Cluster
  imports Api_Types Rendering Hash_Cache Metrics
begin

text \<open>
  What the operator talks to. The API server with its informer cache is code outside the
  repository: a parameter, a record of the client calls the operator makes over a cluster state
  of any type. The documented behaviour that theorems need is stated as predicates on that
  record, never built in. The second half of the theory is the operator's own state: the
  cluster, the hash cache, the metrics, the events it has sent and the readings of its clock.
\<close>

section \<open>The client\<close>

record 'w client =
  cl_GetConfigMap :: "NamespacedName \<Rightarrow> 'w \<Rightarrow> go_error + ConfigMap"
  cl_ApplyConfigMap :: "ConfigMap \<Rightarrow> string \<Rightarrow> bool \<Rightarrow> 'w \<Rightarrow> go_error option \<times> 'w"
  cl_ListLoki :: "'w \<Rightarrow> go_error + LokiTenantOverride list"
  cl_GetLoki :: "NamespacedName \<Rightarrow> 'w \<Rightarrow> go_error + LokiTenantOverride"
  cl_UpdateLokiStatus :: "LokiTenantOverride \<Rightarrow> 'w \<Rightarrow> go_error option \<times> 'w"
  cl_ListMimir :: "'w \<Rightarrow> go_error + MimirTenantOverride list"
  cl_GetMimir :: "NamespacedName \<Rightarrow> 'w \<Rightarrow> go_error + MimirTenantOverride"
  cl_UpdateMimirStatus :: "MimirTenantOverride \<Rightarrow> 'w \<Rightarrow> go_error option \<times> 'w"

text \<open>
  A server-side apply with \<open>Force\<close> that succeeds has set the applied fields, and a read that
  follows sees them. (The manager's client reads from an informer cache, which promises this
  only once the watch has caught up; a theorem that assumes it says so.)
\<close>

definition apply_visible :: "'w client \<Rightarrow> bool" where
  "apply_visible c \<longleftrightarrow>
     (\<forall>cm owner w w'. cl_ApplyConfigMap c cm owner True w = (None, w') \<longrightarrow>
        (\<exists>live. cl_GetConfigMap c (cm_id cm) w' = Inr live \<and>
           (\<forall>k v. map_of (cm_Data cm) k = Some v \<longrightarrow> map_of (cm_Data live) k = Some v)))"

text \<open>Applying a config map leaves every other config map and the custom resources alone.\<close>

definition apply_local :: "'w client \<Rightarrow> bool" where
  "apply_local c \<longleftrightarrow>
     (\<forall>cm owner force w err w'. cl_ApplyConfigMap c cm owner force w = (err, w') \<longrightarrow>
        (\<forall>n. n \<noteq> cm_id cm \<longrightarrow> cl_GetConfigMap c n w' = cl_GetConfigMap c n w) \<and>
        cl_ListLoki c w' = cl_ListLoki c w \<and> cl_ListMimir c w' = cl_ListMimir c w)"

section \<open>The operator's state\<close>

record event =
  ev_Object :: NamespacedName
  ev_Type :: string
  ev_Reason :: string
  ev_Message :: string

definition EventTypeNormal :: string where "EventTypeNormal = ''Normal''"
definition EventTypeWarning :: string where "EventTypeWarning = ''Warning''"

record 'w op =
  op_cluster :: 'w
  op_hashes :: HashCache
  op_metrics :: metrics
  op_events :: "event list"
  op_clock :: "nat \<Rightarrow> gotime"

text \<open>The clock is a stream of readings; each call of \<open>Now\<close> takes the next one.\<close>

definition Now :: "'w op \<Rightarrow> gotime \<times> 'w op" where
  "Now s = (op_clock s 0, s\<lparr>op_clock := (\<lambda>n. op_clock s (Suc n))\<rparr>)"

definition op_Inc :: "counter \<Rightarrow> string list \<Rightarrow> 'w op \<Rightarrow> 'w op" where
  "op_Inc c labels s = s\<lparr>op_metrics := Inc c labels (op_metrics s)\<rparr>"

definition op_SetGauge :: "gauge \<Rightarrow> string list \<Rightarrow> int \<Rightarrow> 'w op \<Rightarrow> 'w op" where
  "op_SetGauge g labels v s = s\<lparr>op_metrics := SetGauge g labels v (op_metrics s)\<rparr>"

definition op_SetHash :: "string \<Rightarrow> string \<Rightarrow> 'w op \<Rightarrow> 'w op" where
  "op_SetHash target h s = s\<lparr>op_hashes := HashCache_Set (op_hashes s) target h\<rparr>"

text \<open>\<open>recorder.Event(obj, type, reason, message)\<close>.\<close>

definition op_Event :: "NamespacedName \<Rightarrow> string \<Rightarrow> string \<Rightarrow> string \<Rightarrow> 'w op \<Rightarrow> 'w op" where
  "op_Event obj ty reason msg s = s\<lparr>op_events := op_events s @
     [\<lparr>ev_Object = obj, ev_Type = ty, ev_Reason = reason, ev_Message = msg\<rparr>]\<rparr>"

definition op_SetCluster :: "'w \<Rightarrow> 'w op \<Rightarrow> 'w op" where
  "op_SetCluster w s = s\<lparr>op_cluster := w\<rparr>"

text \<open>Which part of the state each of these changes.\<close>

named_theorems op_frame \<open>what the state updates leave alone\<close>

lemma op_Inc_frame [op_frame, simp]:
  "op_cluster (op_Inc c ls s) = op_cluster s" "op_hashes (op_Inc c ls s) = op_hashes s"
  "op_events (op_Inc c ls s) = op_events s" "op_clock (op_Inc c ls s) = op_clock s"
  "op_metrics (op_Inc c ls s) = Inc c ls (op_metrics s)"
  by (simp_all add: op_Inc_def)

lemma op_SetGauge_frame [op_frame, simp]:
  "op_cluster (op_SetGauge g ls v s) = op_cluster s" "op_hashes (op_SetGauge g ls v s) = op_hashes s"
  "op_events (op_SetGauge g ls v s) = op_events s" "op_clock (op_SetGauge g ls v s) = op_clock s"
  "op_metrics (op_SetGauge g ls v s) = SetGauge g ls v (op_metrics s)"
  by (simp_all add: op_SetGauge_def)

lemma op_SetHash_frame [op_frame, simp]:
  "op_cluster (op_SetHash t h s) = op_cluster s" "op_metrics (op_SetHash t h s) = op_metrics s"
  "op_events (op_SetHash t h s) = op_events s" "op_clock (op_SetHash t h s) = op_clock s"
  "op_hashes (op_SetHash t h s) = HashCache_Set (op_hashes s) t h"
  by (simp_all add: op_SetHash_def)

lemma op_Event_frame [op_frame, simp]:
  "op_cluster (op_Event ob ty r m s) = op_cluster s" "op_hashes (op_Event ob ty r m s) = op_hashes s"
  "op_metrics (op_Event ob ty r m s) = op_metrics s" "op_clock (op_Event ob ty r m s) = op_clock s"
  "op_events (op_Event ob ty r m s) = op_events s @
     [\<lparr>ev_Object = ob, ev_Type = ty, ev_Reason = r, ev_Message = m\<rparr>]"
  by (simp_all add: op_Event_def)

lemma op_SetCluster_frame [op_frame, simp]:
  "op_cluster (op_SetCluster w s) = w" "op_hashes (op_SetCluster w s) = op_hashes s"
  "op_metrics (op_SetCluster w s) = op_metrics s" "op_events (op_SetCluster w s) = op_events s"
  "op_clock (op_SetCluster w s) = op_clock s"
  by (simp_all add: op_SetCluster_def)

lemma Now_frame [op_frame]:
  "Now s = (t, s') \<Longrightarrow> op_cluster s' = op_cluster s"
  "Now s = (t, s') \<Longrightarrow> op_hashes s' = op_hashes s"
  "Now s = (t, s') \<Longrightarrow> op_metrics s' = op_metrics s"
  "Now s = (t, s') \<Longrightarrow> op_events s' = op_events s"
  by (auto simp: Now_def)

end
