(* ===== verification/Apply_Config.thy ===== *)
theory Apply_Config
  imports Cluster
begin

text \<open>
  \<open>internal/apply/apply.go\<close>: the write of an output config map by server-side apply, skipped
  when the live body already has the desired hash. Every early return of the source is a branch.
\<close>

section \<open>The operation\<close>

definition FieldManager :: string where
  "FieldManager = ''runtime-overrides-operator''"

definition ManagedByLabel :: string where
  "ManagedByLabel = ''app.kubernetes.io/managed-by''"

definition ManagedByValue :: string where
  "ManagedByValue = ''runtime-overrides-operator''"

record apply_result =
  res_Hash :: string
  res_Generation :: int64
  res_Skipped :: bool

definition desired_ConfigMap :: "NamespacedName \<Rightarrow> string \<Rightarrow> ConfigMap" where
  "desired_ConfigMap name body =
     \<lparr>cm_Namespace = nn_Namespace name, cm_Name = nn_Name name,
      cm_Labels = [(ManagedByLabel, ManagedByValue)], cm_Data = [(DataKey, body)],
      cm_Generation = 0, cm_ManagedFields = []\<rparr>"

text \<open>From the construction of the desired object on.\<close>

definition apply_write ::
  "'w client \<Rightarrow> NamespacedName \<Rightarrow> string \<Rightarrow> 'w \<Rightarrow> (go_error + apply_result) \<times> 'w" where
  "apply_write c name body w =
     (case cl_ApplyConfigMap c (desired_ConfigMap name body) FieldManager True w of
        (Some err, w') \<Rightarrow> (Inl (ErrWrap (''ssa apply configmap '' @ nn_String name) err), w')
      | (None, w') \<Rightarrow>
          (case cl_GetConfigMap c name w' of
             Inl err \<Rightarrow>
               (Inl (ErrWrap (''re-get configmap '' @ nn_String name @ '' after apply'') err), w')
           | Inr after \<Rightarrow>
               (Inr \<lparr>res_Hash = Hash body, res_Generation = cm_Generation after,
                  res_Skipped = False\<rparr>, w')))"

definition apply_ConfigMap ::
  "'w client \<Rightarrow> NamespacedName \<Rightarrow> string \<Rightarrow> 'w \<Rightarrow> (go_error + apply_result) \<times> 'w" where
  "apply_ConfigMap c name body w =
     (case cl_GetConfigMap c name w of
        Inr live \<Rightarrow>
          if (case map_of (cm_Data live) DataKey of
                None \<Rightarrow> False | Some liveBody \<Rightarrow> Hash liveBody = Hash body)
          then (Inr \<lparr>res_Hash = Hash body, res_Generation = cm_Generation live,
                  res_Skipped = True\<rparr>, w)
          else apply_write c name body w
      | Inl err \<Rightarrow>
          if IsNotFound err then apply_write c name body w
          else (Inl (ErrWrap (''get configmap '' @ nn_String name) err), w))"

section \<open>Lemmas\<close>

text \<open>The live config map holds, under the data key, a body with the hash of \<open>body\<close>.\<close>

definition holds_body :: "'w client \<Rightarrow> NamespacedName \<Rightarrow> string \<Rightarrow> 'w \<Rightarrow> bool" where
  "holds_body c name body w \<longleftrightarrow>
     (case cl_GetConfigMap c name w of
        Inl err \<Rightarrow> False
      | Inr live \<Rightarrow>
          (case map_of (cm_Data live) DataKey of None \<Rightarrow> False | Some b \<Rightarrow> Hash b = Hash body))"

lemma cm_id_desired [simp]: "cm_id (desired_ConfigMap name body) = name"
  by (simp add: cm_id_def desired_ConfigMap_def)

lemma cm_Data_desired [simp]: "cm_Data (desired_ConfigMap name body) = [(DataKey, body)]"
  by (simp add: desired_ConfigMap_def)

lemma apply_hash: "apply_ConfigMap c name body w = (Inr res, w') \<Longrightarrow> res_Hash res = Hash body"
  by (auto simp: apply_ConfigMap_def apply_write_def split: sum.splits if_splits prod.splits option.splits)

text \<open>A skipped apply found the body in place and wrote nothing; the converse holds too.\<close>

lemma apply_skipped:
  "apply_ConfigMap c name body w = (Inr res, w') \<Longrightarrow> res_Skipped res \<longleftrightarrow> holds_body c name body w"
  by (auto simp: apply_ConfigMap_def apply_write_def holds_body_def
      split: sum.splits if_splits prod.splits option.splits)

lemma apply_noop:
  assumes "holds_body c name body w"
  shows "\<exists>res. apply_ConfigMap c name body w = (Inr res, w) \<and> res_Skipped res"
  using assms by (auto simp: apply_ConfigMap_def holds_body_def split: sum.splits option.splits)

lemma apply_establishes:
  assumes "apply_visible c" and "apply_ConfigMap c name body w = (Inr res, w')"
  shows "holds_body c name body w'"
proof (cases "holds_body c name body w")
  case True
  then show ?thesis using apply_noop[OF True] assms(2) by auto
next
  case False
  then have "apply_write c name body w = (Inr res, w')"
    using assms(2) by (auto simp: apply_ConfigMap_def holds_body_def split: sum.splits if_splits option.splits)
  then have "cl_ApplyConfigMap c (desired_ConfigMap name body) FieldManager True w = (None, w')"
    by (auto simp: apply_write_def split: prod.splits option.splits sum.splits)
  then obtain live where "cl_GetConfigMap c name w' = Inr live"
      "map_of (cm_Data live) DataKey = Some body"
    using assms(1) by (force simp: apply_visible_def)
  then show ?thesis by (simp add: holds_body_def)
qed

text \<open>With reads that see the apply, a write that the server accepts is reported as a success.\<close>

lemma apply_write_reported:
  assumes "apply_visible c"
    and "cl_ApplyConfigMap c (desired_ConfigMap name body) FieldManager True w = (None, w')"
  shows "\<exists>res. apply_write c name body w = (Inr res, w')"
proof -
  obtain live where "cl_GetConfigMap c name w' = Inr live"
    using assms by (force simp: apply_visible_def)
  then show ?thesis using assms(2) by (simp add: apply_write_def)
qed

lemma apply_other:
  assumes "apply_local c" and "apply_ConfigMap c name body w = (r, w')"
  shows "n \<noteq> name \<Longrightarrow> cl_GetConfigMap c n w' = cl_GetConfigMap c n w"
    and "cl_ListLoki c w' = cl_ListLoki c w" and "cl_ListMimir c w' = cl_ListMimir c w"
proof -
  have "w' = w \<or> (\<exists>err. cl_ApplyConfigMap c (desired_ConfigMap name body) FieldManager True w = (err, w'))"
    using assms(2) by (auto simp: apply_ConfigMap_def apply_write_def
        split: sum.splits if_splits prod.splits option.splits)
  then have "(\<forall>n. n \<noteq> name \<longrightarrow> cl_GetConfigMap c n w' = cl_GetConfigMap c n w) \<and>
      cl_ListLoki c w' = cl_ListLoki c w \<and> cl_ListMimir c w' = cl_ListMimir c w"
  proof
    assume "\<exists>err. cl_ApplyConfigMap c (desired_ConfigMap name body) FieldManager True w = (err, w')"
    then obtain err where "cl_ApplyConfigMap c (desired_ConfigMap name body) FieldManager True w = (err, w')"
      by blast
    then show ?thesis using assms(1) unfolding apply_local_def by (metis cm_id_desired)
  qed simp
  then show "n \<noteq> name \<Longrightarrow> cl_GetConfigMap c n w' = cl_GetConfigMap c n w"
    and "cl_ListLoki c w' = cl_ListLoki c w" and "cl_ListMimir c w' = cl_ListMimir c w" by auto
qed

end
