(* ===== verification/Status.thy ===== *)
theory Status
  imports Cluster
begin

text \<open>
  \<open>internal/controller/status.go\<close>: the transition gate of status conditions. \<open>metav1.Now()\<close> is
  called on the branches that replace or append a condition; the reading is the argument
  \<open>now\<close>, and \<open>takes_reading\<close> tells whether the call consumes it.
\<close>

section \<open>The operations\<close>

definition statusConflictRequeueDelay :: int where
  "statusConflictRequeueDelay = 1000000000"

definition conditionsEquivalent :: "Condition \<Rightarrow> Condition \<Rightarrow> bool" where
  "conditionsEquivalent a b \<longleftrightarrow>
     cond_Type a = cond_Type b \<and> cond_Status a = cond_Status b \<and>
     cond_Reason a = cond_Reason b \<and> cond_Message a = cond_Message b"

fun upsertCondition :: "gotime \<Rightarrow> Condition list \<Rightarrow> Condition \<Rightarrow> Condition list" where
  "upsertCondition now [] desired = [desired\<lparr>cond_LastTransitionTime := now\<rparr>]"
| "upsertCondition now (c # out) desired =
     (if cond_Type c \<noteq> cond_Type desired then c # upsertCondition now out desired
      else if conditionsEquivalent c desired
      then c\<lparr>cond_ObservedGeneration := cond_ObservedGeneration desired\<rparr> # out
      else desired\<lparr>cond_LastTransitionTime := now\<rparr> # out)"

fun takes_reading :: "Condition list \<Rightarrow> Condition \<Rightarrow> bool" where
  "takes_reading [] desired = True"
| "takes_reading (c # out) desired =
     (if cond_Type c \<noteq> cond_Type desired then takes_reading out desired
      else \<not> conditionsEquivalent c desired)"

text \<open>\<open>byType\<close> is filled in order, so the last condition of a type is the one compared.\<close>

definition byType :: "Condition list \<Rightarrow> Condition gomap" where
  "byType existing = foldl (\<lambda>m c. gomap_put (cond_Type c) c m) [] existing"

fun desired_differs :: "Condition gomap \<Rightarrow> Condition list \<Rightarrow> bool" where
  "desired_differs m [] = False"
| "desired_differs m (d # ds) =
     (case map_of m (cond_Type d) of
        None \<Rightarrow> True
      | Some e \<Rightarrow> if \<not> conditionsEquivalent e d then True else desired_differs m ds)"

definition conditionsChanged :: "Condition list \<Rightarrow> Condition list \<Rightarrow> bool" where
  "conditionsChanged existing desired =
     (if length existing \<noteq> length desired then True
      else desired_differs (byType existing) desired)"

section \<open>Lemmas\<close>

lemma conditionsEquivalent_refl [simp]: "conditionsEquivalent c c"
  by (simp add: conditionsEquivalent_def)

lemma conditionsEquivalent_sym: "conditionsEquivalent a b \<Longrightarrow> conditionsEquivalent b a"
  by (simp add: conditionsEquivalent_def)

lemma conditionsEquivalent_trans:
  "conditionsEquivalent a b \<Longrightarrow> conditionsEquivalent b c \<Longrightarrow> conditionsEquivalent a c"
  by (simp add: conditionsEquivalent_def)

lemma conditionsEquivalent_stamp [simp]:
  "conditionsEquivalent (a\<lparr>cond_LastTransitionTime := t\<rparr>) b = conditionsEquivalent a b"
  "conditionsEquivalent (a\<lparr>cond_ObservedGeneration := g\<rparr>) b = conditionsEquivalent a b"
  "conditionsEquivalent a (b\<lparr>cond_LastTransitionTime := t\<rparr>) = conditionsEquivalent a b"
  "conditionsEquivalent a (b\<lparr>cond_ObservedGeneration := g\<rparr>) = conditionsEquivalent a b"
  by (simp_all add: conditionsEquivalent_def)

text \<open>The first condition of a type, which is the one \<open>upsertCondition\<close> works on.\<close>

definition cond_of :: "Condition list \<Rightarrow> string \<Rightarrow> Condition option" where
  "cond_of cs t = find (\<lambda>c. cond_Type c = t) cs"

lemma cond_of_simps [simp]:
  "cond_of [] t = None"
  "cond_of (c # cs) t = (if cond_Type c = t then Some c else cond_of cs t)"
  by (simp_all add: cond_of_def)

lemma cond_of_Type: "cond_of cs t = Some c \<Longrightarrow> cond_Type c = t \<and> c \<in> set cs"
  by (induction cs) (auto split: if_splits)

lemma cond_of_None: "cond_of cs t = None \<longleftrightarrow> t \<notin> cond_Type ` set cs"
  by (induction cs) auto

text \<open>What the upsert leaves under the desired type and under every other type.\<close>

definition upserted :: "gotime \<Rightarrow> Condition option \<Rightarrow> Condition \<Rightarrow> Condition" where
  "upserted now old desired =
     (case old of
        None \<Rightarrow> desired\<lparr>cond_LastTransitionTime := now\<rparr>
      | Some c \<Rightarrow>
          if conditionsEquivalent c desired
          then c\<lparr>cond_ObservedGeneration := cond_ObservedGeneration desired\<rparr>
          else desired\<lparr>cond_LastTransitionTime := now\<rparr>)"

lemma cond_of_upsert:
  "cond_of (upsertCondition now cs d) t =
     (if t = cond_Type d then Some (upserted now (cond_of cs t) d) else cond_of cs t)"
  by (induction cs) (auto simp: upserted_def conditionsEquivalent_def)

lemma upsert_holds:
  "\<exists>c. cond_of (upsertCondition now cs d) (cond_Type d) = Some c \<and> conditionsEquivalent c d"
  by (auto simp: cond_of_upsert upserted_def split: option.split)

lemma upsert_types:
  "map cond_Type (upsertCondition now cs d) =
     map cond_Type cs @ (if cond_of cs (cond_Type d) = None then [cond_Type d] else [])"
  by (induction cs) (auto simp: conditionsEquivalent_def)

lemma length_upsert:
  "length (upsertCondition now cs d) =
     (if cond_of cs (cond_Type d) = None then Suc (length cs) else length cs)"
  using arg_cong[OF upsert_types[of now cs d], of length] by simp

lemma distinct_upsert:
  "distinct (map cond_Type cs) \<Longrightarrow> distinct (map cond_Type (upsertCondition now cs d))"
  by (auto simp: upsert_types cond_of_None)

text \<open>The gate: the clock is read exactly when the condition transitions.\<close>

lemma takes_reading_iff:
  "takes_reading cs d \<longleftrightarrow>
     (case cond_of cs (cond_Type d) of None \<Rightarrow> True | Some c \<Rightarrow> \<not> conditionsEquivalent c d)"
  by (induction cs) auto

lemma upsert_no_reading:
  "\<not> takes_reading cs d \<Longrightarrow> upsertCondition now cs d = upsertCondition now' cs d"
  by (induction cs) (auto split: if_splits)

lemma upsert_again:
  "upsertCondition now' (upsertCondition now cs d) d =  upsertCondition now cs d"
  by (induction cs) (auto simp: conditionsEquivalent_def)

lemma map_of_byType:
  "distinct (map cond_Type cs) \<Longrightarrow> map_of (byType cs) t = cond_of cs t"
proof -
  have "map_of (foldl (\<lambda>m c. gomap_put (cond_Type c) c m) m cs) t =
      (case cond_of (rev cs) t of None \<Rightarrow> map_of m t | Some c \<Rightarrow> Some c)" for m
    by (induction cs arbitrary: m rule: rev_induct) auto
  moreover assume "distinct (map cond_Type cs)"
  then have "cond_of (rev cs) t = cond_of cs t"
  proof (induction cs)
    case (Cons c cs)
    have "cond_of (xs @ [c]) t =
        (case cond_of xs t of None \<Rightarrow> (if cond_Type c = t then Some c else None) | Some x \<Rightarrow> Some x)" for xs
      by (induction xs) auto
    moreover have "cond_of cs (cond_Type c) = None"
      using Cons.prems by (simp add: cond_of_None)
    ultimately show ?case using Cons by (auto split: option.split)
  qed simp
  ultimately show ?thesis by (simp add: byType_def split: option.split)
qed

lemma desired_differs_iff:
  "desired_differs m ds \<longleftrightarrow>
     (\<exists>d \<in> set ds. case map_of m (cond_Type d) of None \<Rightarrow> True | Some e \<Rightarrow> \<not> conditionsEquivalent e d)"
  by (induction ds) (auto split: option.split)

lemma conditionsChanged_iff:
  "distinct (map cond_Type existing) \<Longrightarrow>
     conditionsChanged existing desired \<longleftrightarrow>
       length existing \<noteq> length desired \<or> (\<exists>d \<in> set desired. takes_reading existing d)"
  by (auto simp: conditionsChanged_def desired_differs_iff map_of_byType takes_reading_iff)

section \<open>The upsert in the operator's state\<close>

definition op_upsert :: "Condition list \<Rightarrow> Condition \<Rightarrow> 'w op \<Rightarrow> Condition list \<times> 'w op" where
  "op_upsert cs desired s =
     (if takes_reading cs desired
      then (let (now, s') = Now s in (upsertCondition now cs desired, s'))
      else (upsertCondition zero_time cs desired, s))"

fun op_upserts :: "Condition list \<Rightarrow> Condition list \<Rightarrow> 'w op \<Rightarrow> Condition list \<times> 'w op" where
  "op_upserts cs [] s = (cs, s)"
| "op_upserts cs (d # ds) s = (let (cs', s') = op_upsert cs d s in op_upserts cs' ds s')"

text \<open>Up to the clock, an upsert does not change the state.\<close>

definition same_but_clock :: "'w op \<Rightarrow> 'w op \<Rightarrow> bool" where
  "same_but_clock s s' \<longleftrightarrow> op_cluster s' = op_cluster s \<and> op_hashes s' = op_hashes s \<and>
     op_metrics s' = op_metrics s \<and> op_events s' = op_events s"

lemma same_but_clock_refl [simp]: "same_but_clock s s"
  by (simp add: same_but_clock_def)

lemma same_but_clock_trans:
  "same_but_clock s s' \<Longrightarrow> same_but_clock s' s'' \<Longrightarrow> same_but_clock s s''"
  by (simp add: same_but_clock_def)

lemma op_upsert_eq:
  "op_upsert cs d s = (cs', s') \<Longrightarrow> (\<exists>now. cs' = upsertCondition now cs d) \<and> same_but_clock s s'"
  by (auto simp: op_upsert_def Now_def same_but_clock_def split: if_splits)

lemma op_upserts_clock: "op_upserts cs ds s = (cs', s') \<Longrightarrow> same_but_clock s s'"
  by (induction cs ds s rule: op_upserts.induct)
    (auto split: prod.splits dest!: op_upsert_eq intro: same_but_clock_trans)

text \<open>
  Once all desired conditions are upserted, each of them is in force and none would transition
  again.
\<close>

lemma cond_of_op_upserts_other:
  "op_upserts cs ds s = (cs', s') \<Longrightarrow> t \<notin> cond_Type ` set ds \<Longrightarrow> cond_of cs' t = cond_of cs t"
  by (induction cs ds s rule: op_upserts.induct)
    (auto split: prod.splits dest!: op_upsert_eq simp: cond_of_upsert)

lemma op_upserts_hold:
  "op_upserts cs ds s = (cs', s') \<Longrightarrow> distinct (map cond_Type ds) \<Longrightarrow> d \<in> set ds \<Longrightarrow>
     \<exists>c. cond_of cs' (cond_Type d) = Some c \<and> conditionsEquivalent c d"
proof (induction cs ds s rule: op_upserts.induct)
  case (2 cs e ds s)
  obtain cs1 s1 where up: "op_upsert cs e s = (cs1, s1)" by fastforce
  then have rest: "op_upserts cs1 ds s1 = (cs', s')" using 2(2) by simp
  show ?case
  proof (cases "d = e")
    case True
    then have "cond_of cs' (cond_Type d) = cond_of cs1 (cond_Type d)"
      using cond_of_op_upserts_other[OF rest] 2(3) by auto
    then show ?thesis using op_upsert_eq[OF up] upsert_holds True by metis
  next
    case False
    then show ?thesis using 2(1)[OF up[symmetric] refl rest] 2(3,4) by auto
  qed
qed simp

lemma op_upserts_settled:
  assumes "op_upserts cs ds s = (cs', s')" and "distinct (map cond_Type ds)" and "d \<in> set ds"
  shows "\<not> takes_reading cs' d"
  using op_upserts_hold[OF assms] by (auto simp: takes_reading_iff)

lemma distinct_op_upserts:
  "op_upserts cs ds s = (cs', s') \<Longrightarrow> distinct (map cond_Type cs) \<Longrightarrow> distinct (map cond_Type cs')"
  by (induction cs ds s rule: op_upserts.induct)
    (auto split: prod.splits dest!: op_upsert_eq intro: distinct_upsert)

lemma types_op_upserts:
  "op_upserts cs ds s = (cs', s') \<Longrightarrow>
     cond_Type ` set cs' = cond_Type ` set cs \<union> cond_Type ` set ds"
proof (induction cs ds s rule: op_upserts.induct)
  case (2 cs e ds s)
  obtain cs1 s1 where up: "op_upsert cs e s = (cs1, s1)" by fastforce
  then have rest: "op_upserts cs1 ds s1 = (cs', s')" using 2(2) by simp
  obtain now where "cs1 = upsertCondition now cs e" using op_upsert_eq[OF up] by blast
  then have "cond_Type ` set cs1 = insert (cond_Type e) (cond_Type ` set cs)"
    using arg_cong[OF upsert_types[of now cs e], of set] by (auto simp: cond_of_None split: if_splits)
  with 2(1)[OF up[symmetric] refl rest] show ?case by auto
qed simp

end
