(* ===== verification/Peers.thy ===== *)
theory Peers
  imports Tenant_Groups Api_Types
begin

text \<open>
  \<open>internal/controller/peers.go\<close>: the other contributors to a tenant, in the order in which they
  are layered. The order of the peers is the second instance of the stable-sort contract, and
  agrees with that of the merge engine.
\<close>

definition peer_of :: "Override \<Rightarrow> ContributingPeer" where
  "peer_of o' = \<lparr>peer_Namespace = ov_Namespace o', peer_Name = ov_Name o', peer_Weight = ov_Weight o'\<rparr>"

fun collect_peers :: "Override \<Rightarrow> Override list \<Rightarrow> ContributingPeer list" where
  "collect_peers self [] = []"
| "collect_peers self (o' # all) =
     (if ov_TenantId o' \<noteq> ov_TenantId self then collect_peers self all
      else if ov_Namespace o' = ov_Namespace self \<and> ov_Name o' = ov_Name self
      then collect_peers self all
      else peer_of o' # collect_peers self all)"

definition peer_less :: "ContributingPeer \<Rightarrow> ContributingPeer \<Rightarrow> bool" where
  "peer_less a b =
     (if peer_Weight a \<noteq> peer_Weight b then sint (peer_Weight a) < sint (peer_Weight b)
      else if peer_Namespace a \<noteq> peer_Namespace b then peer_Namespace a < peer_Namespace b
      else peer_Name a < peer_Name b)"

definition computePeers :: "Override \<Rightarrow> Override list \<Rightarrow> ContributingPeer list" where
  "computePeers self all = SliceStable peer_less (collect_peers self all)"

fun peers_differ_from :: "ContributingPeer list \<Rightarrow> ContributingPeer list \<Rightarrow> bool" where
  "peers_differ_from (x # a) (y # b) = (if x \<noteq> y then True else peers_differ_from a b)"
| "peers_differ_from _ _ = False"

definition peersChanged :: "ContributingPeer list \<Rightarrow> ContributingPeer list \<Rightarrow> bool" where
  "peersChanged a b = (if length a \<noteq> length b then True else peers_differ_from a b)"

section \<open>Lemmas\<close>

definition peer_key :: "ContributingPeer \<Rightarrow> precedence" where
  "peer_key p = (sint (peer_Weight p), NamespacedName (peer_Namespace p) (peer_Name p))"

lemma peer_less_key: "peer_less a b \<longleftrightarrow> peer_key a < peer_key b"
  by (auto simp: peer_less_def peer_key_def less_prod_def less_NamespacedName_def sint_eq_iff order_less_le)

interpretation sort_peers: stable_sorter peer_key "SliceStable peer_less"
  unfolding SliceStable_def by (rule stable_sort_contract) (rule peer_less_key)

lemma peer_key_of: "peer_key (peer_of c) = override_key c"
  by (simp add: peer_key_def peer_of_def override_key_def)

lemma collect_peers_eq:
  "collect_peers self all = map peer_of
     (filter (\<lambda>c. ov_TenantId c = ov_TenantId self \<and> override_id c \<noteq> override_id self) all)"
  by (induction all) (auto simp: override_id_def)

lemma inj_peer_key: "inj peer_key"
  by (rule injI) (auto simp: peer_key_def sint_eq_iff intro: ContributingPeer.equality)

lemma set_computePeers:
  "set (computePeers self all) =
     {peer_of c | c. c \<in> set all \<and> ov_TenantId c = ov_TenantId self \<and> override_id c \<noteq> override_id self}"
  by (auto simp: computePeers_def sort_peers.srt_set collect_peers_eq)

lemma computePeers_perm:
  "mset all = mset all' \<Longrightarrow> computePeers self all = computePeers self all'"
  unfolding computePeers_def collect_peers_eq
  by (rule sort_peers.srt_perm) (auto simp: inj_on_subset[OF inj_peer_key])

text \<open>
  The peers are the layers of the tenant without the contribution itself, in the same order.
\<close>

lemma computePeers_layers:
  "computePeers self all =
     map peer_of (filter (\<lambda>c. override_id c \<noteq> override_id self) (layers all (ov_TenantId self)))"
    (is "_ = map peer_of (filter ?P (layers all ?t))")
proof -
  have "mset (filter ?P (layers all ?t)) =
      mset (filter (\<lambda>c. ov_TenantId c = ?t \<and> ?P c) all)"
    unfolding layers_def mset_filter sort_group.srt_mset by (simp add: filter_filter_mset conj_commute)
  then have "computePeers self all = SliceStable peer_less (map peer_of (filter ?P (layers all ?t)))"
    unfolding computePeers_def collect_peers_eq
    by (intro sort_peers.srt_perm) (simp_all add: inj_on_subset[OF inj_peer_key])
  also have "\<dots> = map peer_of (filter ?P (layers all ?t))"
    by (rule sort_peers.srt_idem)
      (simp add: comp_def peer_key_of sorted_filter sorted_layers)
  finally show ?thesis .
qed

lemma peersChanged_iff: "peersChanged a b \<longleftrightarrow> a \<noteq> b"
proof -
  have "length a = length b \<Longrightarrow> peers_differ_from a b \<longleftrightarrow> a \<noteq> b"
    by (induction a b rule: list_induct2) auto
  then show ?thesis by (auto simp: peersChanged_def)
qed

end
