(* ===== verification/Drift.thy ===== *)
theory Drift
  imports Api_Types
begin

text \<open>
  \<open>internal/controller/drift.go\<close>: which events of config maps reach a reconciler, and the
  identification of a foreign writer from the managed fields of a config map.
\<close>

section \<open>The watch\<close>

definition outputCMPredicate :: "NamespacedName \<Rightarrow> NamespacedName option \<Rightarrow> bool" where
  "outputCMPredicate cmName obj =
     (case obj of
        None \<Rightarrow> False
      | Some n \<Rightarrow> nn_Namespace n = nn_Namespace cmName \<and> nn_Name n = nn_Name cmName)"

definition configMapHandler :: "NamespacedName \<Rightarrow> NamespacedName option \<Rightarrow> NamespacedName list" where
  "configMapHandler reconcileKey _ = [reconcileKey]"

text \<open>
  An event that a watch of controller-runtime delivers: one of a custom resource, with whether
  \<open>GenerationChangedPredicate\<close> lets it pass (it stops only updates that keep the generation), or
  one of a config map. A registered controller has a name and maps each event to the requests it
  enqueues.
\<close>

datatype cr_kind = KindLoki | KindMimir

datatype watch_event =
    CREvent cr_kind NamespacedName bool
  | ConfigMapEvent "NamespacedName option"

record registration =
  reg_Name :: string
  reg_Enqueue :: "watch_event \<Rightarrow> NamespacedName list"

lemma outputCMPredicate_iff: "outputCMPredicate n obj \<longleftrightarrow> obj = Some n"
  by (auto simp: outputCMPredicate_def NamespacedName.expand split: option.split)

section \<open>The foreign writer\<close>

definition unknownFieldManager :: string where
  "unknownFieldManager = ''unknown''"

definition maxLen :: nat where
  "maxLen = 64"

record drift_scan =
  ds_bestName :: string
  ds_bestHasTime :: bool
  ds_bestTime :: int64
  ds_fallbackName :: string

definition drift_start :: drift_scan where
  "drift_start = \<lparr>ds_bestName = [], ds_bestHasTime = False, ds_bestTime = 0, ds_fallbackName = []\<rparr>"

text \<open>One round of the loop; each \<open>continue\<close> is a branch.\<close>

definition drift_step :: "string \<Rightarrow> drift_scan \<Rightarrow> ManagedFieldsEntry \<Rightarrow> drift_scan" where
  "drift_step ourManager st mf =
     (if mf_Manager mf = [] \<or> mf_Manager mf = ourManager then st
      else
        let trimmed = strings_TrimSpace (mf_Manager mf) in
        if trimmed = [] then st
        else
          let m = (if length trimmed > maxLen then take maxLen trimmed else trimmed) in
          case mf_Time mf of
            None \<Rightarrow> if ds_fallbackName st = [] then st\<lparr>ds_fallbackName := m\<rparr> else st
          | Some time \<Rightarrow>
              if time_IsZero time
              then (if ds_fallbackName st = [] then st\<lparr>ds_fallbackName := m\<rparr> else st)
              else
                let t = UnixNano time in
                if \<not> ds_bestHasTime st \<or> sint t > sint (ds_bestTime st)
                then st\<lparr>ds_bestHasTime := True, ds_bestTime := t, ds_bestName := m\<rparr>
                else st)"

definition drift_result :: "drift_scan \<Rightarrow> string" where
  "drift_result st =
     (if ds_bestHasTime st then ds_bestName st
      else if ds_fallbackName st \<noteq> [] then ds_fallbackName st
      else unknownFieldManager)"

definition extractConflictingFieldManager :: "ConfigMap option \<Rightarrow> string \<Rightarrow> string" where
  "extractConflictingFieldManager cm ourManager =
     (case cm of
        None \<Rightarrow> unknownFieldManager
      | Some cm \<Rightarrow>
          drift_result (foldl (drift_step ourManager) drift_start (cm_ManagedFields cm)))"

section \<open>Lemmas\<close>

text \<open>The entries that count, with the label each would give and its time when it has one.\<close>

definition writer_label :: "ManagedFieldsEntry \<Rightarrow> string" where
  "writer_label mf = take maxLen (strings_TrimSpace (mf_Manager mf))"

definition writer_time :: "ManagedFieldsEntry \<Rightarrow> int64 option" where
  "writer_time mf = (case mf_Time mf of
     None \<Rightarrow> None | Some t \<Rightarrow> if time_IsZero t then None else Some (UnixNano t))"

definition foreign :: "string \<Rightarrow> ManagedFieldsEntry \<Rightarrow> bool" where
  "foreign ourManager mf \<longleftrightarrow>
     mf_Manager mf \<noteq> ourManager \<and> strings_TrimSpace (mf_Manager mf) \<noteq> []"

lemma TrimSpace_Nil [simp]: "strings_TrimSpace [] = []"
  by (simp add: strings_TrimSpace_def)

lemma writer_label_short: "length (writer_label mf) \<le> 64"
  by (simp add: writer_label_def maxLen_def)

lemma writer_label_nonempty: "foreign ours mf \<Longrightarrow> writer_label mf \<noteq> []"
  by (simp add: writer_label_def foreign_def maxLen_def)

lemma drift_step_eq:
  "drift_step ours st mf =
     (if \<not> foreign ours mf then st
      else case writer_time mf of
        None \<Rightarrow> if ds_fallbackName st = [] then st\<lparr>ds_fallbackName := writer_label mf\<rparr> else st
      | Some t \<Rightarrow>
          if \<not> ds_bestHasTime st \<or> sint t > sint (ds_bestTime st)
          then st\<lparr>ds_bestHasTime := True, ds_bestTime := t, ds_bestName := writer_label mf\<rparr>
          else st)"
  by (auto simp: drift_step_def foreign_def writer_time_def writer_label_def Let_def
      split: option.split)

text \<open>What the scan has found after a prefix of the entries.\<close>

definition scanned :: "string \<Rightarrow> ManagedFieldsEntry list \<Rightarrow> drift_scan \<Rightarrow> bool" where
  "scanned ours mfs st \<longleftrightarrow>
     (ds_bestHasTime st \<longleftrightarrow> (\<exists>mf \<in> set mfs. foreign ours mf \<and> writer_time mf \<noteq> None)) \<and>
     (ds_bestHasTime st \<longrightarrow>
        (\<exists>mf \<in> set mfs. foreign ours mf \<and> writer_time mf = Some (ds_bestTime st) \<and>
           ds_bestName st = writer_label mf) \<and>
        (\<forall>mf \<in> set mfs. foreign ours mf \<longrightarrow>
           (\<forall>t. writer_time mf = Some t \<longrightarrow> sint t \<le> sint (ds_bestTime st)))) \<and>
     ds_fallbackName st =
       (case find (\<lambda>mf. foreign ours mf \<and> writer_time mf = None) mfs of
          None \<Rightarrow> [] | Some mf \<Rightarrow> writer_label mf)"

lemma find_snoc: "find P (xs @ [x]) = (case find P xs of None \<Rightarrow> if P x then Some x else None | Some y \<Rightarrow> Some y)"
  by (induction xs) auto

lemma find_Some_P: "find P xs = Some x \<Longrightarrow> P x"
  by (induction xs) (auto split: if_splits)

lemma scanned_start: "scanned ours [] drift_start"
  by (simp add: scanned_def drift_start_def)

lemma scanned_step:
  assumes "scanned ours mfs st"
  shows "scanned ours (mfs @ [mf]) (drift_step ours st mf)"
proof (cases "foreign ours mf")
  case False
  then show ?thesis using assms by (simp add: scanned_def drift_step_eq find_snoc split: option.split)
next
  case True
  show ?thesis
  proof (cases "writer_time mf")
    case None
    then show ?thesis
      using assms True writer_label_nonempty[OF True]
      by (auto simp: scanned_def drift_step_eq find_snoc writer_label_nonempty
          split: option.splits dest!: find_Some_P)
  next
    case (Some t)
    then show ?thesis
      using assms True by (fastforce simp: scanned_def drift_step_eq find_snoc split: option.splits)
  qed
qed

lemma scanned_all: "scanned ours mfs (foldl (drift_step ours) drift_start mfs)"
  by (induction mfs rule: rev_induct) (simp_all add: scanned_start scanned_step)

text \<open>The label is never empty and never longer than 64 bytes.\<close>

lemma drift_result_bounds:
  assumes "scanned ours mfs st"
  shows "drift_result st \<noteq> [] \<and> length (drift_result st) \<le> 64"
proof (cases "ds_bestHasTime st")
  case True
  then obtain mf where "foreign ours mf" "ds_bestName st = writer_label mf"
    using assms unfolding scanned_def by blast
  then show ?thesis using True by (simp add: drift_result_def writer_label_short writer_label_nonempty)
next
  case False
  have "length (ds_fallbackName st) \<le> 64"
    using assms by (simp add: scanned_def writer_label_short split: option.split)
  then show ?thesis using False by (simp add: drift_result_def unknownFieldManager_def)
qed

lemma extract_bounds:
  "extractConflictingFieldManager cm ours \<noteq> [] \<and> length (extractConflictingFieldManager cm ours) \<le> 64"
  using drift_result_bounds[OF scanned_all]
  by (auto simp: extractConflictingFieldManager_def unknownFieldManager_def split: option.split)

text \<open>With a dated foreign entry the label is that of a latest one.\<close>

lemma extract_latest:
  assumes "mf \<in> set (cm_ManagedFields cm)" and "foreign ours mf" and "writer_time mf = Some t"
  obtains best u where "best \<in> set (cm_ManagedFields cm)" and "foreign ours best"
    and "writer_time best = Some u" and "sint t \<le> sint u"
    and "extractConflictingFieldManager (Some cm) ours = writer_label best"
proof -
  let ?st = "foldl (drift_step ours) drift_start (cm_ManagedFields cm)"
  have sc: "scanned ours (cm_ManagedFields cm) ?st" by (rule scanned_all)
  then have has: "ds_bestHasTime ?st" using assms unfolding scanned_def by blast
  then have le: "sint t \<le> sint (ds_bestTime ?st)" using sc assms unfolding scanned_def by blast
  obtain best where "best \<in> set (cm_ManagedFields cm)" "foreign ours best"
      "writer_time best = Some (ds_bestTime ?st)" "ds_bestName ?st = writer_label best"
    using sc has unfolding scanned_def by blast
  with le has show ?thesis
    using that by (simp add: extractConflictingFieldManager_def drift_result_def)
qed

text \<open>Without one it is the first undated foreign entry, and \<open>unknown\<close> when there is none.\<close>

lemma extract_undated:
  assumes "\<forall>mf \<in> set (cm_ManagedFields cm). foreign ours mf \<longrightarrow> writer_time mf = None"
  shows "extractConflictingFieldManager (Some cm) ours =
     (case find (foreign ours) (cm_ManagedFields cm) of
        None \<Rightarrow> unknownFieldManager | Some mf \<Rightarrow> writer_label mf)"
proof -
  let ?st = "foldl (drift_step ours) drift_start (cm_ManagedFields cm)"
  have sc: "scanned ours (cm_ManagedFields cm) ?st" by (rule scanned_all)
  have "ds_bestHasTime ?st \<longleftrightarrow>
      (\<exists>mf \<in> set (cm_ManagedFields cm). foreign ours mf \<and> writer_time mf \<noteq> None)"
    by (rule conjunct1[OF sc[unfolded scanned_def]])
  then have "\<not> ds_bestHasTime ?st" using assms by (metis (no_types))
  then have res: "drift_result ?st =
      (if ds_fallbackName ?st \<noteq> [] then ds_fallbackName ?st else unknownFieldManager)"
    by (simp only: drift_result_def if_False)
  have same: "find (\<lambda>mf. foreign ours mf \<and> writer_time mf = None) (cm_ManagedFields cm)
      = find (foreign ours) (cm_ManagedFields cm)"
    by (rule find_cong[OF refl]) (use assms in blast)
  have fall: "ds_fallbackName ?st = (case find (foreign ours) (cm_ManagedFields cm) of
        None \<Rightarrow> [] | Some mf \<Rightarrow> writer_label mf)"
    by (rule sc[unfolded scanned_def same, THEN conjunct2, THEN conjunct2])
  have ne: "find (foreign ours) (cm_ManagedFields cm) = Some mf \<Longrightarrow> writer_label mf \<noteq> []" for mf
    by (rule writer_label_nonempty) (rule find_Some_P)
  show ?thesis
    unfolding extractConflictingFieldManager_def option.case res fall
    using ne by (auto split: option.split)
qed

end
