(* ===== verification/Validation.thy ===== *)
theory Validation
  imports Any_Values
begin

text \<open>
  \<open>internal/validate\<close>: the validators of the two backends. The upstream packages (Loki's and
  Mimir's \<open>Limits\<close> with its reflected type, its flag defaults, its YAML decoder and its
  \<open>Validate\<close>) and the marshaller of \<open>gopkg.in/yaml.v3\<close> are third-party code: the record
  \<open>limits_pkg\<close> and the argument \<open>marshal\<close>. Their package-level defaults, which \<open>InitDefaults\<close>
  primes once, are explicit state.
\<close>

section \<open>The upstream packages\<close>

text \<open>What \<open>reflect.Type\<close> tells of a type: pointers, structs with their fields, anything else.\<close>

datatype go_type =
    Pointer go_type
  | Struct "go_field list"
  | OtherKind
and go_field =
    StructField (f_Name: string) (f_IsExported: bool) (f_TagYaml: string) (f_Type: go_type)

record 'l limits_pkg =
  pkg_Type :: go_type
  pkg_FlagDefaults :: 'l
  pkg_Decode :: "'l option \<Rightarrow> string \<Rightarrow> go_error + 'l"
  pkg_Validate :: "'l \<Rightarrow> go_error option"

section \<open>Defaults\<close>

text \<open>\<open>None\<close>: \<open>SetDefaultLimitsForYAMLUnmarshalling\<close> has not been called.\<close>

record ('l, 'm) validation_globals =
  vg_initOnce :: bool
  vg_loki :: "'l option"
  vg_mimir :: "'m option"

definition InitDefaults ::
  "'l limits_pkg \<Rightarrow> 'm limits_pkg \<Rightarrow> ('l, 'm) validation_globals \<Rightarrow> ('l, 'm) validation_globals" where
  "InitDefaults lokip mimirp g =
     (if vg_initOnce g then g
      else g\<lparr>vg_initOnce := True, vg_loki := Some (pkg_FlagDefaults lokip),
             vg_mimir := Some (pkg_FlagDefaults mimirp)\<rparr>)"

lemma InitDefaults_once: "InitDefaults l m (InitDefaults l' m' g) = InitDefaults l' m' g"
  by (simp add: InitDefaults_def)

lemma InitDefaults_primes:
  "\<not> vg_initOnce g \<Longrightarrow> vg_loki (InitDefaults l m g) = Some (pkg_FlagDefaults l) \<and>
     vg_mimir (InitDefaults l m g) = Some (pkg_FlagDefaults m)"
  by (simp add: InitDefaults_def)

section \<open>The known fields of a struct\<close>

fun strip_pointers :: "go_type \<Rightarrow> go_type" where
  "strip_pointers (Pointer t) = strip_pointers t"
| "strip_pointers t = t"

fun knownYAMLFields :: "go_type \<Rightarrow> string set"
  and known_of_field :: "go_field \<Rightarrow> string set" where
  "knownYAMLFields (Pointer t) = knownYAMLFields t"
| "knownYAMLFields OtherKind = {}"
| "knownYAMLFields (Struct fs) = \<Union> (set (map known_of_field fs))"
| "known_of_field (StructField fname exported tag ty) =
     (if \<not> exported then {}
      else
        let (name, opts) = strings_Cut tag (CHR '','') in
        if name = ''-'' then {}
        else if strings_Contains opts ''inline'' then knownYAMLFields ty
        else {if name = [] then strings_ToLower fname else name})"

lemma knownYAMLFields_strip: "knownYAMLFields (strip_pointers t) = knownYAMLFields t"
  by (induction t rule: strip_pointers.induct) simp_all

text \<open>An independent description: a key is known when some path of inlined fields declares it.\<close>

inductive declares :: "go_type \<Rightarrow> string \<Rightarrow> bool" where
  via_pointer: "declares t k \<Longrightarrow> declares (Pointer t) k"
| here: "f \<in> set fs \<Longrightarrow> f_IsExported f \<Longrightarrow> strings_Cut (f_TagYaml f) (CHR '','') = (name, opts) \<Longrightarrow>
     name \<noteq> ''-'' \<Longrightarrow> \<not> strings_Contains opts ''inline'' \<Longrightarrow>
     k = (if name = [] then strings_ToLower (f_Name f) else name) \<Longrightarrow> declares (Struct fs) k"
| inlined: "f \<in> set fs \<Longrightarrow> f_IsExported f \<Longrightarrow> strings_Cut (f_TagYaml f) (CHR '','') = (name, opts) \<Longrightarrow>
     name \<noteq> ''-'' \<Longrightarrow> strings_Contains opts ''inline'' \<Longrightarrow>
     declares (f_Type f) k \<Longrightarrow> declares (Struct fs) k"

inductive_cases declares_PointerE: "declares (Pointer t) k"
inductive_cases declares_StructE: "declares (Struct fs) k"
inductive_cases declares_OtherE: "declares OtherKind k"

lemma known_sound:
  "k \<in> knownYAMLFields t \<Longrightarrow> declares t k"
  "k \<in> known_of_field f \<Longrightarrow> f \<in> set fs \<Longrightarrow> declares (Struct fs) k"
proof (induction t and f arbitrary: k and k fs rule: knownYAMLFields_known_of_field.induct)
  case (4 fname exported tag ty)
  obtain name opts where cut: "strings_Cut tag (CHR '','') = (name, opts)" by fastforce
  have "exported" "name \<noteq> ''-''" using 4(2) cut by (auto split: if_splits)
  show ?case
  proof (cases "strings_Contains opts ''inline''")
    case True
    then have "k \<in> knownYAMLFields ty" using 4(2) cut \<open>exported\<close> \<open>name \<noteq> ''-''\<close> by simp
    then have "declares ty k" using 4(1) cut True \<open>exported\<close> \<open>name \<noteq> ''-''\<close> by simp
    then show ?thesis
      by (intro declares.inlined[OF 4(3)]) (use cut True \<open>exported\<close> \<open>name \<noteq> ''-''\<close> in simp_all)
  next
    case False
    then have "k = (if name = [] then strings_ToLower fname else name)"
      using 4(2) cut \<open>exported\<close> \<open>name \<noteq> ''-''\<close> by simp
    moreover have "f_IsExported (StructField fname exported tag ty)"
        "strings_Cut (f_TagYaml (StructField fname exported tag ty)) (CHR '','') = (name, opts)"
        "f_Name (StructField fname exported tag ty) = fname"
      using cut \<open>exported\<close> by simp_all
    ultimately show ?thesis
      using declares.here[OF 4(3), of name opts k] False \<open>name \<noteq> ''-''\<close> by metis
  qed
qed (auto intro: declares.intros)

lemma known_field_iff:
  "known_of_field f = (if \<not> f_IsExported f then {}
     else let (name, opts) = strings_Cut (f_TagYaml f) (CHR '','') in
       if name = ''-'' then {}
       else if strings_Contains opts ''inline'' then knownYAMLFields (f_Type f)
       else {if name = [] then strings_ToLower (f_Name f) else name})"
  by (cases f) (simp split: prod.split)

lemma known_complete: "declares t k \<Longrightarrow> k \<in> knownYAMLFields t"
  by (induction rule: declares.induct) (auto simp: known_field_iff intro!: bexI)

section \<open>The validators\<close>

type_synonym Target = string

definition TargetLoki :: Target where "TargetLoki = ''loki''"
definition TargetMimir :: Target where "TargetMimir = ''mimir''"

text \<open>The interface \<open>Validator\<close>: its two methods.\<close>

record Validator =
  v_Validate :: "anymap \<Rightarrow> go_error option"
  v_Target :: Target

definition mimirValidator_Validate ::
  "(anymap \<Rightarrow> go_error + string) \<Rightarrow> 'm limits_pkg \<Rightarrow> 'm option \<Rightarrow> anymap \<Rightarrow> go_error option" where
  "mimirValidator_Validate marshal pkg dflt raw =
     (case marshal raw of
        Inl err \<Rightarrow> Some (ErrWrap ''mimir: re-marshal raw overrides'' err)
      | Inr body \<Rightarrow>
          (case pkg_Decode pkg dflt body of
             Inl err \<Rightarrow> Some (ErrWrap ''mimir'' err)
           | Inr limits \<Rightarrow>
               (case pkg_Validate pkg limits of
                  Some err \<Rightarrow> Some (ErrWrap ''mimir'' err)
                | None \<Rightarrow> None)))"

definition lokiKnownFields :: "'l limits_pkg \<Rightarrow> string set" where
  "lokiKnownFields pkg = knownYAMLFields (pkg_Type pkg)"

text \<open>The loop over the keys of \<open>raw\<close>, in the map's iteration order.\<close>

fun unknown_key :: "string set \<Rightarrow> anymap \<Rightarrow> string option" where
  "unknown_key known [] = None"
| "unknown_key known ((k, v) # raw) = (if k \<notin> known then Some k else unknown_key known raw)"

definition lokiValidator_Validate ::
  "(anymap \<Rightarrow> go_error + string) \<Rightarrow> 'l limits_pkg \<Rightarrow> 'l option \<Rightarrow> anymap \<Rightarrow> go_error option" where
  "lokiValidator_Validate marshal pkg dflt raw =
     (case unknown_key (lokiKnownFields pkg) raw of
        Some k \<Rightarrow> Some (ErrMsg (''loki: field '' @ strconv_Quote k @ '' not found in type validation.Limits''))
      | None \<Rightarrow>
          (case marshal raw of
             Inl err \<Rightarrow> Some (ErrWrap ''loki: re-marshal raw overrides'' err)
           | Inr body \<Rightarrow>
               (case pkg_Decode pkg dflt body of
                  Inl err \<Rightarrow> Some (ErrWrap ''loki'' err)
                | Inr limits \<Rightarrow>
                    (case pkg_Validate pkg limits of
                       Some err \<Rightarrow> Some (ErrWrap ''loki'' err)
                     | None \<Rightarrow> None))))"

definition New ::
  "(anymap \<Rightarrow> go_error + string) \<Rightarrow> 'l limits_pkg \<Rightarrow> 'm limits_pkg \<Rightarrow>
     ('l, 'm) validation_globals \<Rightarrow> Target \<Rightarrow> Validator option" where
  "New marshal lokip mimirp g t =
     (if t = TargetLoki then
        Some \<lparr>v_Validate = lokiValidator_Validate marshal lokip (vg_loki g), v_Target = TargetLoki\<rparr>
      else if t = TargetMimir then
        Some \<lparr>v_Validate = mimirValidator_Validate marshal mimirp (vg_mimir g), v_Target = TargetMimir\<rparr>
      else None)"

section \<open>Lemmas\<close>

lemma unknown_key_None: "unknown_key known raw = None \<longleftrightarrow> fst ` set raw \<subseteq> known"
  by (induction raw rule: unknown_key.induct) auto

lemma unknown_key_Some: "unknown_key known raw = Some k \<Longrightarrow> k \<in> fst ` set raw \<and> k \<notin> known"
  by (induction raw rule: unknown_key.induct) (auto split: if_splits)

text \<open>Loki's verdict: Mimir's chain of steps, behind the check of the keys.\<close>

lemma loki_accepts:
  "lokiValidator_Validate marshal pkg dflt raw = None \<longleftrightarrow>
     fst ` set raw \<subseteq> lokiKnownFields pkg \<and>
     (\<exists>body limits. marshal raw = Inr body \<and> pkg_Decode pkg dflt body = Inr limits \<and>
        pkg_Validate pkg limits = None)"
  unfolding lokiValidator_Validate_def unknown_key_None[symmetric]
  by (auto split: option.splits sum.splits)

lemma mimir_accepts:
  "mimirValidator_Validate marshal pkg dflt raw = None \<longleftrightarrow>
     (\<exists>body limits. marshal raw = Inr body \<and> pkg_Decode pkg dflt body = Inr limits \<and>
        pkg_Validate pkg limits = None)"
  unfolding mimirValidator_Validate_def by (auto split: option.splits sum.splits)

text \<open>
  A marshaller that writes maps in the order of their keys makes the verdict independent of the
  iteration order of the map; only which unknown key the message names depends on it.
\<close>

definition marshal_sorted :: "(anymap \<Rightarrow> go_error + string) \<Rightarrow> bool" where
  "marshal_sorted marshal \<longleftrightarrow>
     (\<forall>a b. map_ok a \<longrightarrow> map_ok b \<longrightarrow> map_eqv a b \<longrightarrow> marshal a = marshal b)"

text \<open>What the reconcilers need of a validator: its verdict is a function of the content.\<close>

definition content_verdict :: "(anymap \<Rightarrow> go_error option) \<Rightarrow> bool" where
  "content_verdict validate \<longleftrightarrow>
     (\<forall>a b. map_ok a \<longrightarrow> map_ok b \<longrightarrow> map_eqv a b \<longrightarrow> (validate a = None \<longleftrightarrow> validate b = None))"

lemma map_eqv_keys: "map_eqv a b \<Longrightarrow> fst ` set a = fst ` set b"
proof -
  assume eq: "map_eqv a b"
  have "k \<in> fst ` set a \<longleftrightarrow> k \<in> fst ` set b" for k
  proof -
    have "rel_option any_eqv (map_of a k) (map_of b k)" using eq by (simp add: map_eqv_iff)
    then have "map_of a k = None \<longleftrightarrow> map_of b k = None" by (cases "map_of a k"; cases "map_of b k") auto
    then show ?thesis by (simp only: map_of_eq_None_iff) blast
  qed
  then show ?thesis by blast
qed

lemma marshal_sortedD:
  "marshal_sorted marshal \<Longrightarrow> map_ok a \<Longrightarrow> map_ok b \<Longrightarrow> map_eqv a b \<Longrightarrow> marshal a = marshal b"
  unfolding marshal_sorted_def by blast

lemma loki_content_verdict:
  assumes "marshal_sorted marshal"
  shows "content_verdict (lokiValidator_Validate marshal pkg dflt)"
  unfolding content_verdict_def
proof (intro allI impI)
  fix a b assume ab: "map_ok a" "map_ok b" "map_eqv a b"
  show "lokiValidator_Validate marshal pkg dflt a = None \<longleftrightarrow>
      lokiValidator_Validate marshal pkg dflt b = None"
    unfolding loki_accepts marshal_sortedD[OF assms ab] map_eqv_keys[OF ab(3)] by (rule refl)
qed

lemma mimir_content_verdict:
  assumes "marshal_sorted marshal"
  shows "content_verdict (mimirValidator_Validate marshal pkg dflt)"
  unfolding content_verdict_def
proof (intro allI impI)
  fix a b assume ab: "map_ok a" "map_ok b" "map_eqv a b"
  show "mimirValidator_Validate marshal pkg dflt a = None \<longleftrightarrow>
      mimirValidator_Validate marshal pkg dflt b = None"
    unfolding mimir_accepts marshal_sortedD[OF assms ab] by (rule refl)
qed

lemma New_target: "New marshal l m g t = Some v \<Longrightarrow> v_Target v = t"
  by (auto simp: New_def split: if_splits)

lemma New_content_verdict:
  "marshal_sorted marshal \<Longrightarrow> New marshal l m g t = Some v \<Longrightarrow> content_verdict (v_Validate v)"
  by (auto simp: New_def split: if_splits intro: loki_content_verdict mimir_content_verdict)

end
