(* ===== verification/Reconcile_Base.thy ===== *)
theory Reconcile_Base
  imports Tracking Apply_Config Status Peers Drift Validation
begin

text \<open>
  What the two reconcilers have in common in the code: the shape of their structs and envelopes,
  the decoding of a custom resource's overrides (\<open>unmarshalRawExtension\<close>), and the comparison that
  gates a status write. Below, the specification of a reconcile: which contributions are valid,
  what output they make and which status each custom resource should get.
\<close>

section \<open>Parameters\<close>

text \<open>
  Third-party code: \<open>json.Unmarshal\<close> into a \<open>map[string]any\<close> (\<open>None\<close> is the nil map that the JSON
  text \<open>null\<close> gives) and the YAML encoder. The decoded maps are Go maps: no key twice.
\<close>

record libs =
  lib_Unmarshal :: "string \<Rightarrow> go_error + anymap option"
  lib_Encoder :: yaml_encoder

definition decodes_maps :: "libs \<Rightarrow> bool" where
  "decodes_maps lib \<longleftrightarrow> (\<forall>b m. lib_Unmarshal lib b = Inr (Some m) \<longrightarrow> map_ok m)"

text \<open>The iteration orders of the two maps a reconcile ranges over, which Go leaves open.\<close>

record schedule =
  sch_groups :: "Override list gomap \<Rightarrow> Override list gomap"
  sch_conflicts :: "FieldConflict list gomap \<Rightarrow> FieldConflict list gomap"

definition fair :: "schedule \<Rightarrow> bool" where
  "fair sch \<longleftrightarrow> (\<forall>m. mset (sch_groups sch m) = mset m) \<and> (\<forall>m. mset (sch_conflicts sch m) = mset m)"

section \<open>Types\<close>

text \<open>The struct of a reconciler; \<open>Recorder\<close> and \<open>HashCache\<close> tell whether the field is non-nil.\<close>

record 'w target_struct =
  r_Client :: "'w client"
  r_OutputCM :: NamespacedName
  r_Validator :: Validator
  r_Recorder :: bool
  r_HashCache :: bool

type_synonym 'w LokiReconciler = "'w target_struct"
type_synonym 'w MimirReconciler = "'w target_struct"

record crEnvelope =
  env_CR :: TenantOverride
  env_Effective :: string
  env_Override :: Override
  env_ValidErr :: "go_error option"

type_synonym mimirCREnvelope = crEnvelope

datatype reconcile_end = Panicked string | Returned (RequeueAfter: int) (returned_err: "go_error option")

section \<open>Shared operations\<close>

definition unmarshalRawExtension :: "libs \<Rightarrow> string option \<Rightarrow> go_error + anymap" where
  "unmarshalRawExtension lib raw =
     (case raw of
        None \<Rightarrow> Inr []
      | Some bytes \<Rightarrow>
          if bytes = [] then Inr []
          else
            (case lib_Unmarshal lib bytes of
               Inl err \<Rightarrow> Inl (ErrWrap ''unmarshal overrides'' err)
             | Inr None \<Rightarrow> Inr []
             | Inr (Some out) \<Rightarrow> Inr out))"

text \<open>\<open>needsUpdate\<close> in \<open>updateStatuses\<close>, and the status that is then written.\<close>

definition needsUpdate :: "TenantOverrideStatus \<Rightarrow> TenantOverrideStatus \<Rightarrow> bool" where
  "needsUpdate old desired \<longleftrightarrow>
     st_ObservedGeneration desired \<noteq> st_ObservedGeneration old \<or>
     st_EffectiveTenantId desired \<noteq> st_EffectiveTenantId old \<or>
     conditionsChanged (st_Conditions old) (st_Conditions desired) \<or>
     peersChanged (st_ContributingPeers old) (st_ContributingPeers desired)"

definition updated_status ::
  "TenantOverrideStatus \<Rightarrow> TenantOverrideStatus \<Rightarrow> 'w op \<Rightarrow> TenantOverrideStatus \<times> 'w op" where
  "updated_status old desired s =
     (let (conds, s') = op_upserts (st_Conditions old) (st_Conditions desired) s in
      (old\<lparr>st_ObservedGeneration := st_ObservedGeneration desired,
           st_EffectiveTenantId := st_EffectiveTenantId desired,
           st_ContributingPeers := st_ContributingPeers desired,
           st_Conditions := conds\<rparr>, s'))"

lemma unmarshal_ok: "decodes_maps lib \<Longrightarrow> unmarshalRawExtension lib raw = Inr m \<Longrightarrow> map_ok m"
  by (auto simp: unmarshalRawExtension_def decodes_maps_def
      split: option.splits if_splits sum.splits)

text \<open>
  The gate is closed once a status has been written, when the conditions on the object were the
  operator's own.
\<close>

lemma updated_status_settled:
  assumes up: "updated_status old desired s = (new, s')"
    and dis: "distinct (map cond_Type (st_Conditions old))"
    and own: "cond_Type ` set (st_Conditions old) \<subseteq> cond_Type ` set (st_Conditions desired)"
    and dd: "distinct (map cond_Type (st_Conditions desired))"
  shows "\<not> needsUpdate new desired"
proof -
  obtain conds where ups: "op_upserts (st_Conditions old) (st_Conditions desired) s = (conds, s')"
      and new: "st_Conditions new = conds" "st_ObservedGeneration new = st_ObservedGeneration desired"
        "st_EffectiveTenantId new = st_EffectiveTenantId desired"
        "st_ContributingPeers new = st_ContributingPeers desired"
    using up by (auto simp: updated_status_def split: prod.splits)
  have dc: "distinct (map cond_Type conds)" by (rule distinct_op_upserts[OF ups dis])
  have "set (map cond_Type conds) = set (map cond_Type (st_Conditions desired))"
    using types_op_upserts[OF ups] own by auto
  then have len: "length conds = length (st_Conditions desired)"
    using dc dd by (metis distinct_card length_map)
  have "\<not> conditionsChanged conds (st_Conditions desired)"
    using op_upserts_settled[OF ups dd] by (simp add: conditionsChanged_iff[OF dc] len)
  then show ?thesis by (simp add: needsUpdate_def new peersChanged_iff)
qed

text \<open>
  A condition of a foreign type keeps the gate open for ever: the number of conditions then
  never agrees with the number of desired ones.
\<close>

lemma foreign_condition_needs_update:
  "length (st_Conditions old) \<noteq> length (st_Conditions desired) \<Longrightarrow> needsUpdate old desired"
  by (simp add: needsUpdate_def conditionsChanged_def)

section \<open>Specification of a reconcile\<close>

text \<open>The envelope of a custom resource, without the counting.\<close>

definition effective_tenant :: "TenantOverride \<Rightarrow> string" where
  "effective_tenant cr =
     (if spec_TenantId (cr_Spec cr) = [] then cr_Namespace cr else spec_TenantId (cr_Spec cr))"

definition override_of :: "TenantOverride \<Rightarrow> anymap \<Rightarrow> Override" where
  "override_of cr raw = \<lparr>ov_Namespace = cr_Namespace cr, ov_Name = cr_Name cr,
     ov_TenantId = effective_tenant cr, ov_Weight = spec_Weight (cr_Spec cr), ov_Overrides = raw\<rparr>"

definition spec_envelope :: "libs \<Rightarrow> (anymap \<Rightarrow> go_error option) \<Rightarrow> TenantOverride \<Rightarrow> crEnvelope" where
  "spec_envelope lib validate cr =
     (case unmarshalRawExtension lib (spec_Overrides (cr_Spec cr)) of
        Inl err \<Rightarrow> \<lparr>env_CR = cr, env_Effective = effective_tenant cr,
                    env_Override = override_of cr [], env_ValidErr = Some err\<rparr>
      | Inr raw \<Rightarrow> \<lparr>env_CR = cr, env_Effective = effective_tenant cr,
                    env_Override = override_of cr raw, env_ValidErr = validate raw\<rparr>)"

definition valid_overrides :: "crEnvelope list \<Rightarrow> Override list" where
  "valid_overrides envs = map env_Override (filter (\<lambda>e. env_ValidErr e = None) envs)"

lemma valid_overrides_simps [simp]:
  "valid_overrides [] = []"
  "valid_overrides (e # es) =
     (if env_ValidErr e = None then env_Override e # valid_overrides es else valid_overrides es)"
  by (simp_all add: valid_overrides_def)

text \<open>
  What a tenant contributes to the output: the merge of its valid contributions in layer order,
  if that is valid itself.
\<close>

definition spec_tenant :: "(anymap \<Rightarrow> go_error option) \<Rightarrow> Override list \<Rightarrow> string \<Rightarrow> anymap option" where
  "spec_tenant validate valid t =
     (if layers valid t = [] then None
      else let merged = merge_overrides [] (layers valid t) in
        if validate merged = None then Some merged else None)"

lemma SortGroup_Nil_iff [simp]: "SortGroup g = [] \<longleftrightarrow> g = []"
  using sort_group.srt_length[of g] by auto

definition spec_valid :: "libs \<Rightarrow> (anymap \<Rightarrow> go_error option) \<Rightarrow> TenantOverride list \<Rightarrow> Override list" where
  "spec_valid lib validate crs = valid_overrides (map (spec_envelope lib validate) crs)"

lemma spec_envelope_simps [simp]:
  "env_CR (spec_envelope lib validate cr) = cr"
  "env_Effective (spec_envelope lib validate cr) = effective_tenant cr"
  "override_id (env_Override (spec_envelope lib validate cr)) = cr_id cr"
  "ov_TenantId (env_Override (spec_envelope lib validate cr)) = effective_tenant cr"
  "ov_Weight (env_Override (spec_envelope lib validate cr)) = spec_Weight (cr_Spec cr)"
  "ov_Namespace (env_Override (spec_envelope lib validate cr)) = cr_Namespace cr"
  "ov_Name (env_Override (spec_envelope lib validate cr)) = cr_Name cr"
  by (simp_all add: spec_envelope_def override_of_def override_id_def cr_id_def split: sum.split)

lemma spec_valid_member:
  "ov \<in> set (spec_valid lib validate crs) \<longleftrightarrow>
     (\<exists>cr \<in> set crs. \<exists>raw. unmarshalRawExtension lib (spec_Overrides (cr_Spec cr)) = Inr raw \<and>
        validate raw = None \<and> ov = override_of cr raw)"
  by (induction crs) (auto simp: spec_valid_def spec_envelope_def split: sum.split)

lemma spec_valid_perm:
  "mset crs = mset crs' \<Longrightarrow> mset (spec_valid lib validate crs) = mset (spec_valid lib validate crs')"
  by (simp add: spec_valid_def valid_overrides_def)

text \<open>Objects of one kind have distinct names, and then so have their contributions.\<close>

definition distinct_crs :: "TenantOverride list \<Rightarrow> bool" where
  "distinct_crs crs \<longleftrightarrow> distinct (map cr_id crs)"

lemma spec_valid_distinct: "distinct_crs crs \<Longrightarrow> distinct_ids (spec_valid lib validate crs)"
proof (induction crs)
  case (Cons cr crs)
  then have IH: "distinct_ids (spec_valid lib validate crs)" and new: "cr_id cr \<notin> cr_id ` set crs"
    by (simp_all add: distinct_crs_def)
  have "override_id ` set (spec_valid lib validate crs) \<subseteq> cr_id ` set crs"
    by (auto simp: spec_valid_member override_of_def override_id_def cr_id_def)
  with IH new show ?case by (auto simp: spec_valid_def distinct_ids_def)
qed (simp add: spec_valid_def distinct_ids_def)

lemma spec_tenant_perm:
  assumes "mset valid = mset valid'" and "distinct_ids valid"
  shows "spec_tenant validate valid = spec_tenant validate valid'"
  by (rule ext) (simp add: spec_tenant_def layers_perm[OF assms])

lemma spec_tenant_ok:
  assumes "\<forall>ov \<in> set valid. map_ok (ov_Overrides ov)" and "spec_tenant validate valid t = Some m"
  shows "map_ok m"
proof -
  have "map_ok acc \<Longrightarrow> \<forall>ov \<in> set crs. map_ok (ov_Overrides ov) \<Longrightarrow> map_ok (merge_overrides acc crs)" for acc crs
    by (induction crs arbitrary: acc) (auto simp: merge_overrides_def map_ok_merge_into)
  moreover have "\<forall>ov \<in> set (layers valid t). map_ok (ov_Overrides ov)"
    using assms(1) by (auto simp: set_layers)
  ultimately show ?thesis
    using assms(2) by (auto simp: spec_tenant_def Let_def split: if_splits)
qed

text \<open>The status a custom resource should get, on the model of \<open>computeDesiredStatus\<close>.\<close>

definition applied_message :: "NamespacedName \<Rightarrow> apply_result \<Rightarrow> int32 \<Rightarrow> string" where
  "applied_message cm res w =
     ''Contributed to ConfigMap '' @ nn_Namespace cm @ ''/'' @ nn_Name cm @
     '' generation '' @ show_int (sint (res_Generation res)) @
     '' at weight '' @ show_int (sint w) @
     '' (output hash sha256:'' @ res_Hash res @ '')''"

definition mk_condition :: "string \<Rightarrow> string \<Rightarrow> string \<Rightarrow> string \<Rightarrow> Condition" where
  "mk_condition ty status reason msg = \<lparr>cond_Type = ty, cond_Status = status,
     cond_ObservedGeneration = 0, cond_LastTransitionTime = zero_time, cond_Reason = reason,
     cond_Message = msg\<rparr>"

lemma mk_condition_simps [simp]:
  "cond_Type (mk_condition ty st r m) = ty" "cond_Status (mk_condition ty st r m) = st"
  "cond_Reason (mk_condition ty st r m) = r" "cond_Message (mk_condition ty st r m) = m"
  by (simp_all add: mk_condition_def)

text \<open>\<open>lookupCR\<close> and the envelopes: an object is found under its own name.\<close>

definition conflict_message :: "string \<Rightarrow> FieldConflict \<Rightarrow> string \<Rightarrow> string" where
  "conflict_message field fc tenant =
     ''field '' @ strconv_Quote field @ '' overridden by '' @ ref_Namespace (fc_Winner fc) @ ''/'' @
     ref_Name (fc_Winner fc) @ '' (weight='' @ show_int (sint (ref_Weight (fc_Winner fc))) @
     '') for tenant '' @ strconv_Quote tenant"

definition status_local :: "(TenantOverride \<Rightarrow> 'w \<Rightarrow> go_error option \<times> 'w) \<Rightarrow> 'w client \<Rightarrow> bool" where
  "status_local update c \<longleftrightarrow>
     (\<forall>cr w err w' n. update cr w = (err, w') \<longrightarrow> cl_GetConfigMap c n w' = cl_GetConfigMap c n w)"

text \<open>A change of the metrics only.\<close>

definition only_metrics :: "'w op \<Rightarrow> 'w op \<Rightarrow> bool" where
  "only_metrics s s' \<longleftrightarrow> op_cluster s' = op_cluster s \<and> op_hashes s' = op_hashes s \<and>
     op_events s' = op_events s \<and> op_clock s' = op_clock s"

lemma only_metrics_refl [simp]: "only_metrics s s"
  by (simp add: only_metrics_def)

lemma only_metrics_Inc [simp]: "only_metrics s (op_Inc c ls s') = only_metrics s s'"
  "only_metrics (op_Inc c ls s) s' = only_metrics s s'"
  by (simp_all add: only_metrics_def)

text \<open>The counting that goes with \<open>spec_envelope\<close>.\<close>

definition count_invalid ::
  "string \<Rightarrow> libs \<Rightarrow> (anymap \<Rightarrow> go_error option) \<Rightarrow> TenantOverride \<Rightarrow> 'w op \<Rightarrow> 'w op" where
  "count_invalid label lib validate cr s =
     (case unmarshalRawExtension lib (spec_Overrides (cr_Spec cr)) of
        Inl err \<Rightarrow> op_Inc ValidationErrorsTotal [label, effective_tenant cr, ''decode_failed''] s
      | Inr raw \<Rightarrow>
          (case validate raw of
             Some err \<Rightarrow>
               op_Inc ValidationErrorsTotal [label, effective_tenant cr, ''upstream_validate_failed''] s
           | None \<Rightarrow> s))"

lemma only_metrics_count [simp]: "only_metrics s (count_invalid label lib validate cr s') = only_metrics s s'"
  by (simp add: count_invalid_def split: sum.split option.split)

lemma only_metrics_counts:
  "only_metrics s s' \<Longrightarrow> only_metrics s (foldl (\<lambda>s cr. count_invalid label lib validate cr s) s' crs)"
  by (induction crs arbitrary: s') simp_all

text \<open>The status a custom resource should get after an apply with the result \<open>res\<close>.\<close>

definition spec_status ::
  "NamespacedName \<Rightarrow> crEnvelope \<Rightarrow> Override list \<Rightarrow> apply_result \<Rightarrow> TenantOverrideStatus" where
  "spec_status cm e valid res =
     \<lparr>st_ObservedGeneration = cr_Generation (env_CR e), st_EffectiveTenantId = env_Effective e,
      st_Conditions =
        (case env_ValidErr e of
           None \<Rightarrow>
             [mk_condition ConditionValidated ConditionTrue ReasonValidationSucceeded
                ''parsed strictly and passed upstream Validate()'',
              mk_condition ConditionApplied ConditionTrue ReasonWrittenToConfigMap
                (applied_message cm res (ov_Weight (env_Override e)))]
         | Some err \<Rightarrow>
             [mk_condition ConditionValidated ConditionFalse ReasonValidationFailed (Error err),
              mk_condition ConditionApplied ConditionFalse ReasonValidationFailed
                ''skipped from merge due to Validated=False'']),
      st_ContributingPeers =
        (case env_ValidErr e of None \<Rightarrow> computePeers (env_Override e) valid | Some err \<Rightarrow> [])\<rparr>"

lemma spec_status_types:
  "map cond_Type (st_Conditions (spec_status cm e valid res)) = [ConditionValidated, ConditionApplied]"
  by (simp add: spec_status_def split: option.split)

lemma spec_status_distinct: "distinct (map cond_Type (st_Conditions (spec_status cm e valid res)))"
  by (simp add: spec_status_types vocabulary)

text \<open>The whole output of a reconcile, tenant by tenant.\<close>

definition spec_output :: "(anymap \<Rightarrow> go_error option) \<Rightarrow> Override list \<Rightarrow> Output" where
  "spec_output validate valid =
     concat (map (\<lambda>t. case spec_tenant validate valid t of None \<Rightarrow> [] | Some m \<Rightarrow> [(t, m)])
       (remdups (map ov_TenantId valid)))"

lemma map_of_choice:
  "distinct ts \<Longrightarrow> map_of (concat (map (\<lambda>t. case f t of None \<Rightarrow> [] | Some m \<Rightarrow> [(t, m)]) ts)) t =
     (if t \<in> set ts then f t else None)"
  by (induction ts) (auto simp: map_add_def split: option.splits)

lemma spec_tenant_absent: "t \<notin> ov_TenantId ` set valid \<Longrightarrow> spec_tenant validate valid t = None"
proof -
  assume "t \<notin> ov_TenantId ` set valid"
  then have "set (layers valid t) = {}" unfolding set_layers by auto
  then have "layers valid t = []" by simp
  then show ?thesis by (simp add: spec_tenant_def)
qed

lemma map_of_spec_output: "map_of (spec_output validate valid) t = spec_tenant validate valid t"
  by (simp add: spec_output_def map_of_choice spec_tenant_absent)

lemma gomap_ok_choice:
  "distinct ts \<Longrightarrow> gomap_ok (concat (map (\<lambda>t. case f t of None \<Rightarrow> [] | Some m \<Rightarrow> [(t, m)]) ts))"
proof (induction ts)
  case (Cons t ts)
  then show ?case by (auto simp: map_of_choice split: option.split)
qed simp

lemma gomap_ok_spec_output: "gomap_ok (spec_output validate valid)"
  by (simp add: spec_output_def gomap_ok_choice)

lemma spec_output_unique:
  "gomap_ok out \<Longrightarrow> map_of out = spec_tenant validate valid \<Longrightarrow> mset out = mset (spec_output validate valid)"
  by (rule gomap_eq_perm) (auto simp: gomap_ok_spec_output map_of_spec_output)

lemma find_Some_set: "find P xs = Some x \<Longrightarrow> x \<in> set xs"
  by (induction xs) (auto split: if_splits)

text \<open>Every leaf of the output is the leaf of a valid contribution to the tenant.\<close>

lemma spec_output_values:
  assumes "map_of (spec_output validate (spec_valid lib validate crs)) t = Some m"
    and "decodes_maps lib"
  shows "validate m = None \<and>
    (\<forall>p v. p \<noteq> [] \<and> leaf_at p (Obj m) = Some v \<longrightarrow>
       (\<exists>cr raw. cr \<in> set crs \<and> effective_tenant cr = t \<and>
          unmarshalRawExtension lib (spec_Overrides (cr_Spec cr)) = Inr raw \<and> validate raw = None \<and>
          leaf_at p (Obj raw) = Some v))"
proof -
  let ?valid = "spec_valid lib validate crs"
  have m: "m = merge_overrides [] (layers ?valid t)" and ok: "validate m = None"
    using assms(1) by (auto simp: map_of_spec_output spec_tenant_def Let_def split: if_splits)
  have maps: "\<forall>s \<in> set (map ov_Overrides (layers ?valid t)). map_ok s"
    using unmarshal_ok[OF assms(2)] by (auto simp: set_layers spec_valid_member override_of_def)
  have "\<exists>cr raw. cr \<in> set crs \<and> effective_tenant cr = t \<and>
      unmarshalRawExtension lib (spec_Overrides (cr_Spec cr)) = Inr raw \<and> validate raw = None \<and>
      leaf_at p (Obj raw) = Some v"
    if p: "p \<noteq> []" and leaf: "leaf_at p (Obj m) = Some v" for p v
  proof -
    have "leaf_at p (Obj []) = None" using p by (cases p) simp_all
    then obtain src where src: "find (\<lambda>s. touches p (Obj s)) (rev (map ov_Overrides (layers ?valid t))) = Some src"
        "leaf_at p (Obj src) = Some v"
      using leaf leaf_at_merge_all[OF maps p, of "[]"]
      by (auto simp: m merge_overrides_def split: option.splits)
    from src(1) have "src \<in> set (rev (map ov_Overrides (layers ?valid t)))"
      by (rule find_Some_set)
    then show ?thesis using src(2)
      by (auto simp: set_layers spec_valid_member override_of_def effective_tenant_def)
  qed
  with ok show ?thesis by blast
qed

text \<open>The rendered body does not depend on the order in which the contributions are listed.\<close>

definition spec_body :: "libs \<Rightarrow> (anymap \<Rightarrow> go_error option) \<Rightarrow> TenantOverride list \<Rightarrow> go_error + string" where
  "spec_body lib validate crs =
     Render (lib_Encoder lib) (spec_output validate (spec_valid lib validate crs))"

lemma spec_body_perm:
  assumes "mset crs = mset crs'" and "distinct_crs crs"
  shows "spec_body lib validate crs = spec_body lib validate crs'"
proof -
  have "spec_tenant validate (spec_valid lib validate crs) = spec_tenant validate (spec_valid lib validate crs')"
    by (rule spec_tenant_perm[OF spec_valid_perm[OF assms(1)] spec_valid_distinct[OF assms(2)]])
  then have "mset (spec_output validate (spec_valid lib validate crs)) =
      mset (spec_output validate (spec_valid lib validate crs'))"
    by (intro spec_output_unique gomap_ok_spec_output) (auto simp: map_of_spec_output)
  then show ?thesis
    unfolding spec_body_def by (rule Render_perm) (rule gomap_ok_spec_output)
qed

section \<open>Events for the losers of conflicts\<close>

text \<open>The object of an envelope with the given name, as an event's target.\<close>

definition spec_lookup :: "crEnvelope list \<Rightarrow> string \<Rightarrow> string \<Rightarrow> TenantOverride option" where
  "spec_lookup envs namespace name =
     map_option env_CR (find (\<lambda>e. cr_id (env_CR e) = NamespacedName namespace name) envs)"

definition loser_event :: "crEnvelope list \<Rightarrow> string \<Rightarrow> FieldConflict \<Rightarrow> CRRef \<Rightarrow> event list" where
  "loser_event envs tenant fc l =
     (case spec_lookup envs (ref_Namespace l) (ref_Name l) of
        None \<Rightarrow> []
      | Some cr \<Rightarrow> [\<lparr>ev_Object = cr_id cr, ev_Type = EventTypeNormal, ev_Reason = ''FieldOverridden'',
          ev_Message = conflict_message (strings_Join (fc_Path fc) ''.'') fc tenant\<rparr>])"

definition loser_events :: "crEnvelope list \<Rightarrow> string \<Rightarrow> FieldConflict \<Rightarrow> event list" where
  "loser_events envs tenant fc = concat (map (loser_event envs tenant fc) (fc_Losers fc))"

definition conflict_events :: "crEnvelope list \<Rightarrow> FieldConflict list gomap \<Rightarrow> event list" where
  "conflict_events envs cs =
     concat (map (\<lambda>(tenant, fcs). concat (map (loser_events envs tenant) fcs)) cs)"

text \<open>The counting that goes with the events: one increment for each conflict of equal weights.\<close>

definition conflict_metrics :: "string \<Rightarrow> FieldConflict list gomap \<Rightarrow> metrics \<Rightarrow> metrics" where
  "conflict_metrics label cs m =
     foldl (\<lambda>m (tenant, fcs). foldl (\<lambda>m fc. if fc_SameWeight fc
       then Inc FieldConflictsTotal [label, tenant, strings_Join (fc_Path fc) ''.''] m else m) m fcs) m cs"

text \<open>Every contribution's reference leads back to its custom resource.\<close>

lemma spec_lookup_self:
  assumes "distinct_crs crs" and "cr \<in> set crs"
  shows "spec_lookup (map (spec_envelope lib validate) crs) (cr_Namespace cr) (cr_Name cr) = Some cr"
  using assms
proof (induction crs)
  case (Cons c crs)
  show ?case
  proof (cases "c = cr")
    case True
    then show ?thesis by (simp add: spec_lookup_def cr_id_def)
  next
    case False
    then have "cr \<in> set crs" using Cons.prems(2) by simp
    then have "cr_id c \<noteq> cr_id cr" using Cons.prems(1) by (auto simp: distinct_crs_def)
    then have "cr_id c \<noteq> NamespacedName (cr_Namespace cr) (cr_Name cr)" by (simp add: cr_id_def)
    then show ?thesis using Cons.IH Cons.prems \<open>cr \<in> set crs\<close> by (simp add: spec_lookup_def distinct_crs_def)
  qed
qed simp

text \<open>Every loser is among the listed objects.\<close>

definition losers_known :: "TenantOverride list \<Rightarrow> FieldConflict \<Rightarrow> bool" where
  "losers_known crs fc \<longleftrightarrow>
     (\<forall>l \<in> set (fc_Losers fc). \<exists>cr \<in> set crs. ref_Namespace l = cr_Namespace cr \<and> ref_Name l = cr_Name cr)"

definition ref_id :: "CRRef \<Rightarrow> NamespacedName" where
  "ref_id l = NamespacedName (ref_Namespace l) (ref_Name l)"

end
