(* ===== verification/Target_Reconciler.thy ===== *)
theory Target_Reconciler
  imports Reconcile_Base
begin

text \<open>
  The contract that the Loki and the Mimir reconciler share: each stage of a reconcile, and how
  the stages are composed, up to the label, the list call and the status call of the target. What
  follows from the contract is proved here once; each controller's theory interprets the locale
  on its own definitions.
\<close>

locale target_reconciler =
  fixes label :: string
    and list_crs :: "'w client \<Rightarrow> 'w \<Rightarrow> go_error + TenantOverride list"
    and list_err :: string
    and update_cr :: "'w client \<Rightarrow> TenantOverride \<Rightarrow> 'w \<Rightarrow> go_error option \<times> 'w"
    and checkDrift :: "'w target_struct \<Rightarrow> 'w op \<Rightarrow> bool \<times> string"
    and gather :: "libs \<Rightarrow> 'w target_struct \<Rightarrow> 'w op \<Rightarrow> (go_error + crEnvelope list) \<times> 'w op"
    and merge_groups :: "'w target_struct \<Rightarrow> Override list gomap \<Rightarrow> Output \<Rightarrow> FieldConflict list gomap \<Rightarrow>
      'w op \<Rightarrow> (Output \<times> FieldConflict list gomap) outcome \<times> 'w op"
    and emit :: "'w target_struct \<Rightarrow> crEnvelope list \<Rightarrow> FieldConflict list gomap \<Rightarrow> 'w op \<Rightarrow> 'w op"
    and update_one :: "'w target_struct \<Rightarrow> crEnvelope \<Rightarrow> Override list \<Rightarrow> apply_result \<Rightarrow> 'w op \<Rightarrow> bool \<times> 'w op"
    and update_all :: "'w target_struct \<Rightarrow> crEnvelope list \<Rightarrow> Override list \<Rightarrow> apply_result \<Rightarrow> bool \<Rightarrow>
      'w op \<Rightarrow> bool \<times> 'w op"
    and finish :: "schedule \<Rightarrow> 'w target_struct \<Rightarrow> bool \<times> string \<Rightarrow> crEnvelope list \<Rightarrow> Override list \<Rightarrow>
      Output \<Rightarrow> FieldConflict list gomap \<Rightarrow> apply_result \<Rightarrow> 'w op \<Rightarrow> reconcile_end \<times> 'w op"
    and publish :: "libs \<Rightarrow> schedule \<Rightarrow> 'w target_struct \<Rightarrow> bool \<times> string \<Rightarrow> crEnvelope list \<Rightarrow>
      Override list \<Rightarrow> Output \<Rightarrow> FieldConflict list gomap \<Rightarrow> 'w op \<Rightarrow> reconcile_end \<times> 'w op"
    and Reconcile :: "libs \<Rightarrow> schedule \<Rightarrow> 'w target_struct \<Rightarrow> 'w op \<Rightarrow> reconcile_end \<times> 'w op"
  assumes checkDrift_eq: "checkDrift r s =
     (if \<not> r_HashCache r then (False, [])
      else case HashCache_Get (op_hashes s) label of
        None \<Rightarrow> (False, [])
      | Some h \<Rightarrow>
          (case cl_GetConfigMap (r_Client r) (r_OutputCM r) (op_cluster s) of
             Inl err \<Rightarrow> (False, [])
           | Inr live \<Rightarrow> if Hash (cm_body DataKey live) = h then (False, [])
               else (True, extractConflictingFieldManager (Some live) FieldManager)))"
    and gather_eq: "gather lib r s =
     (case list_crs (r_Client r) (op_cluster s) of
        Inl err \<Rightarrow> (Inl (ErrWrap list_err err), s)
      | Inr items \<Rightarrow> (Inr (map (spec_envelope lib (v_Validate (r_Validator r))) items),
          foldl (\<lambda>s cr. count_invalid label lib (v_Validate (r_Validator r)) cr s) s items))"
    and merge_groups_Nil: "merge_groups r [] out cs s = (Done (out, cs), s)"
    and merge_groups_Cons: "merge_groups r ((t, g) # gs) out cs s =
     (case TrackingMerge t (SortGroup g) of
        Panic msg \<Rightarrow> (Panic msg, s)
      | Done (merged, conflicts) \<Rightarrow>
          (case v_Validate (r_Validator r) merged of
             Some err \<Rightarrow> merge_groups r gs out cs
               (op_Inc ValidationErrorsTotal [label, t, ''merged_result_invalid''] s)
           | None \<Rightarrow> merge_groups r gs (gomap_put t merged out) (gomap_put t conflicts cs) s))"
    and emit_keeps: "op_cluster (emit r envs cs s) = op_cluster s \<and>
      op_hashes (emit r envs cs s) = op_hashes s \<and> op_clock (emit r envs cs s) = op_clock s"
    and emit_events: "op_events (emit r envs cs s) =
      op_events s @ (if r_Recorder r then conflict_events envs cs else [])"
    and update_one_eq: "update_one r e valid res s =
     (let desired = spec_status (r_OutputCM r) e valid res in
      if \<not> needsUpdate (cr_Status (env_CR e)) desired then (False, s)
      else
        let (st, s1) = updated_status (cr_Status (env_CR e)) desired s;
            (err, w) = update_cr (r_Client r) ((env_CR e)\<lparr>cr_Status := st\<rparr>) (op_cluster s1);
            s2 = op_SetCluster w s1
        in (case err of None \<Rightarrow> False | Some err \<Rightarrow> IsConflict err, s2))"
    and update_all_Nil: "update_all r [] valid res hit s = (hit, s)"
    and update_all_Cons: "update_all r (e # envs) valid res hit s =
     (let (h, s1) = update_one r e valid res s in update_all r envs valid res (hit \<or> h) s1)"
    and finish_eq: "finish sch r drift envs valid out cs res s =
     (let s1 = op_Inc ReconcileTotal [label,
                 result_label (if res_Skipped res then ResultNoop else ResultSuccess)] s;
          s2 = (if r_HashCache r then op_SetHash label (res_Hash res) s1 else s1);
          s3 = (if fst drift \<and> r_Recorder r
                then (case cl_GetConfigMap (r_Client r) (r_OutputCM r) (op_cluster s2) of
                        Inr live \<Rightarrow> op_Event (cm_id live) EventTypeWarning ''ConfigMapDrifted''
                          (''third-party write reverted (field manager: '' @ snd drift @ '')'') s2
                      | Inl err \<Rightarrow> s2)
                else s2);
          s4 = op_SetGauge ActiveCRs [label] (int (length envs)) s3;
          s5 = op_SetGauge ActiveTenants [label] (int (length out)) s4;
          (now, s6) = Now s5;
          s7 = op_SetGauge LastReconcileTimestamp [label] ((now - unix_epoch) div 1000000000) s6;
          (hit, s8) = update_all r envs valid res False (emit r envs (sch_conflicts sch cs) s7)
      in (Returned (if hit then statusConflictRequeueDelay else 0) None, s8))"
    and publish_eq: "publish lib sch r drift envs valid out cs s =
     (case Render (lib_Encoder lib) out of
        Inl err \<Rightarrow> (Returned 0 (Some (ErrWrap ''render'' err)),
          op_Inc ReconcileTotal [label, result_label ResultWriteFailed] s)
      | Inr body \<Rightarrow>
          (let s1 = op_SetGauge OutputSizeBytes [label] (int (length body)) s in
           case apply_ConfigMap (r_Client r) (r_OutputCM r) body (op_cluster s1) of
             (Inl err, w) \<Rightarrow> (Returned 0 (Some (ErrWrap ''apply'' err)),
                op_Inc ReconcileTotal [label, result_label ResultWriteFailed] (op_SetCluster w s1))
           | (Inr res, w) \<Rightarrow> finish sch r drift envs valid out cs res (op_SetCluster w s1)))"
    and Reconcile_eq: "Reconcile lib sch r s =
     (let drift = checkDrift r s;
          s1 = (if fst drift then op_Inc OutputDriftTotal [label, snd drift] s else s)
      in case gather lib r s1 of
           (Inl err, s2) \<Rightarrow> (Returned 0 (Some err),
              op_Inc ReconcileTotal [label, result_label ResultWriteFailed] s2)
         | (Inr envs, s2) \<Rightarrow>
             (case merge_groups r (sch_groups sch (GroupByTenant (valid_overrides envs))) [] [] s2 of
                (Panic msg, s3) \<Rightarrow> (Panicked msg, s3)
              | (Done (out, cs), s3) \<Rightarrow> publish lib sch r drift envs (valid_overrides envs) out cs s3))"
    and emit_metrics: "op_metrics (emit r envs cs s) = conflict_metrics label cs (op_metrics s)"
begin

section \<open>The output\<close>

lemma merged_is: "TrackingMerge t g = Done (m, conflicts) \<Longrightarrow> m = merge_overrides [] g"
  by (erule TrackingMerge_Done)

lemma merge_groups_step:
  assumes "merge_groups r ((u, g) # gs) out cs s = (Done (out', cs'), s')"
  obtains out1 cs1 s1 where "merge_groups r gs out1 cs1 s1 = (Done (out', cs'), s')"
    and "out1 = (if v_Validate (r_Validator r) (merge_overrides [] (SortGroup g)) = None
      then gomap_put u (merge_overrides [] (SortGroup g)) out else out)"
proof (cases "TrackingMerge u (SortGroup g)")
  case (Done mc)
  obtain m conflicts where mc: "mc = (m, conflicts)" by fastforce
  then have m: "m = merge_overrides [] (SortGroup g)" using Done merged_is by simp
  show ?thesis
    using assms that by (cases "v_Validate (r_Validator r) m") (auto simp: merge_groups_Cons Done mc m)
next
  case (Panic msg)
  then show ?thesis using assms by (simp add: merge_groups_Cons)
qed

lemma merge_groups_spec:
  assumes "merge_groups r gs out cs s = (Done (out', cs'), s')" and "gomap_ok gs" and "gomap_ok out"
  shows "gomap_ok out' \<and> map_of out' t = (case map_of gs t of
      None \<Rightarrow> map_of out t
    | Some g \<Rightarrow> if v_Validate (r_Validator r) (merge_overrides [] (SortGroup g)) = None
        then Some (merge_overrides [] (SortGroup g)) else map_of out t)"
  using assms
proof (induction gs arbitrary: out cs s)
  case Nil
  then show ?case by (simp add: merge_groups_Nil)
next
  case (Cons tg gs)
  obtain u g where tg: "tg = (u, g)" by fastforce
  obtain out1 cs1 s1 where rest: "merge_groups r gs out1 cs1 s1 = (Done (out', cs'), s')"
      and out1: "out1 = (if v_Validate (r_Validator r) (merge_overrides [] (SortGroup g)) = None
        then gomap_put u (merge_overrides [] (SortGroup g)) out else out)"
    using Cons.prems(1) unfolding tg by (rule merge_groups_step)
  have "gomap_ok out1" using Cons.prems(3) by (simp add: out1)
  with Cons.IH[OF rest] Cons.prems(2) show ?case
    by (auto simp: tg out1 split: option.split if_splits)
qed

lemma merge_groups_metrics: "merge_groups r gs out cs s = (res, s') \<Longrightarrow> only_metrics s s'"
proof (induction gs arbitrary: out cs s)
  case (Cons tg gs)
  then show ?case
    by (cases tg) (fastforce simp: merge_groups_Cons split: outcome.splits option.splits)
qed (simp add: merge_groups_Nil)

text \<open>Merging never panics when the values at the leaves can be compared.\<close>

lemma merge_groups_plain:
  assumes "\<forall>(t, g) \<in> set gs. \<forall>ov \<in> set g. plain_leaves (ov_Overrides ov)"
  shows "\<exists>out' cs' s'. merge_groups r gs out cs s = (Done (out', cs'), s')"
  using assms
proof (induction gs arbitrary: out cs s)
  case (Cons tg gs)
  obtain u g where tg: "tg = (u, g)" by fastforce
  have "\<forall>ov \<in> set (SortGroup g). plain_leaves (ov_Overrides ov)"
    using Cons.prems by (simp add: tg sort_group.srt_set)
  then obtain cs1 where "TrackingMerge u (SortGroup g) = Done (merge_overrides [] (SortGroup g), cs1)"
    using TrackingMerge_plain by blast
  then show ?case
    using Cons.IH Cons.prems by (simp add: tg merge_groups_Cons split: option.split)
qed (simp add: merge_groups_Nil)

lemma output_spec:
  assumes "fair sch"
    and "merge_groups r (sch_groups sch (GroupByTenant valid)) [] [] s = (Done (out, cs), s')"
  shows "mset out = mset (spec_output (v_Validate (r_Validator r)) valid)" and "gomap_ok out"
proof -
  let ?gs = "sch_groups sch (GroupByTenant valid)"
  have ms: "mset (GroupByTenant valid) = mset ?gs" using assms(1) by (simp add: fair_def)
  then have ok: "gomap_ok ?gs" and look: "map_of ?gs = map_of (GroupByTenant valid)"
    using gomap_ok_perm[OF ms] map_of_perm[OF ms] by simp_all
  note spec = merge_groups_spec[OF assms(2) ok gomap_ok_Nil]
  show out_ok: "gomap_ok out" using spec by blast
  have "map_of out t = spec_tenant (v_Validate (r_Validator r)) valid t" for t
    using spec[of t] by (auto simp: look map_of_GroupByTenant Let_def spec_tenant_def layers_def)
  then show "mset out = mset (spec_output (v_Validate (r_Validator r)) valid)"
    by (intro spec_output_unique out_ok) (simp add: fun_eq_iff)
qed

lemma output_body:
  assumes "fair sch"
    and "merge_groups r (sch_groups sch (GroupByTenant (spec_valid lib (v_Validate (r_Validator r)) items))) [] [] s
      = (Done (out, cs), s')"
  shows "Render (lib_Encoder lib) out = spec_body lib (v_Validate (r_Validator r)) items"
  unfolding spec_body_def by (rule Render_perm[OF output_spec[OF assms]])

section \<open>Gathering and status writes\<close>

abbreviation verdict :: "'w target_struct \<Rightarrow> anymap \<Rightarrow> go_error option" where
  "verdict r \<equiv> v_Validate (r_Validator r)"

lemma gather_Inr:
  assumes "gather lib r s = (Inr envs, s')"
  obtains items where "list_crs (r_Client r) (op_cluster s) = Inr items"
    and "envs = map (spec_envelope lib (verdict r)) items" and "only_metrics s s'"
  using assms only_metrics_counts[OF only_metrics_refl]
  by (force simp: gather_eq split: sum.splits)

text \<open>A status write leaves config maps, hashes, metrics and events alone.\<close>

definition unpublished :: "'w client \<Rightarrow> 'w op \<Rightarrow> 'w op \<Rightarrow> bool" where
  "unpublished c s s' \<longleftrightarrow>
     (\<forall>n. cl_GetConfigMap c n (op_cluster s') = cl_GetConfigMap c n (op_cluster s)) \<and>
     op_hashes s' = op_hashes s \<and> op_metrics s' = op_metrics s \<and> op_events s' = op_events s"

lemma unpublished_trans: "unpublished c s s' \<Longrightarrow> unpublished c s' s'' \<Longrightarrow> unpublished c s s''"
  by (simp add: unpublished_def)

lemma update_one_unpublished:
  assumes "status_local (update_cr (r_Client r)) c" and "update_one r e valid res s = (hit, s')"
  shows "unpublished c s s'"
proof (cases "needsUpdate (cr_Status (env_CR e)) (spec_status (r_OutputCM r) e valid res)")
  case False
  then show ?thesis using assms(2) by (simp add: update_one_eq unpublished_def)
next
  case True
  obtain st s1 where st: "updated_status (cr_Status (env_CR e)) (spec_status (r_OutputCM r) e valid res) s = (st, s1)"
    by fastforce
  obtain err w where up: "update_cr (r_Client r) ((env_CR e)\<lparr>cr_Status := st\<rparr>) (op_cluster s1) = (err, w)"
    by fastforce
  have s': "s' = op_SetCluster w s1"
    using assms(2) True by (simp add: update_one_eq st up)
  have "same_but_clock s s1"
    using st by (auto simp: updated_status_def split: prod.splits dest: op_upserts_clock)
  moreover have "cl_GetConfigMap c n w = cl_GetConfigMap c n (op_cluster s1)" for n
    using assms(1) up unfolding status_local_def by blast
  ultimately show ?thesis by (simp add: s' unpublished_def same_but_clock_def)
qed

lemma update_all_unpublished:
  assumes "status_local (update_cr (r_Client r)) c"
  shows "update_all r envs valid res hit s = (hit', s') \<Longrightarrow> unpublished c s s'"
proof (induction envs arbitrary: hit s)
  case Nil
  then show ?case by (simp add: update_all_Nil unpublished_def)
next
  case (Cons e envs)
  obtain h s1 where one: "update_one r e valid res s = (h, s1)" by fastforce
  then have "update_all r envs valid res (hit \<or> h) s1 = (hit', s')"
    using Cons.prems by (simp add: update_all_Cons)
  from Cons.IH[OF this] show ?case
    by (rule unpublished_trans[OF update_one_unpublished[OF assms one]])
qed

lemma update_one_events: "update_one r e valid res s = (hit, s') \<Longrightarrow> op_events s' = op_events s"
proof -
  assume up: "update_one r e valid res s = (hit, s')"
  obtain st s1 where st: "updated_status (cr_Status (env_CR e)) (spec_status (r_OutputCM r) e valid res) s = (st, s1)"
    by fastforce
  then have "same_but_clock s s1"
    by (auto simp: updated_status_def split: prod.splits dest: op_upserts_clock)
  with up show ?thesis
    by (auto simp: update_one_eq st same_but_clock_def Let_def split: prod.splits if_splits)
qed

lemma update_all_events: "update_all r envs valid res hit s = (hit', s') \<Longrightarrow> op_events s' = op_events s"
proof (induction envs arbitrary: hit s)
  case (Cons e envs)
  obtain h s1 where one: "update_one r e valid res s = (h, s1)" by fastforce
  then show ?case
    using Cons.IH[of "hit \<or> h" s1] Cons.prems update_one_events[OF one] by (simp add: update_all_Cons)
qed (simp add: update_all_Nil)

text \<open>Without a pending change there is no write at all.\<close>

lemma update_all_settled:
  "\<forall>e \<in> set envs. \<not> needsUpdate (cr_Status (env_CR e)) (spec_status (r_OutputCM r) e valid res) \<Longrightarrow>
     update_all r envs valid res hit s = (hit, s)"
  by (induction envs arbitrary: hit s) (simp_all add: update_all_Nil update_all_Cons update_one_eq)

section \<open>After the apply\<close>

lemma finish_state:
  assumes "finish sch r drift envs valid out cs res s = (e, s')"
  obtains s1 hit where "op_cluster s1 = op_cluster s"
    and "op_hashes s1 = (if r_HashCache r then HashCache_Set (op_hashes s) label (res_Hash res) else op_hashes s)"
    and "update_all r envs valid res False s1 = (hit, s')"
    and "e = Returned (if hit then statusConflictRequeueDelay else 0) None"
proof -
  let ?s1 = "op_Inc ReconcileTotal [label, result_label (if res_Skipped res then ResultNoop else ResultSuccess)] s"
  let ?s2 = "if r_HashCache r then op_SetHash label (res_Hash res) ?s1 else ?s1"
  let ?s3 = "if fst drift \<and> r_Recorder r
     then (case cl_GetConfigMap (r_Client r) (r_OutputCM r) (op_cluster ?s2) of
             Inr live \<Rightarrow> op_Event (cm_id live) EventTypeWarning ''ConfigMapDrifted''
               (''third-party write reverted (field manager: '' @ snd drift @ '')'') ?s2
           | Inl err \<Rightarrow> ?s2)
     else ?s2"
  let ?s5 = "op_SetGauge ActiveTenants [label] (int (length out))
     (op_SetGauge ActiveCRs [label] (int (length envs)) ?s3)"
  obtain now s6 where now: "Now ?s5 = (now, s6)" by fastforce
  let ?s7 = "op_SetGauge LastReconcileTimestamp [label] ((now - unix_epoch) div 1000000000) s6"
  obtain hit s8 where up: "update_all r envs valid res False (emit r envs (sch_conflicts sch cs) ?s7) = (hit, s8)"
    by fastforce
  have e: "e = Returned (if hit then statusConflictRequeueDelay else 0) None \<and> s' = s8"
    using assms unfolding finish_eq Let_def now prod.case up by simp
  have c3: "op_cluster ?s3 = op_cluster s" "op_hashes ?s3 = op_hashes ?s2"
    by (simp_all split: sum.split)
  have "op_cluster s6 = op_cluster s" "op_hashes s6 = op_hashes ?s2"
    using Now_frame(1,2)[OF now] c3 by simp_all
  then have "op_cluster (emit r envs (sch_conflicts sch cs) ?s7) = op_cluster s"
      "op_hashes (emit r envs (sch_conflicts sch cs) ?s7)
        = (if r_HashCache r then HashCache_Set (op_hashes s) label (res_Hash res) else op_hashes s)"
    using emit_keeps[of r envs "sch_conflicts sch cs" ?s7] by simp_all
  then show ?thesis using that up e by blast
qed

section \<open>Reconcile\<close>

text \<open>The ways a reconcile can end.\<close>

lemma Reconcile_cases:
  assumes "Reconcile lib sch r s = (e, s')" and "fair sch"
  obtains
    (list_failed) err s1 where "list_crs (r_Client r) (op_cluster s) = Inl err"
      and "e = Returned 0 (Some (ErrWrap list_err err))"
      and "s' = op_Inc ReconcileTotal [label, result_label ResultWriteFailed] s1" and "only_metrics s s1"
  | (panicked) msg items where "list_crs (r_Client r) (op_cluster s) = Inr items"
      and "e = Panicked msg" and "only_metrics s s'"
      and "\<not> (\<forall>ov \<in> set (spec_valid lib (verdict r) items). plain_leaves (ov_Overrides ov))"
  | (render_failed) err s1 items where "list_crs (r_Client r) (op_cluster s) = Inr items"
      and "spec_body lib (verdict r) items = Inl err"
      and "e = Returned 0 (Some (ErrWrap ''render'' err))"
      and "s' = op_Inc ReconcileTotal [label, result_label ResultWriteFailed] s1" and "only_metrics s s1"
  | (apply_failed) err s1 w items body where "list_crs (r_Client r) (op_cluster s) = Inr items"
      and "spec_body lib (verdict r) items = Inr body"
      and "apply_ConfigMap (r_Client r) (r_OutputCM r) body (op_cluster s) = (Inl err, w)"
      and "e = Returned 0 (Some (ErrWrap ''apply'' err))"
      and "s' = op_Inc ReconcileTotal [label, result_label ResultWriteFailed] (op_SetCluster w s1)"
      and "only_metrics s s1"
  | (applied) items body res w s1 hit where "list_crs (r_Client r) (op_cluster s) = Inr items"
      and "spec_body lib (verdict r) items = Inr body"
      and "apply_ConfigMap (r_Client r) (r_OutputCM r) body (op_cluster s) = (Inr res, w)"
      and "op_cluster s1 = w"
      and "op_hashes s1 = (if r_HashCache r then HashCache_Set (op_hashes s) label (res_Hash res) else op_hashes s)"
      and "update_all r (map (spec_envelope lib (verdict r)) items) (spec_valid lib (verdict r) items)
             res False s1 = (hit, s')"
      and "e = Returned (if hit then statusConflictRequeueDelay else 0) None"
proof -
  define s1 where "s1 = (if fst (checkDrift r s)
    then op_Inc OutputDriftTotal [label, snd (checkDrift r s)] s else s)"
  have m1: "only_metrics s s1" by (simp add: s1_def)
  then have c1: "op_cluster s1 = op_cluster s" by (simp add: only_metrics_def)
  note R = assms(1)[unfolded Reconcile_eq Let_def, folded s1_def]
  show ?thesis
  proof (cases "list_crs (r_Client r) (op_cluster s)")
    case (Inl err)
    then have "gather lib r s1 = (Inl (ErrWrap list_err err), s1)" by (simp add: gather_eq c1)
    then have "e = Returned 0 (Some (ErrWrap list_err err))"
        "s' = op_Inc ReconcileTotal [label, result_label ResultWriteFailed] s1"
      using R by simp_all
    then show ?thesis by (rule list_failed[OF Inl _ _ m1])
  next
    case (Inr items)
    let ?envs = "map (spec_envelope lib (verdict r)) items"
    let ?gs = "sch_groups sch (GroupByTenant (valid_overrides ?envs))"
    have valid: "valid_overrides ?envs = spec_valid lib (verdict r) items" by (simp add: spec_valid_def)
    define s2 where "s2 = foldl (\<lambda>s cr. count_invalid label lib (verdict r) cr s) s1 items"
    have g: "gather lib r s1 = (Inr ?envs, s2)" using Inr by (simp add: gather_eq c1 s2_def)
    have m2: "only_metrics s1 s2" unfolding s2_def by (rule only_metrics_counts[OF only_metrics_refl])
    obtain o3 s3 where mg: "merge_groups r ?gs [] [] s2 = (o3, s3)" by fastforce
    have m3: "only_metrics s s3"
      using m1 m2 merge_groups_metrics[OF mg] by (simp add: only_metrics_def)
    then have c3: "op_cluster s3 = op_cluster s" "op_hashes s3 = op_hashes s" by (simp_all add: only_metrics_def)
    show ?thesis
    proof (cases o3)
      case (Panic msg)
      have bad: "\<not> (\<forall>ov \<in> set (spec_valid lib (verdict r) items). plain_leaves (ov_Overrides ov))"
      proof
        assume plain: "\<forall>ov \<in> set (spec_valid lib (verdict r) items). plain_leaves (ov_Overrides ov)"
        have "set ?gs = set (GroupByTenant (valid_overrides ?envs))"
          using assms(2) by (metis fair_def set_mset_mset)
        then have "\<forall>(t, g) \<in> set ?gs. \<forall>ov \<in> set g. plain_leaves (ov_Overrides ov)"
          using plain by (auto simp: GroupByTenant_member valid)
        from merge_groups_plain[OF this] show False using mg Panic by (metis outcome.distinct(1) prod.inject)
      qed
      have "e = Panicked msg" "s' = s3" using R by (simp_all add: g mg Panic)
      then show ?thesis using panicked[OF Inr _ _ bad] m3 by simp
    next
      case (Done oc)
      obtain out cs where oc: "oc = (out, cs)" by fastforce
      have body: "Render (lib_Encoder lib) out = spec_body lib (verdict r) items"
        by (rule output_body[OF assms(2)]) (use mg Done oc valid in simp)
      have P: "publish lib sch r (checkDrift r s) ?envs (spec_valid lib (verdict r) items) out cs s3 = (e, s')"
        using R by (simp add: g mg[unfolded valid] Done oc valid)
      show ?thesis
      proof (cases "spec_body lib (verdict r) items")
        case (Inl err)
        then have "e = Returned 0 (Some (ErrWrap ''render'' err))"
            "s' = op_Inc ReconcileTotal [label, result_label ResultWriteFailed] s3"
          using P by (simp_all add: publish_eq body)
        then show ?thesis
          by (rule render_failed[OF \<open>list_crs (r_Client r) (op_cluster s) = Inr items\<close> Inl _ _ m3])
      next
        case (Inr b)
        note Pb = P[unfolded publish_eq body Inr sum.case Let_def]
        have mg3: "only_metrics s (op_SetGauge OutputSizeBytes [label] v s3)" for v
          using m3 by (simp add: only_metrics_def)
        obtain ra w where ap: "apply_ConfigMap (r_Client r) (r_OutputCM r) b (op_cluster s) = (ra, w)"
          by fastforce
        show ?thesis
        proof (cases ra)
          case (Inl err)
          then have "e = Returned 0 (Some (ErrWrap ''apply'' err))"
              "s' = op_Inc ReconcileTotal [label, result_label ResultWriteFailed]
                 (op_SetCluster w (op_SetGauge OutputSizeBytes [label] (int (length b)) s3))"
            using Pb by (simp_all add: c3 ap)
          then show ?thesis
            by (rule apply_failed[OF \<open>list_crs (r_Client r) (op_cluster s) = Inr items\<close>
                \<open>spec_body lib (verdict r) items = Inr b\<close> ap[unfolded Inl] _ _ mg3])
        next
          case (Inr res)
          have F: "finish sch r (checkDrift r s) ?envs (spec_valid lib (verdict r) items) out cs res
              (op_SetCluster w (op_SetGauge OutputSizeBytes [label] (int (length b)) s3)) = (e, s')"
            using Pb by (simp add: c3 ap Inr)
          show ?thesis
            by (rule finish_state[OF F])
              (rule applied[OF \<open>list_crs (r_Client r) (op_cluster s) = Inr items\<close>
                 \<open>spec_body lib (verdict r) items = Inr b\<close> ap[unfolded Inr]], auto simp: c3)
        qed
      qed
    qed
  qed
qed

text \<open>A reconcile that reports no error has published the body that the valid objects define.\<close>

lemma Reconcile_publishes:
  assumes "Reconcile lib sch r s = (Returned q None, s')" and "fair sch"
    and "apply_visible (r_Client r)" and "status_local (update_cr (r_Client r)) (r_Client r)"
  obtains items body where "list_crs (r_Client r) (op_cluster s) = Inr items"
    and "spec_body lib (verdict r) items = Inr body"
    and "holds_body (r_Client r) (r_OutputCM r) body (op_cluster s')"
    and "r_HashCache r \<Longrightarrow> HashCache_Get (op_hashes s') label = Some (Hash body)"
  using assms(1,2)
proof (cases rule: Reconcile_cases)
  case (applied items body res w s1 hit)
  have un: "unpublished (r_Client r) s1 s'"
    by (rule update_all_unpublished[OF assms(4) applied(6)])
  have "holds_body (r_Client r) (r_OutputCM r) body w"
    by (rule apply_establishes[OF assms(3) applied(3)])
  then have "holds_body (r_Client r) (r_OutputCM r) body (op_cluster s')"
    using un applied(4) by (simp add: holds_body_def unpublished_def)
  moreover have "HashCache_Get (op_hashes s') label = Some (Hash body)" if "r_HashCache r"
    using un applied(5) that apply_hash[OF applied(3)] by (simp add: unpublished_def hashes.lookup_put)
  ultimately show ?thesis using that applied(1,2) by blast
qed auto

text \<open>And the next drift check is silent.\<close>

lemma Reconcile_no_drift:
  assumes "Reconcile lib sch r s = (Returned q None, s')" and "fair sch"
    and "apply_visible (r_Client r)" and "status_local (update_cr (r_Client r)) (r_Client r)"
  shows "checkDrift r s' = (False, [])"
  by (rule Reconcile_publishes[OF assms])
    (auto simp: checkDrift_eq holds_body_def cm_body_def split: sum.splits option.splits)

text \<open>A failed reconcile is counted, keeps hashes and events, and asks for no delayed retry.\<close>

lemma Reconcile_failed:
  assumes "Reconcile lib sch r s = (Returned q (Some err), s')" and "fair sch"
  shows "q = 0 \<and> op_hashes s' = op_hashes s \<and> op_events s' = op_events s \<and>
     (\<exists>m. op_metrics s' = Inc ReconcileTotal [label, ''write_failed''] m)"
  using assms by (cases rule: Reconcile_cases) (auto simp: only_metrics_def)

text \<open>
  The cluster changes before the apply only if the apply is reached: without the list of objects
  or without a rendered body nothing is written.
\<close>

lemma Reconcile_nothing_written:
  assumes "Reconcile lib sch r s = (e, s')" and "fair sch"
    and "\<And>items body. list_crs (r_Client r) (op_cluster s) = Inr items \<Longrightarrow> spec_body lib (verdict r) items \<noteq> Inr body"
  shows "op_cluster s' = op_cluster s"
  using assms(1,2) by (cases rule: Reconcile_cases) (use assms(3) in \<open>auto simp: only_metrics_def\<close>)

text \<open>With values that can be compared no reconcile panics.\<close>

lemma Reconcile_no_panic:
  assumes "fair sch" and "list_crs (r_Client r) (op_cluster s) = Inr items"
    and "\<forall>ov \<in> set (spec_valid lib (verdict r) items). plain_leaves (ov_Overrides ov)"
  shows "\<exists>q err s'. Reconcile lib sch r s = (Returned q err, s')"
proof -
  obtain e s' where R: "Reconcile lib sch r s = (e, s')" by fastforce
  from R assms(1) show ?thesis
    by (cases rule: Reconcile_cases) (use assms(2,3) R in auto)
qed

end

end
