(* ===== verification/Convergence.thy ===== *)
theory Convergence
  imports Target_Reconciler
begin

text \<open>
  What repeated reconciles lead to when nobody but the operator writes. The API server may fail at
  any call (\<open>flaky\<close>), and the operator may restart between two reconciles; once one reconcile runs
  without a failure, the cluster is settled (\<open>settled\<close>: the config map holds the body, no status
  needs an update), and no later reconcile changes it, whatever fails then.
\<close>

section \<open>The API server\<close>

text \<open>Two readings of one object that differ in its status and resource version at most.\<close>

definition same_object :: "TenantOverride \<Rightarrow> TenantOverride \<Rightarrow> bool" where
  "same_object a b \<longleftrightarrow> cr_Namespace a = cr_Namespace b \<and> cr_Name a = cr_Name b \<and>
     cr_Generation a = cr_Generation b \<and> cr_Spec a = cr_Spec b"

definition status_written :: "TenantOverride \<Rightarrow> TenantOverride \<Rightarrow> TenantOverride \<Rightarrow> bool" where
  "status_written cr old new \<longleftrightarrow>
     (if cr_id old = cr_id cr then same_object old new \<and> cr_Status new = cr_Status cr else new = old)"

text \<open>
  A status update either fails and leaves the objects as they were, or the next list shows the new
  status on the object, and everything else as before.
\<close>

definition status_visible ::
  "('w \<Rightarrow> go_error + TenantOverride list) \<Rightarrow> (TenantOverride \<Rightarrow> 'w \<Rightarrow> go_error option \<times> 'w) \<Rightarrow> bool" where
  "status_visible lst upd \<longleftrightarrow>
     (\<forall>cr w err w' items. upd cr w = (err, w') \<longrightarrow> lst w = Inr items \<longrightarrow> distinct_crs items \<longrightarrow>
        (case err of
           Some e \<Rightarrow> lst w' = Inr items
         | None \<Rightarrow> \<exists>items'. lst w' = Inr items' \<and> list_all2 (status_written cr) items items'))"

lemma status_visibleD:
  assumes "status_visible lst upd" and "upd cr w = (err, w')" and "lst w = Inr items" and "distinct_crs items"
  shows "err = Some e \<Longrightarrow> lst w' = Inr items"
    and "err = None \<Longrightarrow> \<exists>items'. lst w' = Inr items' \<and> list_all2 (status_written cr) items items'"
proof -
  have "case err of Some e \<Rightarrow> lst w' = Inr items
      | None \<Rightarrow> \<exists>items'. lst w' = Inr items' \<and> list_all2 (status_written cr) items items'"
    using assms unfolding status_visible_def by blast
  then show "err = Some e \<Longrightarrow> lst w' = Inr items"
    and "err = None \<Longrightarrow> \<exists>items'. lst w' = Inr items' \<and> list_all2 (status_written cr) items items'"
    by simp_all
qed

text \<open>An update that carries a listed object with another status is accepted.\<close>

definition status_accepted ::
  "('w \<Rightarrow> go_error + TenantOverride list) \<Rightarrow> (TenantOverride \<Rightarrow> 'w \<Rightarrow> go_error option \<times> 'w) \<Rightarrow> bool" where
  "status_accepted lst upd \<longleftrightarrow>
     (\<forall>w items cr st. lst w = Inr items \<longrightarrow> cr \<in> set items \<longrightarrow>
        (\<exists>w'. upd (cr\<lparr>cr_Status := st\<rparr>) w = (None, w')))"

lemma status_acceptedD:
  "status_accepted lst upd \<Longrightarrow> lst w = Inr items \<Longrightarrow> cr \<in> set items \<Longrightarrow>
     \<exists>w'. upd (cr\<lparr>cr_Status := st\<rparr>) w = (None, w')"
  unfolding status_accepted_def by blast

text \<open>Applying a config map leaves the listed objects alone; the applies are accepted; reads fail
  with not-found only.\<close>

definition apply_keeps_list :: "('w \<Rightarrow> go_error + TenantOverride list) \<Rightarrow> 'w client \<Rightarrow> bool" where
  "apply_keeps_list lst c \<longleftrightarrow> (\<forall>cm owner force w. lst (snd (cl_ApplyConfigMap c cm owner force w)) = lst w)"

definition apply_accepted :: "'w client \<Rightarrow> bool" where
  "apply_accepted c \<longleftrightarrow>
     (\<forall>cm owner w. \<exists>w'. cl_ApplyConfigMap c cm owner True w = (None, w')) \<and>
     (\<forall>n w e. cl_GetConfigMap c n w = Inl e \<longrightarrow> IsNotFound e)"

text \<open>
  A client whose calls behave like those of \<open>c0\<close> or fail: a failing read says nothing, a failing
  write has had its effect or not.
\<close>

definition may_fail :: "'w \<Rightarrow> go_error option \<times> 'w \<Rightarrow> go_error option \<times> 'w \<Rightarrow> bool" where
  "may_fail w ok res \<longleftrightarrow> res = ok \<or> (\<exists>e. res = (Some e, w) \<or> res = (Some e, snd ok))"

definition flaky ::
  "('w client \<Rightarrow> 'w \<Rightarrow> go_error + TenantOverride list) \<Rightarrow>
   ('w client \<Rightarrow> TenantOverride \<Rightarrow> 'w \<Rightarrow> go_error option \<times> 'w) \<Rightarrow> 'w client \<Rightarrow> 'w client \<Rightarrow> bool" where
  "flaky lst upd c0 c \<longleftrightarrow>
     (\<forall>n w. cl_GetConfigMap c n w = cl_GetConfigMap c0 n w \<or>
        (\<exists>e. cl_GetConfigMap c n w = Inl e \<and> \<not> IsNotFound e)) \<and>
     (\<forall>w. lst c w = lst c0 w \<or> (\<exists>e. lst c w = Inl e)) \<and>
     (\<forall>cm owner force w. may_fail w (cl_ApplyConfigMap c0 cm owner force w) (cl_ApplyConfigMap c cm owner force w)) \<and>
     (\<forall>cr w. may_fail w (upd c0 cr w) (upd c cr w))"

lemma flakyD:
  assumes "flaky lst upd c0 c"
  shows "cl_GetConfigMap c n w = cl_GetConfigMap c0 n w \<or> (\<exists>e. cl_GetConfigMap c n w = Inl e \<and> \<not> IsNotFound e)"
    and "lst c w = lst c0 w \<or> (\<exists>e. lst c w = Inl e)"
    and "may_fail w (cl_ApplyConfigMap c0 cm owner force w) (cl_ApplyConfigMap c cm owner force w)"
    and "may_fail w (upd c0 cr w) (upd c cr w)"
  using assms unfolding flaky_def by blast+

lemma may_fail_state: "may_fail w ok (err, w') \<Longrightarrow> w' = w \<or> w' = snd ok"
  by (auto simp: may_fail_def)

section \<open>Objects that differ in their status\<close>

lemma same_object_refl [simp]: "same_object a a"
  by (simp add: same_object_def)

lemma same_object_trans: "same_object a b \<Longrightarrow> same_object b c \<Longrightarrow> same_object a c"
  by (simp add: same_object_def)

lemma same_object_id: "same_object a b \<Longrightarrow> cr_id a = cr_id b"
  by (simp add: same_object_def cr_id_def)

lemma spec_envelope_same:
  "same_object a b \<Longrightarrow> spec_envelope lib validate b = (spec_envelope lib validate a)\<lparr>env_CR := b\<rparr>"
  by (simp add: spec_envelope_def same_object_def override_of_def effective_tenant_def split: sum.split)

lemma spec_status_same:
  "same_object a b \<Longrightarrow>
     spec_status cm (spec_envelope lib validate b) valid res = spec_status cm (spec_envelope lib validate a) valid res"
  unfolding spec_envelope_same by (simp add: spec_status_def same_object_def split: option.split)

lemma spec_valid_same:
  "list_all2 same_object items items' \<Longrightarrow> spec_valid lib validate items' = spec_valid lib validate items"
  by (induction rule: list_all2_induct) (simp_all add: spec_valid_def spec_envelope_same)

lemma spec_body_same:
  "list_all2 same_object items items' \<Longrightarrow> spec_body lib validate items' = spec_body lib validate items"
  by (simp add: spec_body_def spec_valid_same)

lemma distinct_crs_same: "list_all2 same_object items items' \<Longrightarrow> distinct_crs items' = distinct_crs items"
proof -
  assume "list_all2 same_object items items'"
  then have "map cr_id items' = map cr_id items"
    by (induction rule: list_all2_induct) (simp_all add: same_object_id)
  then show ?thesis by (simp add: distinct_crs_def)
qed

lemma list_all2_same_trans:
  "list_all2 same_object xs ys \<Longrightarrow> list_all2 same_object ys zs \<Longrightarrow> list_all2 same_object xs zs"
  by (rule list_all2_trans[OF same_object_trans])

lemma status_written_same: "list_all2 (status_written cr) items items' \<Longrightarrow> list_all2 same_object items items'"
  by (erule list_all2_mono) (auto simp: status_written_def split: if_splits)

lemma spec_status_res:
  "res_Hash res = res_Hash res' \<Longrightarrow> res_Generation res = res_Generation res' \<Longrightarrow>
     spec_status cm e valid res = spec_status cm e valid res'"
  by (simp add: spec_status_def applied_message_def split: option.split)

lemma status_written_other:
  "list_all2 (status_written cr) xs ys \<Longrightarrow> cr_id cr \<notin> cr_id ` set xs \<Longrightarrow> ys = xs"
  by (induction rule: list_all2_induct) (auto simp: status_written_def)

lemma status_written_split:
  assumes "list_all2 (status_written (cr\<lparr>cr_Status := st\<rparr>)) (xs @ cr # ys) listed" and "distinct_crs (xs @ cr # ys)"
  obtains new where "listed = xs @ new # ys" and "same_object cr new" and "cr_Status new = st"
proof -
  let ?cr = "cr\<lparr>cr_Status := st\<rparr>"
  obtain xs' new ys' where l: "listed = xs' @ new # ys'" "list_all2 (status_written ?cr) xs xs'"
      "status_written ?cr cr new" "list_all2 (status_written ?cr) ys ys'"
    using assms(1) unfolding list_all2_append1 list_all2_Cons1 by blast
  have id: "cr_id ?cr = cr_id cr" by (simp add: cr_id_def)
  have "xs' = xs" "ys' = ys"
    using status_written_other[OF l(2)] status_written_other[OF l(4)] assms(2)
    by (simp_all add: distinct_crs_def id)
  moreover have "same_object cr new" "cr_Status new = st" using l(3) by (simp_all add: status_written_def id)
  ultimately show ?thesis using that l(1) by simp
qed

text \<open>Only conditions of the operator's own types, no type twice (the API server enforces the latter).\<close>

definition own_conditions :: "TenantOverride \<Rightarrow> bool" where
  "own_conditions cr \<longleftrightarrow> distinct (map cond_Type (st_Conditions (cr_Status cr))) \<and>
     cond_Type ` set (st_Conditions (cr_Status cr)) \<subseteq> {ConditionValidated, ConditionApplied}"

lemma spec_status_type_set:
  "cond_Type ` set (st_Conditions (spec_status cm e valid res)) = {ConditionValidated, ConditionApplied}"
  using arg_cong[OF spec_status_types[of cm e valid res], of set] by auto

lemma updated_own:
  assumes "own_conditions cr" and "updated_status (cr_Status cr) (spec_status cm e valid res) s = (st, s')"
  shows "own_conditions (cr'\<lparr>cr_Status := st\<rparr>)"
    and "\<not> needsUpdate st (spec_status cm e valid res)"
proof -
  obtain conds where ups: "op_upserts (st_Conditions (cr_Status cr)) (st_Conditions (spec_status cm e valid res)) s = (conds, s')"
      and st: "st_Conditions st = conds"
    using assms(2) by (auto simp: updated_status_def split: prod.splits)
  show "own_conditions (cr'\<lparr>cr_Status := st\<rparr>)"
    using assms(1) distinct_op_upserts[OF ups] types_op_upserts[OF ups]
    by (auto simp: own_conditions_def st spec_status_type_set)
  show "\<not> needsUpdate st (spec_status cm e valid res)"
    by (rule updated_status_settled[OF assms(2)])
      (use assms(1) in \<open>auto simp: own_conditions_def spec_status_type_set spec_status_distinct\<close>)
qed

text \<open>The objects are those of \<open>items0\<close>, with conditions of their own.\<close>

definition known_items :: "TenantOverride list \<Rightarrow> go_error + TenantOverride list \<Rightarrow> bool" where
  "known_items items0 listed \<longleftrightarrow>
     (\<exists>items. listed = Inr items \<and> list_all2 same_object items0 items \<and> (\<forall>cr \<in> set items. own_conditions cr))"

lemma list_all2_member: "list_all2 P xs ys \<Longrightarrow> y \<in> set ys \<Longrightarrow> \<exists>x \<in> set xs. P x y"
  by (induction rule: list_all2_induct) auto

lemma known_items_written:
  assumes "known_items items0 (lst w)" and "distinct_crs items0" and "status_visible lst upd"
    and "upd cr w = (err, w')" and "own_conditions cr"
  shows "known_items items0 (lst w')"
proof -
  obtain items where it: "lst w = Inr items" "list_all2 same_object items0 items" "\<forall>cr \<in> set items. own_conditions cr"
    using assms(1) by (auto simp: known_items_def)
  have "distinct_crs items" using distinct_crs_same[OF it(2)] assms(2) by simp
  then consider "lst w' = Inr items" | items' where "lst w' = Inr items'" "list_all2 (status_written cr) items items'"
    using status_visibleD[OF assms(3,4) it(1)] by (cases err) auto
  then show ?thesis
  proof cases
    case 1
    then show ?thesis using it by (auto simp: known_items_def)
  next
    case (2 items')
    have "own_conditions b" if b: "b \<in> set items'" for b
    proof -
      obtain a where "a \<in> set items" "status_written cr a b"
        using list_all2_member[OF 2(2) b] by blast
      then show ?thesis using it(3) assms(5) by (auto simp: status_written_def own_conditions_def split: if_splits)
    qed
    then show ?thesis
      using 2 list_all2_same_trans[OF it(2) status_written_same[OF 2(2)]] by (auto simp: known_items_def)
  qed
qed

text \<open>
  The cluster is settled: the config map holds the body that the listed objects define, and no
  status differs from the one it should have.
\<close>

definition settled :: "('w client \<Rightarrow> 'w \<Rightarrow> go_error + TenantOverride list) \<Rightarrow> libs \<Rightarrow> 'w target_struct \<Rightarrow>
    'w client \<Rightarrow> 'w \<Rightarrow> bool" where
  "settled lst lib r c0 w \<longleftrightarrow> (\<exists>items body live. lst c0 w = Inr items \<and>
     spec_body lib (v_Validate (r_Validator r)) items = Inr body \<and>
     cl_GetConfigMap c0 (r_OutputCM r) w = Inr live \<and> holds_body c0 (r_OutputCM r) body w \<and>
     (\<forall>cr \<in> set items. \<not> needsUpdate (cr_Status cr) (spec_status (r_OutputCM r)
        (spec_envelope lib (v_Validate (r_Validator r)) cr) (spec_valid lib (v_Validate (r_Validator r)) items)
        \<lparr>res_Hash = Hash body, res_Generation = cm_Generation live, res_Skipped = True\<rparr>)))"

lemma settled_client: "settled lst lib (r\<lparr>r_Client := c\<rparr>) c0 w = settled lst lib r c0 w"
  by (simp add: settled_def)

text \<open>
  The apply helper compares hashes; when no other text with the hash of the body is in place, the
  config map holds the body itself afterwards.
\<close>

definition holds_exactly :: "'w client \<Rightarrow> NamespacedName \<Rightarrow> string \<Rightarrow> 'w \<Rightarrow> bool" where
  "holds_exactly c name body w \<longleftrightarrow>
     (\<exists>live. cl_GetConfigMap c name w = Inr live \<and> map_of (cm_Data live) DataKey = Some body)"

definition no_collision :: "'w client \<Rightarrow> NamespacedName \<Rightarrow> string \<Rightarrow> 'w \<Rightarrow> bool" where
  "no_collision c name body w \<longleftrightarrow> (\<forall>live b. cl_GetConfigMap c name w = Inr live \<longrightarrow>
     map_of (cm_Data live) DataKey = Some b \<longrightarrow> Hash b = Hash body \<longrightarrow> b = body)"

lemma apply_exactly:
  assumes "apply_visible c" and "apply_ConfigMap c name body w = (Inr res, w')" and "no_collision c name body w"
  shows "holds_exactly c name body w'"
proof (cases "holds_body c name body w")
  case True
  then have "w' = w" using apply_noop[OF True] assms(2) by auto
  then show ?thesis
    using True assms(3) by (auto simp: holds_body_def holds_exactly_def no_collision_def split: sum.splits option.splits)
next
  case False
  then have "apply_write c name body w = (Inr res, w')"
    using assms(2) by (auto simp: apply_ConfigMap_def holds_body_def split: sum.splits if_splits option.splits)
  then have "cl_ApplyConfigMap c (desired_ConfigMap name body) FieldManager True w = (None, w')"
    by (auto simp: apply_write_def split: prod.splits option.splits sum.splits)
  then show ?thesis using assms(1) by (force simp: apply_visible_def holds_exactly_def)
qed

context target_reconciler
begin

lemma Reconcile_exact:
  assumes "Reconcile lib sch r s = (Returned q None, s')" and "fair sch"
    and "apply_visible (r_Client r)" and "status_local (update_cr (r_Client r)) (r_Client r)"
    and "list_crs (r_Client r) (op_cluster s) = Inr items"
    and "\<And>body. spec_body lib (verdict r) items = Inr body \<Longrightarrow>
      no_collision (r_Client r) (r_OutputCM r) body (op_cluster s)"
  shows "\<exists>body. spec_body lib (verdict r) items = Inr body \<and>
    holds_exactly (r_Client r) (r_OutputCM r) body (op_cluster s')"
  using assms(1,2)
proof (cases rule: Reconcile_cases)
  case (applied items' body res w s1 hit)
  have b: "spec_body lib (verdict r) items = Inr body" using applied(1,2) assms(5) by simp
  have "holds_exactly (r_Client r) (r_OutputCM r) body w"
    by (rule apply_exactly[OF assms(3) applied(3) assms(6)[OF b]])
  then have "holds_exactly (r_Client r) (r_OutputCM r) body (op_cluster s')"
    using update_all_unpublished[OF assms(4) applied(6)] applied(4)
    by (simp add: holds_exactly_def unpublished_def)
  with b show ?thesis by blast
qed auto

section \<open>What every reconcile keeps\<close>

lemma update_one_known:
  assumes "flaky list_crs update_cr c0 (r_Client r)" and "status_visible (list_crs c0) (update_cr c0)"
    and "distinct_crs items0" and "own_conditions cr"
    and "known_items items0 (list_crs c0 (op_cluster s))"
    and "update_one r (spec_envelope lib validate cr) valid res s = (hit, s')"
  shows "known_items items0 (list_crs c0 (op_cluster s'))"
proof (cases "needsUpdate (cr_Status cr) (spec_status (r_OutputCM r) (spec_envelope lib validate cr) valid res)")
  case False
  then show ?thesis using assms(5,6) by (simp add: update_one_eq)
next
  case True
  let ?d = "spec_status (r_OutputCM r) (spec_envelope lib validate cr) valid res"
  obtain st s1 where st: "updated_status (cr_Status cr) ?d s = (st, s1)" by fastforce
  then have c1: "op_cluster s1 = op_cluster s"
    by (auto simp: updated_status_def same_but_clock_def split: prod.splits dest: op_upserts_clock)
  let ?cr = "cr\<lparr>cr_Status := st\<rparr>"
  obtain err w where up: "update_cr (r_Client r) ?cr (op_cluster s) = (err, w)" by fastforce
  have s': "op_cluster s' = w" using assms(6) True by (auto simp: update_one_eq st c1 up)
  obtain err0 w0 where up0: "update_cr c0 ?cr (op_cluster s) = (err0, w0)" by fastforce
  have "known_items items0 (list_crs c0 w0)"
    by (rule known_items_written[OF assms(5,3,2) up0 updated_own(1)[OF assms(4) st]])
  moreover have "w = op_cluster s \<or> w = w0"
    using flakyD(4)[OF assms(1), of "op_cluster s" ?cr] may_fail_state by (fastforce simp: up up0)
  ultimately show ?thesis using assms(5) s' by auto
qed

lemma update_all_known:
  assumes "flaky list_crs update_cr c0 (r_Client r)" and "status_visible (list_crs c0) (update_cr c0)"
    and "distinct_crs items0" and "\<forall>cr \<in> set items. own_conditions cr"
    and "known_items items0 (list_crs c0 (op_cluster s))"
    and "update_all r (map (spec_envelope lib validate) items) valid res hit s = (hit', s')"
  shows "known_items items0 (list_crs c0 (op_cluster s'))"
  using assms(4-6)
proof (induction items arbitrary: hit s)
  case (Cons cr items)
  obtain h s1 where one: "update_one r (spec_envelope lib validate cr) valid res s = (h, s1)" by fastforce
  have "known_items items0 (list_crs c0 (op_cluster s1))"
    by (rule update_one_known[OF assms(1-3) _ Cons.prems(2) one]) (use Cons.prems(1) in simp)
  then show ?case using Cons.IH[of s1 "hit \<or> h"] Cons.prems by (simp add: update_all_Cons one)
qed (simp add: update_all_Nil)

lemma apply_known:
  assumes "flaky list_crs update_cr c0 c" and "apply_keeps_list (list_crs c0) c0"
    and "apply_ConfigMap c n body w = (ra, w')"
  shows "list_crs c0 w' = list_crs c0 w"
proof -
  let ?cm = "desired_ConfigMap n body"
  have "w' = w \<or> w' = snd (cl_ApplyConfigMap c0 ?cm FieldManager True w)"
  proof (cases "w' = w")
    case False
    then obtain err where "cl_ApplyConfigMap c ?cm FieldManager True w = (err, w')"
      using assms(3) by (auto simp: apply_ConfigMap_def apply_write_def
          split: sum.splits if_splits prod.splits option.splits)
    then show ?thesis
      using flakyD(3)[OF assms(1), of w ?cm FieldManager True] may_fail_state by fastforce
  qed simp
  then show ?thesis using assms(2) by (auto simp: apply_keeps_list_def)
qed

text \<open>Whatever fails during it, a reconcile keeps the objects and leaves no foreign condition on them.\<close>

lemma Reconcile_known:
  assumes "Reconcile lib sch r s = (e, s')" and "fair sch"
    and "flaky list_crs update_cr c0 (r_Client r)" and "apply_keeps_list (list_crs c0) c0"
    and "status_visible (list_crs c0) (update_cr c0)" and "distinct_crs items0"
    and "known_items items0 (list_crs c0 (op_cluster s))"
  shows "known_items items0 (list_crs c0 (op_cluster s'))"
  using assms(1,2)
proof (cases rule: Reconcile_cases)
  case (apply_failed err s1 w items body)
  then show ?thesis using apply_known[OF assms(3,4) apply_failed(3)] assms(7) by (simp add: only_metrics_def)
next
  case (applied items body res w s1 hit)
  have "list_crs c0 (op_cluster s) = Inr items"
    using flakyD(2)[OF assms(3), of "op_cluster s"] applied(1) by auto
  then have own: "\<forall>cr \<in> set items. own_conditions cr" using assms(7) by (auto simp: known_items_def)
  have "known_items items0 (list_crs c0 (op_cluster s1))"
    using apply_known[OF assms(3,4) applied(3)] assms(7) applied(4) by simp
  from update_all_known[OF assms(3,5,6) own this applied(6)] show ?thesis .
qed (use assms(7) in \<open>simp_all add: only_metrics_def\<close>)

section \<open>A settled cluster\<close>

text \<open>A settled cluster stays as it is, whatever fails.\<close>

lemma settled_stays:
  assumes "Reconcile lib sch r s = (e, s')" and "fair sch"
    and "flaky list_crs update_cr c0 (r_Client r)" and "settled list_crs lib r c0 (op_cluster s)"
  shows "op_cluster s' = op_cluster s"
proof -
  obtain items0 body0 live where st: "list_crs c0 (op_cluster s) = Inr items0"
      "spec_body lib (verdict r) items0 = Inr body0"
      "cl_GetConfigMap c0 (r_OutputCM r) (op_cluster s) = Inr live"
      "holds_body c0 (r_OutputCM r) body0 (op_cluster s)"
      "\<forall>cr \<in> set items0. \<not> needsUpdate (cr_Status cr) (spec_status (r_OutputCM r)
        (spec_envelope lib (verdict r) cr) (spec_valid lib (verdict r) items0)
        \<lparr>res_Hash = Hash body0, res_Generation = cm_Generation live, res_Skipped = True\<rparr>)"
    using assms(4) unfolding settled_def by blast
  have same: "items = items0" if "list_crs (r_Client r) (op_cluster s) = Inr items" for items
    using flakyD(2)[OF assms(3), of "op_cluster s"] that st(1) by auto
  have live: "\<exists>b. map_of (cm_Data live) DataKey = Some b \<and> Hash b = Hash body0"
    using st(3,4) by (auto simp: holds_body_def split: option.splits)
  have ap: "w = op_cluster s \<and> (\<forall>res. ra = Inr res \<longrightarrow>
      res = \<lparr>res_Hash = Hash body0, res_Generation = cm_Generation live, res_Skipped = True\<rparr>)"
    if "apply_ConfigMap (r_Client r) (r_OutputCM r) body0 (op_cluster s) = (ra, w)" for ra w
    using flakyD(1)[OF assms(3), of "r_OutputCM r" "op_cluster s"] that live st(3)
    by (auto simp: apply_ConfigMap_def)
  from assms(1,2) show ?thesis
  proof (cases rule: Reconcile_cases)
    case (apply_failed err s1 w items body)
    then have "w = op_cluster s" using ap same st(2) by fastforce
    then show ?thesis using apply_failed(5) by simp
  next
    case (applied items body res w s1 hit)
    have it: "items = items0" by (rule same[OF applied(1)])
    then have "body = body0" using applied(2) st(2) by simp
    then have w: "w = op_cluster s"
      and res: "res = \<lparr>res_Hash = Hash body0, res_Generation = cm_Generation live, res_Skipped = True\<rparr>"
      using ap[of "Inr res" w] applied(3) by auto
    have "update_all r (map (spec_envelope lib (verdict r)) items) (spec_valid lib (verdict r) items)
        res False s1 = (False, s1)"
      by (rule update_all_settled) (use st(5) in \<open>simp add: it res\<close>)
    then show ?thesis using applied(4,6) w by simp
  qed (simp_all add: only_metrics_def)
qed

section \<open>An undisturbed reconcile\<close>

text \<open>The statuses are written one after the other; the rest of the list stays as it was.\<close>

lemma update_all_writes:
  assumes "status_visible (list_crs (r_Client r)) (update_cr (r_Client r))"
    and "status_accepted (list_crs (r_Client r)) (update_cr (r_Client r))"
    and "list_crs (r_Client r) (op_cluster s) = Inr (done @ items)" and "distinct_crs (done @ items)"
    and "\<forall>cr \<in> set items. own_conditions cr"
    and "update_all r (map (spec_envelope lib validate) items) valid res False s = (hit, s')"
  shows "\<not> hit \<and> (\<exists>items'. list_crs (r_Client r) (op_cluster s') = Inr (done @ items') \<and>
    list_all2 (\<lambda>cr cr'. same_object cr cr' \<and> \<not> needsUpdate (cr_Status cr')
      (spec_status (r_OutputCM r) (spec_envelope lib validate cr) valid res)) items items')"
  using assms(3-6)
proof (induction items arbitrary: "done" s)
  case Nil
  then show ?case by (simp add: update_all_Nil)
next
  case (Cons cr items)
  let ?d = "spec_status (r_OutputCM r) (spec_envelope lib validate cr) valid res"
  obtain h s1 where one: "update_one r (spec_envelope lib validate cr) valid res s = (h, s1)" by fastforce
  have "\<not> h \<and> (\<exists>new. list_crs (r_Client r) (op_cluster s1) = Inr (done @ new # items) \<and>
      same_object cr new \<and> \<not> needsUpdate (cr_Status new) ?d)"
  proof (cases "needsUpdate (cr_Status cr) ?d")
    case False
    then show ?thesis using one Cons.prems(1) by (auto simp: update_one_eq)
  next
    case True
    obtain st s0 where st: "updated_status (cr_Status cr) ?d s = (st, s0)" by fastforce
    then have c0: "op_cluster s0 = op_cluster s"
      by (auto simp: updated_status_def same_but_clock_def split: prod.splits dest: op_upserts_clock)
    let ?cr = "cr\<lparr>cr_Status := st\<rparr>"
    obtain w where up: "update_cr (r_Client r) ?cr (op_cluster s) = (None, w)"
      using status_acceptedD[OF assms(2) Cons.prems(1), of cr st] by auto
    have h: "\<not> h" "op_cluster s1 = w" using one True by (auto simp: update_one_eq st c0 up)
    obtain listed where listed: "list_crs (r_Client r) w = Inr listed"
        "list_all2 (status_written ?cr) (done @ cr # items) listed"
      using status_visibleD(2)[OF assms(1) up Cons.prems(1,2) refl] by blast
    obtain new where "listed = done @ new # items" "same_object cr new" "cr_Status new = st"
      by (rule status_written_split[OF listed(2) Cons.prems(2)])
    then show ?thesis
      using h listed(1) updated_own(2)[OF _ st] Cons.prems(3) by simp
  qed
  then obtain new where new: "\<not> h" "list_crs (r_Client r) (op_cluster s1) = Inr ((done @ [new]) @ items)"
      "same_object cr new" "\<not> needsUpdate (cr_Status new) ?d"
    by auto
  have "distinct_crs ((done @ [new]) @ items)"
    using Cons.prems(2) same_object_id[OF new(3)] by (simp add: distinct_crs_def)
  from Cons.IH[OF new(2) this] Cons.prems(3,4) new(1,3,4) one show ?case
    by (auto simp: update_all_Cons)
qed

text \<open>A reconcile during which no call fails leaves a settled cluster.\<close>

lemma Reconcile_settles:
  assumes "fair sch" and "apply_visible (r_Client r)" and "apply_accepted (r_Client r)"
    and "apply_keeps_list (list_crs (r_Client r)) (r_Client r)"
    and "status_local (update_cr (r_Client r)) (r_Client r)"
    and "status_visible (list_crs (r_Client r)) (update_cr (r_Client r))"
    and "status_accepted (list_crs (r_Client r)) (update_cr (r_Client r))"
    and "list_crs (r_Client r) (op_cluster s) = Inr items" and "distinct_crs items"
    and "\<forall>cr \<in> set items. own_conditions cr"
    and "\<forall>ov \<in> set (spec_valid lib (verdict r) items). plain_leaves (ov_Overrides ov)"
    and "spec_body lib (verdict r) items = Inr body"
  shows "fst (Reconcile lib sch r s) = Returned 0 None \<and>
    settled list_crs lib r (r_Client r) (op_cluster (snd (Reconcile lib sch r s)))"
proof -
  obtain e s' where R: "Reconcile lib sch r s = (e, s')" by fastforce
  have no_err: "apply_ConfigMap (r_Client r) n b w \<noteq> (Inl err, w')" for n b w err w'
  proof
    assume A: "apply_ConfigMap (r_Client r) n b w = (Inl err, w')"
    obtain w1 where W: "cl_ApplyConfigMap (r_Client r) (desired_ConfigMap n b) FieldManager True w = (None, w1)"
      using assms(3) unfolding apply_accepted_def by blast
    obtain res where "apply_write (r_Client r) n b w = (Inr res, w1)"
      using apply_write_reported[OF assms(2) W] by blast
    then show False
      using A assms(3) unfolding apply_accepted_def
      by (auto simp: apply_ConfigMap_def split: sum.splits if_splits)
  qed
  from R assms(1) show ?thesis
  proof (cases rule: Reconcile_cases)
    case (applied items' b res w s1 hit)
    then have eq: "items' = items" "b = body" using assms(8,12) by simp_all
    have lw: "list_crs (r_Client r) w = Inr items"
    proof -
      have "flaky list_crs update_cr (r_Client r) (r_Client r)" by (simp add: flaky_def may_fail_def)
      from apply_known[OF this assms(4) applied(3)] assms(8) show ?thesis by simp
    qed
    have U: "update_all r (map (spec_envelope lib (verdict r)) items) (spec_valid lib (verdict r) items) res False s1
        = (hit, s')" using applied(6) by (simp add: eq)
    from update_all_writes[OF assms(6,7) _ _ assms(10) U, of "[]"] lw applied(4) assms(9)
    obtain new where new: "\<not> hit" "list_crs (r_Client r) (op_cluster s') = Inr new"
        "list_all2 (\<lambda>cr cr'. same_object cr cr' \<and> \<not> needsUpdate (cr_Status cr')
          (spec_status (r_OutputCM r) (spec_envelope lib (verdict r) cr) (spec_valid lib (verdict r) items) res)) items new"
      by auto
    have so: "list_all2 same_object items new" by (rule list_all2_mono[OF new(3)]) simp
    have un: "unpublished (r_Client r) s1 s'" by (rule update_all_unpublished[OF assms(5) U])
    have hb: "holds_body (r_Client r) (r_OutputCM r) body w"
      using apply_establishes[OF assms(2) applied(3)] by (simp add: eq)
    then have hb': "holds_body (r_Client r) (r_OutputCM r) body (op_cluster s')"
      using un applied(4) by (simp add: holds_body_def unpublished_def)
    obtain live where live: "cl_GetConfigMap (r_Client r) (r_OutputCM r) w = Inr live"
        "cm_Generation live = res_Generation res"
      using applied(3) hb by (auto simp: apply_ConfigMap_def apply_write_def holds_body_def
          split: sum.splits if_splits prod.splits option.splits)
    have live': "cl_GetConfigMap (r_Client r) (r_OutputCM r) (op_cluster s') = Inr live"
      using un applied(4) live(1) by (simp add: unpublished_def)
    have "\<not> needsUpdate (cr_Status cr') (spec_status (r_OutputCM r) (spec_envelope lib (verdict r) cr')
        (spec_valid lib (verdict r) new) \<lparr>res_Hash = Hash body, res_Generation = cm_Generation live, res_Skipped = True\<rparr>)"
      if cr': "cr' \<in> set new" for cr'
    proof -
      obtain cr where cr: "same_object cr cr'" "\<not> needsUpdate (cr_Status cr')
          (spec_status (r_OutputCM r) (spec_envelope lib (verdict r) cr) (spec_valid lib (verdict r) items) res)"
        using list_all2_member[OF new(3) cr'] by blast
      have "res_Hash res = Hash body" using apply_hash[OF applied(3)] by (simp add: eq)
      then show ?thesis
        using cr(2) unfolding spec_status_same[OF cr(1)] spec_valid_same[OF so]
        by (subst spec_status_res[where res' = res]) (simp_all add: live(2))
    qed
    then have "settled list_crs lib r (r_Client r) (op_cluster s')"
      unfolding settled_def using new(2) spec_body_same[OF so] assms(12) live' hb' by fastforce
    then show ?thesis using R applied(7) new(1) by simp
  qed (use assms(8,11,12) no_err in auto)
qed

section \<open>A sequence of attempts\<close>

text \<open>
  One undisturbed attempt among any attempts is enough: from then on the cluster is settled and
  does not change.
\<close>

lemma attempts_settle:
  assumes run: "\<And>i. op_cluster (st (Suc i)) = op_cluster (snd (Reconcile lib (sch i) (r\<lparr>r_Client := cs i\<rparr>) (st i)))"
    and fair: "\<And>i. fair (sch i)" and flaky: "\<And>i. flaky list_crs update_cr c0 (cs i)" and m: "cs m = c0"
    and laws: "apply_visible c0" "apply_accepted c0" "apply_keeps_list (list_crs c0) c0"
      "status_local (update_cr c0) c0" "status_visible (list_crs c0) (update_cr c0)"
      "status_accepted (list_crs c0) (update_cr c0)"
    and start: "known_items items (list_crs c0 (op_cluster (st 0)))" "distinct_crs items"
    and plain: "\<forall>ov \<in> set (spec_valid lib (verdict r) items). plain_leaves (ov_Overrides ov)"
    and body: "spec_body lib (verdict r) items = Inr body"
  shows "\<forall>i > m. settled list_crs lib r c0 (op_cluster (st i)) \<and> op_cluster (st i) = op_cluster (st (Suc m))"
proof -
  have known: "known_items items (list_crs c0 (op_cluster (st i)))" for i
  proof (induction i)
    case (Suc i)
    obtain e s' where R: "Reconcile lib (sch i) (r\<lparr>r_Client := cs i\<rparr>) (st i) = (e, s')" by fastforce
    have "known_items items (list_crs c0 (op_cluster s'))"
      by (rule Reconcile_known[OF R fair _ laws(3,5) start(2) Suc.IH]) (simp add: flaky)
    then show ?case by (simp add: run R)
  qed (rule start(1))
  obtain listed where l: "list_crs c0 (op_cluster (st m)) = Inr listed" "list_all2 same_object items listed"
      "\<forall>cr \<in> set listed. own_conditions cr"
    using known[of m] by (auto simp: known_items_def)
  let ?r = "r\<lparr>r_Client := c0\<rparr>"
  have "settled list_crs lib ?r c0 (op_cluster (snd (Reconcile lib (sch m) ?r (st m))))"
    using Reconcile_settles[OF fair[of m], of ?r "st m" listed lib body] laws l start(2) plain body
      distinct_crs_same[OF l(2)] spec_valid_same[OF l(2)] spec_body_same[OF l(2)] by simp
  then have first: "settled list_crs lib r c0 (op_cluster (st (Suc m)))" by (simp add: run m settled_client)
  have "settled list_crs lib r c0 (op_cluster (st (Suc m + j))) \<and> op_cluster (st (Suc m + j)) = op_cluster (st (Suc m))" for j
  proof (induction j)
    case (Suc j)
    let ?i = "Suc m + j"
    obtain e s' where R: "Reconcile lib (sch ?i) (r\<lparr>r_Client := cs ?i\<rparr>) (st ?i) = (e, s')" by fastforce
    note IH = conjunct1[OF Suc.IH]
    have "op_cluster s' = op_cluster (st ?i)"
      by (rule settled_stays[OF R fair, of c0]) (use IH flaky in \<open>simp_all add: settled_client\<close>)
    then have "op_cluster (st (Suc ?i)) = op_cluster (st ?i)" using run[of ?i] R by simp
    then show ?case using Suc.IH by auto
  qed (simp add: first)
  then show ?thesis by (metis less_imp_Suc_add add_Suc)
qed

end

end
