(* ===== verification/Interference.thy ===== *)
theory Interference
  imports Convergence
begin

text \<open>
  What a reconcile of one target leaves alone of the others, and when the hash cache agrees with the
  config map (\<open>in_step\<close>). As in \<open>Convergence\<close> the calls of the client may fail: \<open>c0\<close> stands for the
  server itself, \<open>r_Client r\<close> for what the reconcile gets from it.
\<close>

section \<open>The hash cache and the config map\<close>

text \<open>Where the cache has a hash and the config map exists, the hash is that of its body.\<close>

definition in_step :: "'w client \<Rightarrow> string \<Rightarrow> NamespacedName \<Rightarrow> 'w op \<Rightarrow> bool" where
  "in_step c l n s \<longleftrightarrow> (\<forall>h live. HashCache_Get (op_hashes s) l = Some h \<longrightarrow>
     cl_GetConfigMap c n (op_cluster s) = Inr live \<longrightarrow> Hash (cm_body DataKey live) = h)"

lemma in_step_cong:
  "op_hashes s' = op_hashes s \<Longrightarrow> cl_GetConfigMap c n (op_cluster s') = cl_GetConfigMap c n (op_cluster s) \<Longrightarrow>
     in_step c l n s' = in_step c l n s"
  by (simp add: in_step_def)

lemma in_step_new [simp]: "op_hashes s = NewHashCache \<Longrightarrow> in_step c l n s"
  by (simp add: in_step_def hashes.lookup_fresh)

lemma holds_body_live:
  "holds_body c n body w \<Longrightarrow> cl_GetConfigMap c n w = Inr live \<Longrightarrow> Hash (cm_body DataKey live) = Hash body"
  by (auto simp: holds_body_def cm_body_def split: option.splits)

lemma in_step_holds:
  "holds_body c n body (op_cluster s) \<Longrightarrow> HashCache_Get (op_hashes s) l = Some (Hash body) \<Longrightarrow> in_step c l n s"
  by (auto simp: in_step_def dest: holds_body_live)

section \<open>The apply helper with calls that fail\<close>

text \<open>The cluster is as before or as the apply of the desired config map leaves it.\<close>

lemma apply_flaky_effect:
  assumes "flaky lst upd c0 c" and "apply_ConfigMap c n body w = (ra, w')"
  shows "w' = w \<or> w' = snd (cl_ApplyConfigMap c0 (desired_ConfigMap n body) FieldManager True w)"
proof -
  obtain e w1 where ap: "cl_ApplyConfigMap c (desired_ConfigMap n body) FieldManager True w = (e, w1)" by fastforce
  have "w' = w \<or> w' = w1"
    using assms(2) ap by (auto simp: apply_ConfigMap_def apply_write_def split: sum.splits if_splits option.splits)
  moreover have "may_fail w (cl_ApplyConfigMap c0 (desired_ConfigMap n body) FieldManager True w) (e, w1)"
    using flakyD(3)[OF assms(1), of w "desired_ConfigMap n body" FieldManager True] unfolding ap .
  then have "w1 = w \<or> w1 = snd (cl_ApplyConfigMap c0 (desired_ConfigMap n body) FieldManager True w)"
    by (rule may_fail_state)
  ultimately show ?thesis by blast
qed

lemma apply_flaky_other:
  assumes "flaky lst upd c0 c" and "apply_local c0" and "apply_ConfigMap c n body w = (ra, w')" and "m \<noteq> n"
  shows "cl_GetConfigMap c0 m w' = cl_GetConfigMap c0 m w"
proof -
  obtain e w1 where ap: "cl_ApplyConfigMap c0 (desired_ConfigMap n body) FieldManager True w = (e, w1)" by fastforce
  have "cl_GetConfigMap c0 m w1 = cl_GetConfigMap c0 m w"
    using assms(2,4) ap unfolding apply_local_def by (metis cm_id_desired)
  then show ?thesis using apply_flaky_effect[OF assms(1,3)] ap by auto
qed

text \<open>A success is real: the server holds the body.\<close>

lemma apply_flaky_holds:
  assumes "flaky lst upd c0 c" and "apply_visible c0" and "apply_ConfigMap c n body w = (Inr res, w')"
  shows "holds_body c0 n body w'"
proof (cases "holds_body c n body w")
  case True
  then have w: "w' = w" using apply_noop[OF True] assms(3) by auto
  have "cl_GetConfigMap c n w = cl_GetConfigMap c0 n w"
    using True flakyD(1)[OF assms(1), of n w] by (auto simp: holds_body_def)
  then show ?thesis using True w by (simp add: holds_body_def)
next
  case False
  then have "apply_write c n body w = (Inr res, w')"
    using assms(3) by (auto simp: apply_ConfigMap_def holds_body_def split: sum.splits if_splits option.splits)
  then have "cl_ApplyConfigMap c (desired_ConfigMap n body) FieldManager True w = (None, w')"
    by (auto simp: apply_write_def split: prod.splits option.splits sum.splits)
  then have "cl_ApplyConfigMap c0 (desired_ConfigMap n body) FieldManager True w = (None, w')"
    using flakyD(3)[OF assms(1), of w "desired_ConfigMap n body" FieldManager True] by (auto simp: may_fail_def)
  then obtain live where "cl_GetConfigMap c0 n w' = Inr live" "map_of (cm_Data live) DataKey = Some body"
    using assms(2) by (force simp: apply_visible_def)
  then show ?thesis by (simp add: holds_body_def)
qed

text \<open>A status write, failing or not, leaves the config maps alone.\<close>

lemma status_local_flaky:
  assumes "flaky lst upd c0 c" and "status_local (upd c0) c0"
  shows "status_local (upd c) c0"
  unfolding status_local_def
proof (intro allI impI)
  fix cr w err w' n
  assume up: "upd c cr w = (err, w')"
  obtain e0 w0 where up0: "upd c0 cr w = (e0, w0)" by fastforce
  have "cl_GetConfigMap c0 n w0 = cl_GetConfigMap c0 n w" using assms(2) up0 unfolding status_local_def by blast
  moreover have "w' = w \<or> w' = w0" using flakyD(4)[OF assms(1), of w cr] may_fail_state by (fastforce simp: up up0)
  ultimately show "cl_GetConfigMap c0 n w' = cl_GetConfigMap c0 n w" by auto
qed

section \<open>One reconcile\<close>

text \<open>The error of a reconcile whose apply failed; the write may have happened all the same.\<close>

fun apply_error :: "go_error \<Rightarrow> bool" where
  "apply_error (ErrWrap msg e) = (msg = ''apply'')"
| "apply_error _ = False"

context target_reconciler
begin

lemma Reconcile_elsewhere:
  assumes "Reconcile lib sch r s = (e, s')" and "fair sch" and "flaky list_crs update_cr c0 (r_Client r)"
    and "apply_local c0" and "status_local (update_cr c0) c0"
  shows "n \<noteq> r_OutputCM r \<Longrightarrow> cl_GetConfigMap c0 n (op_cluster s') = cl_GetConfigMap c0 n (op_cluster s)"
    and "l \<noteq> label \<Longrightarrow> HashCache_Get (op_hashes s') l = HashCache_Get (op_hashes s) l"
proof -
  have "(n \<noteq> r_OutputCM r \<longrightarrow> cl_GetConfigMap c0 n (op_cluster s') = cl_GetConfigMap c0 n (op_cluster s)) \<and>
      (l \<noteq> label \<longrightarrow> HashCache_Get (op_hashes s') l = HashCache_Get (op_hashes s) l)"
    using assms(1,2)
  proof (cases rule: Reconcile_cases)
    case (apply_failed err s1 w items body)
    then show ?thesis
      using apply_flaky_other[OF assms(3,4) apply_failed(3)] by (auto simp: only_metrics_def)
  next
    case (applied items body res w s1 hit)
    have "unpublished c0 s1 s'"
      by (rule update_all_unpublished[OF status_local_flaky[OF assms(3,5)] applied(6)])
    then show ?thesis
      using applied(4,5) apply_flaky_other[OF assms(3,4) applied(3)]
      by (auto simp: unpublished_def hashes.lookup_put)
  qed (auto simp: only_metrics_def)
  then show "n \<noteq> r_OutputCM r \<Longrightarrow> cl_GetConfigMap c0 n (op_cluster s') = cl_GetConfigMap c0 n (op_cluster s)"
    and "l \<noteq> label \<Longrightarrow> HashCache_Get (op_hashes s') l = HashCache_Get (op_hashes s) l"
    by simp_all
qed

text \<open>
  A reconcile keeps cache and config map in step unless its apply failed; one that reports no error
  puts them in step.
\<close>

lemma Reconcile_in_step:
  assumes "Reconcile lib sch r s = (e, s')" and "fair sch" and "flaky list_crs update_cr c0 (r_Client r)"
    and "r_HashCache r" and "apply_visible c0" and "status_local (update_cr c0) c0"
  shows "(in_step c0 label (r_OutputCM r) s \<and> (\<forall>q err. e = Returned q (Some err) \<longrightarrow> \<not> apply_error err)) \<or>
    (\<exists>q. e = Returned q None) \<Longrightarrow> in_step c0 label (r_OutputCM r) s'"
  using assms(1,2)
proof (cases rule: Reconcile_cases)
  case (applied items body res w s1 hit)
  have un: "unpublished c0 s1 s'"
    by (rule update_all_unpublished[OF status_local_flaky[OF assms(3,6)] applied(6)])
  have "holds_body c0 (r_OutputCM r) body w" by (rule apply_flaky_holds[OF assms(3,5) applied(3)])
  then have "holds_body c0 (r_OutputCM r) body (op_cluster s')"
    using un applied(4) by (simp add: holds_body_def unpublished_def)
  moreover have "HashCache_Get (op_hashes s') label = Some (Hash body)"
    using un applied(5) assms(4) apply_hash[OF applied(3)] by (simp add: unpublished_def hashes.lookup_put)
  ultimately show ?thesis by (rule in_step_holds)
qed (auto simp: only_metrics_def in_step_def)

end

end
