(* ===== verification/Loki_Controller.thy ===== *)
theory Loki_Controller
  imports Interference
begin

text \<open>
  \<open>internal/controller/loki_controller.go\<close>: the reconciler of the Loki target. The state is the
  operator's state \<open>'w op\<close>; every early return of \<open>Reconcile\<close> and every call that changes state is
  in the definitions, only the log lines are not.
\<close>

definition lokiTargetLabel :: string where
  "lokiTargetLabel = ''loki''"

definition lokiReconcileKey :: NamespacedName where
  "lokiReconcileKey = NamespacedName ''_target'' ''loki''"

section \<open>Drift\<close>

definition loki_checkDrift :: "'w LokiReconciler \<Rightarrow> 'w op \<Rightarrow> bool \<times> string" where
  "loki_checkDrift r s =
     (if \<not> r_HashCache r then (False, [])
      else
        case HashCache_Get (op_hashes s) lokiTargetLabel of
          None \<Rightarrow> (False, [])
        | Some ourHash \<Rightarrow>
            (case cl_GetConfigMap (r_Client r) (r_OutputCM r) (op_cluster s) of
               Inl err \<Rightarrow> (False, [])
             | Inr live \<Rightarrow>
                 if Hash (cm_body DataKey live) = ourHash then (False, [])
                 else (True, extractConflictingFieldManager (Some live) FieldManager)))"

section \<open>Gathering\<close>

definition loki_envelope ::
  "libs \<Rightarrow> 'w LokiReconciler \<Rightarrow> LokiTenantOverride \<Rightarrow> 'w op \<Rightarrow> crEnvelope \<times> 'w op" where
  "loki_envelope lib r cr s =
     (let dec = unmarshalRawExtension lib (spec_Overrides (cr_Spec cr));
          raw = (case dec of Inl err \<Rightarrow> [] | Inr raw \<Rightarrow> raw);
          effective = (if spec_TenantId (cr_Spec cr) = [] then cr_Namespace cr
                       else spec_TenantId (cr_Spec cr));
          e = \<lparr>env_CR = cr, env_Effective = effective,
               env_Override = \<lparr>ov_Namespace = cr_Namespace cr, ov_Name = cr_Name cr,
                 ov_TenantId = effective, ov_Weight = spec_Weight (cr_Spec cr), ov_Overrides = raw\<rparr>,
               env_ValidErr = None\<rparr>
      in case dec of
           Inl decErr \<Rightarrow>
             (e\<lparr>env_ValidErr := Some decErr\<rparr>,
              op_Inc ValidationErrorsTotal [lokiTargetLabel, effective, ''decode_failed''] s)
         | Inr _ \<Rightarrow>
             (case v_Validate (r_Validator r) raw of
                Some vErr \<Rightarrow>
                  (e\<lparr>env_ValidErr := Some vErr\<rparr>,
                   op_Inc ValidationErrorsTotal [lokiTargetLabel, effective, ''upstream_validate_failed''] s)
              | None \<Rightarrow> (e, s)))"

fun loki_gather_items ::
  "libs \<Rightarrow> 'w LokiReconciler \<Rightarrow> LokiTenantOverride list \<Rightarrow> 'w op \<Rightarrow> crEnvelope list \<times> 'w op" where
  "loki_gather_items lib r [] s = ([], s)"
| "loki_gather_items lib r (cr # items) s =
     (let (e, s1) = loki_envelope lib r cr s;
          (es, s2) = loki_gather_items lib r items s1
      in (e # es, s2))"

definition loki_gather ::
  "libs \<Rightarrow> 'w LokiReconciler \<Rightarrow> 'w op \<Rightarrow> (go_error + crEnvelope list) \<times> 'w op" where
  "loki_gather lib r s =
     (case cl_ListLoki (r_Client r) (op_cluster s) of
        Inl err \<Rightarrow> (Inl (ErrWrap ''list LokiTenantOverrides'' err), s)
      | Inr items \<Rightarrow> (let (es, s') = loki_gather_items lib r items s in (Inr es, s')))"

section \<open>Merging per tenant\<close>

fun loki_merge_groups ::
  "'w LokiReconciler \<Rightarrow> Override list gomap \<Rightarrow> Output \<Rightarrow> FieldConflict list gomap \<Rightarrow> 'w op \<Rightarrow>
     (Output \<times> FieldConflict list gomap) outcome \<times> 'w op" where
  "loki_merge_groups r [] out allConflicts s = (Done (out, allConflicts), s)"
| "loki_merge_groups r ((tenant, grp) # groups) out allConflicts s =
     (case TrackingMerge tenant (SortGroup grp) of
        Panic msg \<Rightarrow> (Panic msg, s)
      | Done (merged, conflicts) \<Rightarrow>
          (case v_Validate (r_Validator r) merged of
             Some mergedErr \<Rightarrow>
               loki_merge_groups r groups out allConflicts
                 (op_Inc ValidationErrorsTotal [lokiTargetLabel, tenant, ''merged_result_invalid''] s)
           | None \<Rightarrow>
               loki_merge_groups r groups (gomap_put tenant merged out)
                 (gomap_put tenant conflicts allConflicts) s))"

section \<open>Statuses and events\<close>

fun lookupCR :: "crEnvelope list \<Rightarrow> string \<Rightarrow> string \<Rightarrow> LokiTenantOverride option" where
  "lookupCR [] namespace name = None"
| "lookupCR (e # envelopes) namespace name =
     (if cr_Namespace (env_CR e) = namespace \<and> cr_Name (env_CR e) = name
      then Some (env_CR e) else lookupCR envelopes namespace name)"

definition loki_computeDesiredStatus ::
  "'w LokiReconciler \<Rightarrow> crEnvelope \<Rightarrow> Override list \<Rightarrow> apply_result \<Rightarrow> LokiTenantOverrideStatus" where
  "loki_computeDesiredStatus r e validOverrides applyRes =
     \<lparr>st_ObservedGeneration = cr_Generation (env_CR e),
      st_EffectiveTenantId = env_Effective e,
      st_Conditions =
        (case env_ValidErr e of
           None \<Rightarrow>
             [mk_condition ConditionValidated ConditionTrue ReasonValidationSucceeded
                ''parsed strictly and passed upstream Validate()'']
         | Some err \<Rightarrow>
             [mk_condition ConditionValidated ConditionFalse ReasonValidationFailed (Error err)]) @
        (case env_ValidErr e of
           None \<Rightarrow>
             [mk_condition ConditionApplied ConditionTrue ReasonWrittenToConfigMap
                (applied_message (r_OutputCM r) applyRes (ov_Weight (env_Override e)))]
         | Some err \<Rightarrow>
             [mk_condition ConditionApplied ConditionFalse ReasonValidationFailed
                ''skipped from merge due to Validated=False'']),
      st_ContributingPeers =
        (case env_ValidErr e of
           None \<Rightarrow> computePeers (env_Override e) validOverrides | Some err \<Rightarrow> [])\<rparr>"

fun loki_emit_losers ::
  "'w LokiReconciler \<Rightarrow> crEnvelope list \<Rightarrow> string \<Rightarrow> string \<Rightarrow> FieldConflict \<Rightarrow> CRRef list \<Rightarrow>
     'w op \<Rightarrow> 'w op" where
  "loki_emit_losers r envelopes tenant field fc [] s = s"
| "loki_emit_losers r envelopes tenant field fc (loser # losers) s =
     loki_emit_losers r envelopes tenant field fc losers
       (case lookupCR envelopes (ref_Namespace loser) (ref_Name loser) of
          None \<Rightarrow> s
        | Some cr \<Rightarrow>
            if r_Recorder r
            then op_Event (cr_id cr) EventTypeNormal ''FieldOverridden'' (conflict_message field fc tenant) s
            else s)"

fun loki_emit_conflicts ::
  "'w LokiReconciler \<Rightarrow> crEnvelope list \<Rightarrow> string \<Rightarrow> FieldConflict list \<Rightarrow> 'w op \<Rightarrow> 'w op" where
  "loki_emit_conflicts r envelopes tenant [] s = s"
| "loki_emit_conflicts r envelopes tenant (fc # conflicts) s =
     (let field = strings_Join (fc_Path fc) ''.'';
          s1 = (if fc_SameWeight fc
                then op_Inc FieldConflictsTotal [lokiTargetLabel, tenant, field] s else s)
      in loki_emit_conflicts r envelopes tenant conflicts
           (loki_emit_losers r envelopes tenant field fc (fc_Losers fc) s1))"

fun loki_emit_tenants ::
  "'w LokiReconciler \<Rightarrow> crEnvelope list \<Rightarrow> FieldConflict list gomap \<Rightarrow> 'w op \<Rightarrow> 'w op" where
  "loki_emit_tenants r envelopes [] s = s"
| "loki_emit_tenants r envelopes ((tenant, conflicts) # allConflicts) s =
     loki_emit_tenants r envelopes allConflicts (loki_emit_conflicts r envelopes tenant conflicts s)"

text \<open>One round of the loop over the envelopes: whether it hit a conflict, and the new state.\<close>

definition loki_update_one ::
  "'w LokiReconciler \<Rightarrow> crEnvelope \<Rightarrow> Override list \<Rightarrow> apply_result \<Rightarrow> 'w op \<Rightarrow> bool \<times> 'w op" where
  "loki_update_one r e validOverrides applyRes s =
     (let desired = loki_computeDesiredStatus r e validOverrides applyRes in
      if \<not> needsUpdate (cr_Status (env_CR e)) desired then (False, s)
      else
        let (st, s1) = updated_status (cr_Status (env_CR e)) desired s;
            (err, w) = cl_UpdateLokiStatus (r_Client r) ((env_CR e)\<lparr>cr_Status := st\<rparr>) (op_cluster s1);
            s2 = op_SetCluster w s1
        in case err of
             None \<Rightarrow> (False, s2)
           | Some err \<Rightarrow> if IsConflict err then (True, s2) else (False, s2))"

fun loki_update_all ::
  "'w LokiReconciler \<Rightarrow> crEnvelope list \<Rightarrow> Override list \<Rightarrow> apply_result \<Rightarrow> bool \<Rightarrow> 'w op \<Rightarrow>
     bool \<times> 'w op" where
  "loki_update_all r [] validOverrides applyRes conflictHit s = (conflictHit, s)"
| "loki_update_all r (e # envelopes) validOverrides applyRes conflictHit s =
     (let (hit, s1) = loki_update_one r e validOverrides applyRes s
      in loki_update_all r envelopes validOverrides applyRes (conflictHit \<or> hit) s1)"

definition loki_updateStatuses ::
  "schedule \<Rightarrow> 'w LokiReconciler \<Rightarrow> crEnvelope list \<Rightarrow> Override list \<Rightarrow> FieldConflict list gomap \<Rightarrow>
     apply_result \<Rightarrow> 'w op \<Rightarrow> bool \<times> 'w op" where
  "loki_updateStatuses sch r envelopes validOverrides allConflicts applyRes s =
     loki_update_all r envelopes validOverrides applyRes False
       (loki_emit_tenants r envelopes (sch_conflicts sch allConflicts) s)"

section \<open>Reconcile\<close>

text \<open>The part of \<open>Reconcile\<close> after a successful apply.\<close>

definition loki_finish ::
  "schedule \<Rightarrow> 'w LokiReconciler \<Rightarrow> bool \<times> string \<Rightarrow> crEnvelope list \<Rightarrow> Override list \<Rightarrow> Output \<Rightarrow>
     FieldConflict list gomap \<Rightarrow> apply_result \<Rightarrow> 'w op \<Rightarrow> reconcile_end \<times> 'w op" where
  "loki_finish sch r drift envelopes valid out allConflicts res s =
     (let s1 = op_Inc ReconcileTotal [lokiTargetLabel,
                 result_label (if res_Skipped res then ResultNoop else ResultSuccess)] s;
          s2 = (if r_HashCache r then op_SetHash lokiTargetLabel (res_Hash res) s1 else s1);
          s3 = (if fst drift \<and> r_Recorder r
                then (case cl_GetConfigMap (r_Client r) (r_OutputCM r) (op_cluster s2) of
                        Inr live \<Rightarrow> op_Event (cm_id live) EventTypeWarning ''ConfigMapDrifted''
                          (''third-party write reverted (field manager: '' @ snd drift @ '')'') s2
                      | Inl err \<Rightarrow> s2)
                else s2);
          s4 = op_SetGauge ActiveCRs [lokiTargetLabel] (int (length envelopes)) s3;
          s5 = op_SetGauge ActiveTenants [lokiTargetLabel] (int (length out)) s4;
          (now, s6) = Now s5;
          s7 = op_SetGauge LastReconcileTimestamp [lokiTargetLabel]
                 ((now - unix_epoch) div 1000000000) s6;
          (conflictHit, s8) = loki_updateStatuses sch r envelopes valid allConflicts res s7
      in (Returned (if conflictHit then statusConflictRequeueDelay else 0) None, s8))"

text \<open>The part from rendering on.\<close>

definition loki_publish ::
  "libs \<Rightarrow> schedule \<Rightarrow> 'w LokiReconciler \<Rightarrow> bool \<times> string \<Rightarrow> crEnvelope list \<Rightarrow> Override list \<Rightarrow>
     Output \<Rightarrow> FieldConflict list gomap \<Rightarrow> 'w op \<Rightarrow> reconcile_end \<times> 'w op" where
  "loki_publish lib sch r drift envelopes valid out allConflicts s =
     (case Render (lib_Encoder lib) out of
        Inl err \<Rightarrow>
          (Returned 0 (Some (ErrWrap ''render'' err)),
           op_Inc ReconcileTotal [lokiTargetLabel, result_label ResultWriteFailed] s)
      | Inr body \<Rightarrow>
          (let s1 = op_SetGauge OutputSizeBytes [lokiTargetLabel] (int (length body)) s in
           case apply_ConfigMap (r_Client r) (r_OutputCM r) body (op_cluster s1) of
             (Inl err, w) \<Rightarrow>
               (Returned 0 (Some (ErrWrap ''apply'' err)),
                op_Inc ReconcileTotal [lokiTargetLabel, result_label ResultWriteFailed] (op_SetCluster w s1))
           | (Inr res, w) \<Rightarrow>
               loki_finish sch r drift envelopes valid out allConflicts res (op_SetCluster w s1)))"

definition loki_Reconcile ::
  "libs \<Rightarrow> schedule \<Rightarrow> 'w LokiReconciler \<Rightarrow> 'w op \<Rightarrow> reconcile_end \<times> 'w op" where
  "loki_Reconcile lib sch r s =
     (let drift = loki_checkDrift r s;
          s1 = (if fst drift then op_Inc OutputDriftTotal [lokiTargetLabel, snd drift] s else s)
      in case loki_gather lib r s1 of
           (Inl err, s2) \<Rightarrow>
             (Returned 0 (Some err),
              op_Inc ReconcileTotal [lokiTargetLabel, result_label ResultWriteFailed] s2)
         | (Inr envelopes, s2) \<Rightarrow>
             (let valid = valid_overrides envelopes;
                  groups = GroupByTenant valid
              in case loki_merge_groups r (sch_groups sch groups) [] [] s2 of
                   (Panic msg, s3) \<Rightarrow> (Panicked msg, s3)
                 | (Done (out, allConflicts), s3) \<Rightarrow>
                     loki_publish lib sch r drift envelopes valid out allConflicts s3))"

section \<open>Registration\<close>

text \<open>A nil \<open>Recorder\<close> is replaced; both watches enqueue the singleton key.\<close>

definition loki_SetupWithManager :: "'w LokiReconciler \<Rightarrow> 'w LokiReconciler \<times> registration" where
  "loki_SetupWithManager r =
     (r\<lparr>r_Recorder := True\<rparr>,
      \<lparr>reg_Name = ''lokitenantoverride'',
       reg_Enqueue = (\<lambda>ev. case ev of
           CREvent kind name generationChanged \<Rightarrow>
             if kind = KindLoki \<and> generationChanged then [lokiReconcileKey] else []
         | ConfigMapEvent obj \<Rightarrow>
             if outputCMPredicate (r_OutputCM r) obj then configMapHandler lokiReconcileKey obj else [])\<rparr>)"

section \<open>The Loki reconciler fulfils the contract\<close>

lemma loki_envelope_spec:
  "loki_envelope lib r cr s =
     (spec_envelope lib (v_Validate (r_Validator r)) cr,
      count_invalid lokiTargetLabel lib (v_Validate (r_Validator r)) cr s)"
  by (simp add: loki_envelope_def spec_envelope_def count_invalid_def effective_tenant_def
      override_of_def Let_def split: sum.split option.split)

lemma loki_gather_items_spec:
  "loki_gather_items lib r items s =
     (map (spec_envelope lib (v_Validate (r_Validator r))) items,
      foldl (\<lambda>s cr. count_invalid lokiTargetLabel lib (v_Validate (r_Validator r)) cr s) s items)"
  by (induction items arbitrary: s) (simp_all add: loki_envelope_spec)

lemma loki_desired_spec:
  "loki_computeDesiredStatus r e valid res = spec_status (r_OutputCM r) e valid res"
  by (simp add: loki_computeDesiredStatus_def spec_status_def split: option.split)

lemma lookupCR_spec: "lookupCR envs namespace name = spec_lookup envs namespace name"
  by (induction envs) (auto simp: spec_lookup_def cr_id_def)

lemma loki_emit_losers_keeps:
  "op_cluster (loki_emit_losers r envs t f fc ls s) = op_cluster s \<and>
   op_hashes (loki_emit_losers r envs t f fc ls s) = op_hashes s \<and>
   op_clock (loki_emit_losers r envs t f fc ls s) = op_clock s"
  by (induction ls arbitrary: s) (simp_all split: option.split)

lemma loki_emit_conflicts_keeps:
  "op_cluster (loki_emit_conflicts r envs t fcs s) = op_cluster s \<and>
   op_hashes (loki_emit_conflicts r envs t fcs s) = op_hashes s \<and>
   op_clock (loki_emit_conflicts r envs t fcs s) = op_clock s"
  by (induction fcs arbitrary: s) (simp_all add: Let_def loki_emit_losers_keeps)

lemma loki_emit_tenants_keeps:
  "op_cluster (loki_emit_tenants r envs cs s) = op_cluster s \<and>
   op_hashes (loki_emit_tenants r envs cs s) = op_hashes s \<and>
   op_clock (loki_emit_tenants r envs cs s) = op_clock s"
  by (induction cs arbitrary: s rule: list.induct) (auto simp: loki_emit_conflicts_keeps)

lemma loki_emit_losers_events:
  "op_events (loki_emit_losers r envs t (strings_Join (fc_Path fc) ''.'') fc ls s) = op_events s @
     (if r_Recorder r then concat (map (loser_event envs t fc) ls) else [])"
  by (induction ls arbitrary: s) (simp_all add: lookupCR_spec loser_event_def split: option.split)

lemma loki_emit_conflicts_events:
  "op_events (loki_emit_conflicts r envs t fcs s) = op_events s @
     (if r_Recorder r then concat (map (loser_events envs t) fcs) else [])"
  by (induction fcs arbitrary: s) (simp_all add: Let_def loki_emit_losers_events loser_events_def)

lemma loki_emit_tenants_events:
  "op_events (loki_emit_tenants r envs cs s) = op_events s @
     (if r_Recorder r then conflict_events envs cs else [])"
proof (induction cs arbitrary: s)
  case (Cons tc cs)
  then show ?case by (cases tc) (simp add: loki_emit_conflicts_events conflict_events_def)
qed (simp add: conflict_events_def)

lemma loki_emit_losers_metrics: "op_metrics (loki_emit_losers r envs t f fc ls s) = op_metrics s"
  by (induction ls arbitrary: s) (simp_all split: option.split)

lemma loki_emit_conflicts_metrics:
  "op_metrics (loki_emit_conflicts r envs t fcs s) =
     foldl (\<lambda>m fc. if fc_SameWeight fc
       then Inc FieldConflictsTotal [lokiTargetLabel, t, strings_Join (fc_Path fc) ''.''] m else m) (op_metrics s) fcs"
  by (induction fcs arbitrary: s) (simp_all add: Let_def loki_emit_losers_metrics)

lemma loki_emit_tenants_metrics:
  "op_metrics (loki_emit_tenants r envs cs s) = conflict_metrics lokiTargetLabel cs (op_metrics s)"
proof (induction cs arbitrary: s)
  case (Cons tc cs)
  then show ?case by (cases tc) (simp add: loki_emit_conflicts_metrics conflict_metrics_def)
qed (simp add: conflict_metrics_def)

lemma loki_update_one_spec:
  "loki_update_one r e valid res s =
     (let desired = spec_status (r_OutputCM r) e valid res in
      if \<not> needsUpdate (cr_Status (env_CR e)) desired then (False, s)
      else
        let (st, s1) = updated_status (cr_Status (env_CR e)) desired s;
            (err, w) = cl_UpdateLokiStatus (r_Client r) ((env_CR e)\<lparr>cr_Status := st\<rparr>) (op_cluster s1);
            s2 = op_SetCluster w s1
        in (case err of None \<Rightarrow> False | Some err \<Rightarrow> IsConflict err, s2))"
  by (simp add: loki_update_one_def loki_desired_spec Let_def split: prod.split option.split)

interpretation loki: target_reconciler lokiTargetLabel cl_ListLoki "''list LokiTenantOverrides''"
  cl_UpdateLokiStatus loki_checkDrift loki_gather loki_merge_groups loki_emit_tenants
  loki_update_one loki_update_all loki_finish loki_publish loki_Reconcile
proof (unfold_locales, goal_cases)
  case (1 r s)
  show ?case by (simp add: loki_checkDrift_def)
next
  case (2 lib r s)
  show ?case by (simp add: loki_gather_def loki_gather_items_spec split: sum.split)
next
  case (3 r out cs s)
  show ?case by simp
next
  case (4 r t g gs out cs s)
  show ?case by simp
next
  case (5 r envs cs s)
  show ?case by (rule loki_emit_tenants_keeps)
next
  case (6 r envs cs s)
  show ?case by (rule loki_emit_tenants_events)
next
  case (7 r e valid res s)
  show ?case by (rule loki_update_one_spec)
next
  case (8 r valid res hit s)
  show ?case by simp
next
  case (9 r e envs valid res hit s)
  show ?case by simp
next
  case (10 sch r drift envs valid out cs res s)
  show ?case by (simp only: loki_finish_def loki_updateStatuses_def)
next
  case (11 lib sch r drift envs valid out cs s)
  show ?case by (simp only: loki_publish_def)
next
  case (12 lib sch r s)
  show ?case by (simp only: loki_Reconcile_def Let_def)
next
  case (13 r envs cs s)
  show ?case by (rule loki_emit_tenants_metrics)
qed

end
