(* ===== verification/Mimir_Controller.thy ===== *)
theory Mimir_Controller
  imports Interference
begin

text \<open>
  \<open>internal/controller/mimir_controller.go\<close>: the reconciler of the Mimir target, which the
  code keeps parallel to the Loki one rather than sharing it; so does this theory. It interprets
  the same contract.
\<close>

definition mimirTargetLabel :: string where
  "mimirTargetLabel = ''mimir''"

definition mimirReconcileKey :: NamespacedName where
  "mimirReconcileKey = NamespacedName ''_target'' ''mimir''"

section \<open>Drift\<close>

definition mimir_checkDrift :: "'w MimirReconciler \<Rightarrow> 'w op \<Rightarrow> bool \<times> string" where
  "mimir_checkDrift r s =
     (if \<not> r_HashCache r then (False, [])
      else
        case HashCache_Get (op_hashes s) mimirTargetLabel of
          None \<Rightarrow> (False, [])
        | Some ourHash \<Rightarrow>
            (case cl_GetConfigMap (r_Client r) (r_OutputCM r) (op_cluster s) of
               Inl err \<Rightarrow> (False, [])
             | Inr live \<Rightarrow>
                 if Hash (cm_body DataKey live) = ourHash then (False, [])
                 else (True, extractConflictingFieldManager (Some live) FieldManager)))"

section \<open>Gathering\<close>

definition mimir_envelope ::
  "libs \<Rightarrow> 'w MimirReconciler \<Rightarrow> MimirTenantOverride \<Rightarrow> 'w op \<Rightarrow> mimirCREnvelope \<times> 'w op" where
  "mimir_envelope lib r cr s =
     (let dec = unmarshalRawExtension lib (spec_Overrides (cr_Spec cr));
          raw = (case dec of Inl err \<Rightarrow> [] | Inr raw \<Rightarrow> raw);
          effective = (if spec_TenantId (cr_Spec cr) = [] then cr_Namespace cr
                       else spec_TenantId (cr_Spec cr));
          e = \<lparr>env_CR = cr, env_Effective = effective,
               env_Override = \<lparr>ov_Namespace = cr_Namespace cr, ov_Name = cr_Name cr,
                 ov_TenantId = effective, ov_Weight = spec_Weight (cr_Spec cr), ov_Overrides = raw\<rparr>,
               env_ValidErr = None\<rparr>
      in case dec of
           Inl decErr \<Rightarrow>
             (e\<lparr>env_ValidErr := Some decErr\<rparr>,
              op_Inc ValidationErrorsTotal [mimirTargetLabel, effective, ''decode_failed''] s)
         | Inr _ \<Rightarrow>
             (case v_Validate (r_Validator r) raw of
                Some vErr \<Rightarrow>
                  (e\<lparr>env_ValidErr := Some vErr\<rparr>,
                   op_Inc ValidationErrorsTotal [mimirTargetLabel, effective, ''upstream_validate_failed''] s)
              | None \<Rightarrow> (e, s)))"

fun mimir_gather_items ::
  "libs \<Rightarrow> 'w MimirReconciler \<Rightarrow> MimirTenantOverride list \<Rightarrow> 'w op \<Rightarrow> mimirCREnvelope list \<times> 'w op" where
  "mimir_gather_items lib r [] s = ([], s)"
| "mimir_gather_items lib r (cr # items) s =
     (let (e, s1) = mimir_envelope lib r cr s;
          (es, s2) = mimir_gather_items lib r items s1
      in (e # es, s2))"

definition mimir_gather ::
  "libs \<Rightarrow> 'w MimirReconciler \<Rightarrow> 'w op \<Rightarrow> (go_error + mimirCREnvelope list) \<times> 'w op" where
  "mimir_gather lib r s =
     (case cl_ListMimir (r_Client r) (op_cluster s) of
        Inl err \<Rightarrow> (Inl (ErrWrap ''list MimirTenantOverrides'' err), s)
      | Inr items \<Rightarrow> (let (es, s') = mimir_gather_items lib r items s in (Inr es, s')))"

section \<open>Merging per tenant\<close>

fun mimir_merge_groups ::
  "'w MimirReconciler \<Rightarrow> Override list gomap \<Rightarrow> Output \<Rightarrow> FieldConflict list gomap \<Rightarrow> 'w op \<Rightarrow>
     (Output \<times> FieldConflict list gomap) outcome \<times> 'w op" where
  "mimir_merge_groups r [] out allConflicts s = (Done (out, allConflicts), s)"
| "mimir_merge_groups r ((tenant, grp) # groups) out allConflicts s =
     (case TrackingMerge tenant (SortGroup grp) of
        Panic msg \<Rightarrow> (Panic msg, s)
      | Done (merged, conflicts) \<Rightarrow>
          (case v_Validate (r_Validator r) merged of
             Some mergedErr \<Rightarrow>
               mimir_merge_groups r groups out allConflicts
                 (op_Inc ValidationErrorsTotal [mimirTargetLabel, tenant, ''merged_result_invalid''] s)
           | None \<Rightarrow>
               mimir_merge_groups r groups (gomap_put tenant merged out)
                 (gomap_put tenant conflicts allConflicts) s))"

section \<open>Statuses and events\<close>

fun lookupMimirCR :: "mimirCREnvelope list \<Rightarrow> string \<Rightarrow> string \<Rightarrow> MimirTenantOverride option" where
  "lookupMimirCR [] namespace name = None"
| "lookupMimirCR (e # envelopes) namespace name =
     (if cr_Namespace (env_CR e) = namespace \<and> cr_Name (env_CR e) = name
      then Some (env_CR e) else lookupMimirCR envelopes namespace name)"

definition mimir_computeDesiredStatus ::
  "'w MimirReconciler \<Rightarrow> mimirCREnvelope \<Rightarrow> Override list \<Rightarrow> apply_result \<Rightarrow> MimirTenantOverrideStatus" where
  "mimir_computeDesiredStatus r e validOverrides applyRes =
     \<lparr>st_ObservedGeneration = cr_Generation (env_CR e),
      st_EffectiveTenantId = env_Effective e,
      st_Conditions =
        (case env_ValidErr e of
           None \<Rightarrow>
             [mk_condition ConditionValidated ConditionTrue ReasonValidationSucceeded
                ''parsed strictly and passed upstream Validate()'']
         | Some err \<Rightarrow>
             [mk_condition ConditionValidated ConditionFalse ReasonValidationFailed (Error err)]) @
        (case env_ValidErr e of
           None \<Rightarrow>
             [mk_condition ConditionApplied ConditionTrue ReasonWrittenToConfigMap
                (applied_message (r_OutputCM r) applyRes (ov_Weight (env_Override e)))]
         | Some err \<Rightarrow>
             [mk_condition ConditionApplied ConditionFalse ReasonValidationFailed
                ''skipped from merge due to Validated=False'']),
      st_ContributingPeers =
        (case env_ValidErr e of
           None \<Rightarrow> computePeers (env_Override e) validOverrides | Some err \<Rightarrow> [])\<rparr>"

fun mimir_emit_losers ::
  "'w MimirReconciler \<Rightarrow> mimirCREnvelope list \<Rightarrow> string \<Rightarrow> string \<Rightarrow> FieldConflict \<Rightarrow> CRRef list \<Rightarrow>
     'w op \<Rightarrow> 'w op" where
  "mimir_emit_losers r envelopes tenant field fc [] s = s"
| "mimir_emit_losers r envelopes tenant field fc (loser # losers) s =
     mimir_emit_losers r envelopes tenant field fc losers
       (case lookupMimirCR envelopes (ref_Namespace loser) (ref_Name loser) of
          None \<Rightarrow> s
        | Some cr \<Rightarrow>
            if r_Recorder r
            then op_Event (cr_id cr) EventTypeNormal ''FieldOverridden'' (conflict_message field fc tenant) s
            else s)"

fun mimir_emit_conflicts ::
  "'w MimirReconciler \<Rightarrow> mimirCREnvelope list \<Rightarrow> string \<Rightarrow> FieldConflict list \<Rightarrow> 'w op \<Rightarrow> 'w op" where
  "mimir_emit_conflicts r envelopes tenant [] s = s"
| "mimir_emit_conflicts r envelopes tenant (fc # conflicts) s =
     (let field = strings_Join (fc_Path fc) ''.'';
          s1 = (if fc_SameWeight fc
                then op_Inc FieldConflictsTotal [mimirTargetLabel, tenant, field] s else s)
      in mimir_emit_conflicts r envelopes tenant conflicts
           (mimir_emit_losers r envelopes tenant field fc (fc_Losers fc) s1))"

fun mimir_emit_tenants ::
  "'w MimirReconciler \<Rightarrow> mimirCREnvelope list \<Rightarrow> FieldConflict list gomap \<Rightarrow> 'w op \<Rightarrow> 'w op" where
  "mimir_emit_tenants r envelopes [] s = s"
| "mimir_emit_tenants r envelopes ((tenant, conflicts) # allConflicts) s =
     mimir_emit_tenants r envelopes allConflicts (mimir_emit_conflicts r envelopes tenant conflicts s)"

text \<open>One round of the loop over the envelopes: whether it hit a conflict, and the new state.\<close>

definition mimir_update_one ::
  "'w MimirReconciler \<Rightarrow> mimirCREnvelope \<Rightarrow> Override list \<Rightarrow> apply_result \<Rightarrow> 'w op \<Rightarrow> bool \<times> 'w op" where
  "mimir_update_one r e validOverrides applyRes s =
     (let desired = mimir_computeDesiredStatus r e validOverrides applyRes in
      if \<not> needsUpdate (cr_Status (env_CR e)) desired then (False, s)
      else
        let (st, s1) = updated_status (cr_Status (env_CR e)) desired s;
            (err, w) = cl_UpdateMimirStatus (r_Client r) ((env_CR e)\<lparr>cr_Status := st\<rparr>) (op_cluster s1);
            s2 = op_SetCluster w s1
        in case err of
             None \<Rightarrow> (False, s2)
           | Some err \<Rightarrow> if IsConflict err then (True, s2) else (False, s2))"

fun mimir_update_all ::
  "'w MimirReconciler \<Rightarrow> mimirCREnvelope list \<Rightarrow> Override list \<Rightarrow> apply_result \<Rightarrow> bool \<Rightarrow> 'w op \<Rightarrow>
     bool \<times> 'w op" where
  "mimir_update_all r [] validOverrides applyRes conflictHit s = (conflictHit, s)"
| "mimir_update_all r (e # envelopes) validOverrides applyRes conflictHit s =
     (let (hit, s1) = mimir_update_one r e validOverrides applyRes s
      in mimir_update_all r envelopes validOverrides applyRes (conflictHit \<or> hit) s1)"

definition mimir_updateStatuses ::
  "schedule \<Rightarrow> 'w MimirReconciler \<Rightarrow> mimirCREnvelope list \<Rightarrow> Override list \<Rightarrow> FieldConflict list gomap \<Rightarrow>
     apply_result \<Rightarrow> 'w op \<Rightarrow> bool \<times> 'w op" where
  "mimir_updateStatuses sch r envelopes validOverrides allConflicts applyRes s =
     mimir_update_all r envelopes validOverrides applyRes False
       (mimir_emit_tenants r envelopes (sch_conflicts sch allConflicts) s)"

section \<open>Reconcile\<close>

text \<open>The part of \<open>Reconcile\<close> after a successful apply.\<close>

definition mimir_finish ::
  "schedule \<Rightarrow> 'w MimirReconciler \<Rightarrow> bool \<times> string \<Rightarrow> mimirCREnvelope list \<Rightarrow> Override list \<Rightarrow> Output \<Rightarrow>
     FieldConflict list gomap \<Rightarrow> apply_result \<Rightarrow> 'w op \<Rightarrow> reconcile_end \<times> 'w op" where
  "mimir_finish sch r drift envelopes valid out allConflicts res s =
     (let s1 = op_Inc ReconcileTotal [mimirTargetLabel,
                 result_label (if res_Skipped res then ResultNoop else ResultSuccess)] s;
          s2 = (if r_HashCache r then op_SetHash mimirTargetLabel (res_Hash res) s1 else s1);
          s3 = (if fst drift \<and> r_Recorder r
                then (case cl_GetConfigMap (r_Client r) (r_OutputCM r) (op_cluster s2) of
                        Inr live \<Rightarrow> op_Event (cm_id live) EventTypeWarning ''ConfigMapDrifted''
                          (''third-party write reverted (field manager: '' @ snd drift @ '')'') s2
                      | Inl err \<Rightarrow> s2)
                else s2);
          s4 = op_SetGauge ActiveCRs [mimirTargetLabel] (int (length envelopes)) s3;
          s5 = op_SetGauge ActiveTenants [mimirTargetLabel] (int (length out)) s4;
          (now, s6) = Now s5;
          s7 = op_SetGauge LastReconcileTimestamp [mimirTargetLabel]
                 ((now - unix_epoch) div 1000000000) s6;
          (conflictHit, s8) = mimir_updateStatuses sch r envelopes valid allConflicts res s7
      in (Returned (if conflictHit then statusConflictRequeueDelay else 0) None, s8))"

text \<open>The part from rendering on.\<close>

definition mimir_publish ::
  "libs \<Rightarrow> schedule \<Rightarrow> 'w MimirReconciler \<Rightarrow> bool \<times> string \<Rightarrow> mimirCREnvelope list \<Rightarrow> Override list \<Rightarrow>
     Output \<Rightarrow> FieldConflict list gomap \<Rightarrow> 'w op \<Rightarrow> reconcile_end \<times> 'w op" where
  "mimir_publish lib sch r drift envelopes valid out allConflicts s =
     (case Render (lib_Encoder lib) out of
        Inl err \<Rightarrow>
          (Returned 0 (Some (ErrWrap ''render'' err)),
           op_Inc ReconcileTotal [mimirTargetLabel, result_label ResultWriteFailed] s)
      | Inr body \<Rightarrow>
          (let s1 = op_SetGauge OutputSizeBytes [mimirTargetLabel] (int (length body)) s in
           case apply_ConfigMap (r_Client r) (r_OutputCM r) body (op_cluster s1) of
             (Inl err, w) \<Rightarrow>
               (Returned 0 (Some (ErrWrap ''apply'' err)),
                op_Inc ReconcileTotal [mimirTargetLabel, result_label ResultWriteFailed] (op_SetCluster w s1))
           | (Inr res, w) \<Rightarrow>
               mimir_finish sch r drift envelopes valid out allConflicts res (op_SetCluster w s1)))"

definition mimir_Reconcile ::
  "libs \<Rightarrow> schedule \<Rightarrow> 'w MimirReconciler \<Rightarrow> 'w op \<Rightarrow> reconcile_end \<times> 'w op" where
  "mimir_Reconcile lib sch r s =
     (let drift = mimir_checkDrift r s;
          s1 = (if fst drift then op_Inc OutputDriftTotal [mimirTargetLabel, snd drift] s else s)
      in case mimir_gather lib r s1 of
           (Inl err, s2) \<Rightarrow>
             (Returned 0 (Some err),
              op_Inc ReconcileTotal [mimirTargetLabel, result_label ResultWriteFailed] s2)
         | (Inr envelopes, s2) \<Rightarrow>
             (let valid = valid_overrides envelopes;
                  groups = GroupByTenant valid
              in case mimir_merge_groups r (sch_groups sch groups) [] [] s2 of
                   (Panic msg, s3) \<Rightarrow> (Panicked msg, s3)
                 | (Done (out, allConflicts), s3) \<Rightarrow>
                     mimir_publish lib sch r drift envelopes valid out allConflicts s3))"

section \<open>Registration\<close>

text \<open>A nil \<open>Recorder\<close> is replaced; both watches enqueue the singleton key.\<close>

definition mimir_SetupWithManager :: "'w MimirReconciler \<Rightarrow> 'w MimirReconciler \<times> registration" where
  "mimir_SetupWithManager r =
     (r\<lparr>r_Recorder := True\<rparr>,
      \<lparr>reg_Name = ''mimirtenantoverride'',
       reg_Enqueue = (\<lambda>ev. case ev of
           CREvent kind name generationChanged \<Rightarrow>
             if kind = KindMimir \<and> generationChanged then [mimirReconcileKey] else []
         | ConfigMapEvent obj \<Rightarrow>
             if outputCMPredicate (r_OutputCM r) obj then configMapHandler mimirReconcileKey obj else [])\<rparr>)"

section \<open>The Mimir reconciler fulfils the contract\<close>

lemma mimir_envelope_spec:
  "mimir_envelope lib r cr s =
     (spec_envelope lib (v_Validate (r_Validator r)) cr,
      count_invalid mimirTargetLabel lib (v_Validate (r_Validator r)) cr s)"
  by (simp add: mimir_envelope_def spec_envelope_def count_invalid_def effective_tenant_def
      override_of_def Let_def split: sum.split option.split)

lemma mimir_gather_items_spec:
  "mimir_gather_items lib r items s =
     (map (spec_envelope lib (v_Validate (r_Validator r))) items,
      foldl (\<lambda>s cr. count_invalid mimirTargetLabel lib (v_Validate (r_Validator r)) cr s) s items)"
  by (induction items arbitrary: s) (simp_all add: mimir_envelope_spec)

lemma mimir_desired_spec:
  "mimir_computeDesiredStatus r e valid res = spec_status (r_OutputCM r) e valid res"
  by (simp add: mimir_computeDesiredStatus_def spec_status_def split: option.split)

lemma lookupMimirCR_spec: "lookupMimirCR envs namespace name = spec_lookup envs namespace name"
  by (induction envs) (auto simp: spec_lookup_def cr_id_def)

lemma mimir_emit_losers_keeps:
  "op_cluster (mimir_emit_losers r envs t f fc ls s) = op_cluster s \<and>
   op_hashes (mimir_emit_losers r envs t f fc ls s) = op_hashes s \<and>
   op_clock (mimir_emit_losers r envs t f fc ls s) = op_clock s"
  by (induction ls arbitrary: s) (simp_all split: option.split)

lemma mimir_emit_conflicts_keeps:
  "op_cluster (mimir_emit_conflicts r envs t fcs s) = op_cluster s \<and>
   op_hashes (mimir_emit_conflicts r envs t fcs s) = op_hashes s \<and>
   op_clock (mimir_emit_conflicts r envs t fcs s) = op_clock s"
  by (induction fcs arbitrary: s) (simp_all add: Let_def mimir_emit_losers_keeps)

lemma mimir_emit_tenants_keeps:
  "op_cluster (mimir_emit_tenants r envs cs s) = op_cluster s \<and>
   op_hashes (mimir_emit_tenants r envs cs s) = op_hashes s \<and>
   op_clock (mimir_emit_tenants r envs cs s) = op_clock s"
  by (induction cs arbitrary: s rule: list.induct) (auto simp: mimir_emit_conflicts_keeps)

lemma mimir_emit_losers_events:
  "op_events (mimir_emit_losers r envs t (strings_Join (fc_Path fc) ''.'') fc ls s) = op_events s @
     (if r_Recorder r then concat (map (loser_event envs t fc) ls) else [])"
  by (induction ls arbitrary: s) (simp_all add: lookupMimirCR_spec loser_event_def split: option.split)

lemma mimir_emit_conflicts_events:
  "op_events (mimir_emit_conflicts r envs t fcs s) = op_events s @
     (if r_Recorder r then concat (map (loser_events envs t) fcs) else [])"
  by (induction fcs arbitrary: s) (simp_all add: Let_def mimir_emit_losers_events loser_events_def)

lemma mimir_emit_tenants_events:
  "op_events (mimir_emit_tenants r envs cs s) = op_events s @
     (if r_Recorder r then conflict_events envs cs else [])"
proof (induction cs arbitrary: s)
  case (Cons tc cs)
  then show ?case by (cases tc) (simp add: mimir_emit_conflicts_events conflict_events_def)
qed (simp add: conflict_events_def)

lemma mimir_emit_losers_metrics: "op_metrics (mimir_emit_losers r envs t f fc ls s) = op_metrics s"
  by (induction ls arbitrary: s) (simp_all split: option.split)

lemma mimir_emit_conflicts_metrics:
  "op_metrics (mimir_emit_conflicts r envs t fcs s) =
     foldl (\<lambda>m fc. if fc_SameWeight fc
       then Inc FieldConflictsTotal [mimirTargetLabel, t, strings_Join (fc_Path fc) ''.''] m else m) (op_metrics s) fcs"
  by (induction fcs arbitrary: s) (simp_all add: Let_def mimir_emit_losers_metrics)

lemma mimir_emit_tenants_metrics:
  "op_metrics (mimir_emit_tenants r envs cs s) = conflict_metrics mimirTargetLabel cs (op_metrics s)"
proof (induction cs arbitrary: s)
  case (Cons tc cs)
  then show ?case by (cases tc) (simp add: mimir_emit_conflicts_metrics conflict_metrics_def)
qed (simp add: conflict_metrics_def)

lemma mimir_update_one_spec:
  "mimir_update_one r e valid res s =
     (let desired = spec_status (r_OutputCM r) e valid res in
      if \<not> needsUpdate (cr_Status (env_CR e)) desired then (False, s)
      else
        let (st, s1) = updated_status (cr_Status (env_CR e)) desired s;
            (err, w) = cl_UpdateMimirStatus (r_Client r) ((env_CR e)\<lparr>cr_Status := st\<rparr>) (op_cluster s1);
            s2 = op_SetCluster w s1
        in (case err of None \<Rightarrow> False | Some err \<Rightarrow> IsConflict err, s2))"
  by (simp add: mimir_update_one_def mimir_desired_spec Let_def split: prod.split option.split)

interpretation mimir: target_reconciler mimirTargetLabel cl_ListMimir "''list MimirTenantOverrides''"
  cl_UpdateMimirStatus mimir_checkDrift mimir_gather mimir_merge_groups mimir_emit_tenants
  mimir_update_one mimir_update_all mimir_finish mimir_publish mimir_Reconcile
proof (unfold_locales, goal_cases)
  case (1 r s)
  show ?case by (simp add: mimir_checkDrift_def)
next
  case (2 lib r s)
  show ?case by (simp add: mimir_gather_def mimir_gather_items_spec split: sum.split)
next
  case (3 r out cs s)
  show ?case by simp
next
  case (4 r t g gs out cs s)
  show ?case by simp
next
  case (5 r envs cs s)
  show ?case by (rule mimir_emit_tenants_keeps)
next
  case (6 r envs cs s)
  show ?case by (rule mimir_emit_tenants_events)
next
  case (7 r e valid res s)
  show ?case by (rule mimir_update_one_spec)
next
  case (8 r valid res hit s)
  show ?case by simp
next
  case (9 r e envs valid res hit s)
  show ?case by simp
next
  case (10 sch r drift envs valid out cs res s)
  show ?case by (simp only: mimir_finish_def mimir_updateStatuses_def)
next
  case (11 lib sch r drift envs valid out cs s)
  show ?case by (simp only: mimir_publish_def)
next
  case (12 lib sch r s)
  show ?case by (simp only: mimir_Reconcile_def Let_def)
next
  case (13 r envs cs s)
  show ?case by (rule mimir_emit_tenants_metrics)
qed

end
