(* ===== verification/Disabled.thy ===== *)
theory Disabled
  imports Status Drift
begin

text \<open>
  \<open>internal/controller/disabled.go\<close>: the reconcilers that run for a kind whose target is disabled
  and put \<open>Applied=False\<close> with the reason \<open>TargetDisabled\<close> on each object. What the two share is the
  locale \<open>disabled_reconciler\<close>, interpreted on both.
\<close>

section \<open>The shared status update\<close>

fun time_of_condition :: "Condition list \<Rightarrow> string \<Rightarrow> gotime" where
  "time_of_condition [] t = zero_time"
| "time_of_condition (c # cs) t =
     (if cond_Type c = t then cond_LastTransitionTime c else time_of_condition cs t)"

definition conditionTransitioned :: "Condition list \<Rightarrow> Condition list \<Rightarrow> string \<Rightarrow> bool" where
  "conditionTransitioned before after t \<longleftrightarrow> time_of_condition after t \<noteq> time_of_condition before t"

definition disabled_condition :: "string \<Rightarrow> Condition" where
  "disabled_condition target =
     \<lparr>cond_Type = ConditionApplied, cond_Status = ConditionFalse, cond_ObservedGeneration = 0,
      cond_LastTransitionTime = zero_time, cond_Reason = ReasonTargetDisabled,
      cond_Message = ''backend '' @ strconv_Quote target @ '' is disabled in operator configuration''\<rparr>"

text \<open>The result is whether to write, and the object with its conditions and generation set.\<close>

definition applyDisabledStatus ::
  "bool \<Rightarrow> TenantOverride \<Rightarrow> string \<Rightarrow> 'w op \<Rightarrow> (bool \<times> TenantOverride) \<times> 'w op" where
  "applyDisabledStatus recorder cr target s =
     (let desired = disabled_condition target;
          existing = st_Conditions (cr_Status cr);
          (updated, s1) = op_upsert existing desired s;
          transitioned = conditionTransitioned existing updated ConditionApplied;
          genDrifted = (st_ObservedGeneration (cr_Status cr) \<noteq> cr_Generation cr);
          cr' = cr\<lparr>cr_Status := (cr_Status cr)\<lparr>st_Conditions := updated,
                    st_ObservedGeneration := cr_Generation cr\<rparr>\<rparr>;
          s2 = (if transitioned \<and> recorder
                then op_Event (cr_id cr) EventTypeWarning ''TargetDisabled'' (cond_Message desired) s1
                else s1)
      in ((transitioned \<or> genDrifted, cr'), s2))"

section \<open>The reconcilers\<close>

record 'w disabled_struct =
  d_Client :: "'w client"
  d_Recorder :: bool

type_synonym 'w LokiDisabledReconciler = "'w disabled_struct"
type_synonym 'w MimirDisabledReconciler = "'w disabled_struct"

text \<open>A result: the requeue delay and the error.\<close>

type_synonym disabled_result = "int \<times> go_error option"

definition loki_disabled_Reconcile ::
  "'w LokiDisabledReconciler \<Rightarrow> NamespacedName \<Rightarrow> 'w op \<Rightarrow> disabled_result \<times> 'w op" where
  "loki_disabled_Reconcile r req s =
     (case cl_GetLoki (d_Client r) req (op_cluster s) of
        Inl err \<Rightarrow> ((0, IgnoreNotFound err), s)
      | Inr cr \<Rightarrow>
          (let ((changed, cr'), s1) = applyDisabledStatus (d_Recorder r) cr ''loki'' s in
           if \<not> changed then ((0, None), s1)
           else
             let (err, w) = cl_UpdateLokiStatus (d_Client r) cr' (op_cluster s1);
                 s2 = op_SetCluster w s1
             in case err of
                  None \<Rightarrow> ((0, None), s2)
                | Some err \<Rightarrow>
                    if IsConflict err then ((statusConflictRequeueDelay, None), s2)
                    else ((0, IgnoreNotFound (ErrWrap ''update status'' err)), s2)))"

definition mimir_disabled_Reconcile ::
  "'w MimirDisabledReconciler \<Rightarrow> NamespacedName \<Rightarrow> 'w op \<Rightarrow> disabled_result \<times> 'w op" where
  "mimir_disabled_Reconcile r req s =
     (case cl_GetMimir (d_Client r) req (op_cluster s) of
        Inl err \<Rightarrow> ((0, IgnoreNotFound err), s)
      | Inr cr \<Rightarrow>
          (let ((changed, cr'), s1) = applyDisabledStatus (d_Recorder r) cr ''mimir'' s in
           if \<not> changed then ((0, None), s1)
           else
             let (err, w) = cl_UpdateMimirStatus (d_Client r) cr' (op_cluster s1);
                 s2 = op_SetCluster w s1
             in case err of
                  None \<Rightarrow> ((0, None), s2)
                | Some err \<Rightarrow>
                    if IsConflict err then ((statusConflictRequeueDelay, None), s2)
                    else ((0, IgnoreNotFound (ErrWrap ''update status'' err)), s2)))"

text \<open>\<open>For\<close> watches one kind and enqueues the object of the event.\<close>

definition loki_disabled_SetupWithManager ::
  "'w LokiDisabledReconciler \<Rightarrow> 'w LokiDisabledReconciler \<times> registration" where
  "loki_disabled_SetupWithManager r =
     (r\<lparr>d_Recorder := True\<rparr>,
      \<lparr>reg_Name = ''lokitenantoverride-disabled'',
       reg_Enqueue = (\<lambda>ev. case ev of
           CREvent kind name generationChanged \<Rightarrow>
             if kind = KindLoki \<and> generationChanged then [name] else []
         | ConfigMapEvent obj \<Rightarrow> [])\<rparr>)"

definition mimir_disabled_SetupWithManager ::
  "'w MimirDisabledReconciler \<Rightarrow> 'w MimirDisabledReconciler \<times> registration" where
  "mimir_disabled_SetupWithManager r =
     (r\<lparr>d_Recorder := True\<rparr>,
      \<lparr>reg_Name = ''mimirtenantoverride-disabled'',
       reg_Enqueue = (\<lambda>ev. case ev of
           CREvent kind name generationChanged \<Rightarrow>
             if kind = KindMimir \<and> generationChanged then [name] else []
         | ConfigMapEvent obj \<Rightarrow> [])\<rparr>)"

section \<open>Lemmas on the status update\<close>

lemma time_of_condition_eq:
  "time_of_condition cs t = (case cond_of cs t of None \<Rightarrow> zero_time | Some c \<Rightarrow> cond_LastTransitionTime c)"
  by (induction cs) auto

text \<open>
  A transition is seen as a change of time: when the condition is in force already the object
  keeps its time; otherwise it takes the clock's reading, which has to differ from the old one.
\<close>

lemma applyDisabled_settled:
  assumes "applyDisabledStatus rec cr target s = ((changed, cr'), s')"
    and "cond_of (st_Conditions (cr_Status cr)) ConditionApplied = Some c"
    and "conditionsEquivalent c (disabled_condition target)"
  shows "changed \<longleftrightarrow> st_ObservedGeneration (cr_Status cr) \<noteq> cr_Generation cr" and "s' = s"
proof -
  have ty: "cond_Type (disabled_condition target) = ConditionApplied"
    by (simp add: disabled_condition_def)
  have tr: "\<not> takes_reading (st_Conditions (cr_Status cr)) (disabled_condition target)"
    using assms(2,3) by (simp add: takes_reading_iff ty)
  have "cond_of (upsertCondition zero_time (st_Conditions (cr_Status cr)) (disabled_condition target)) ConditionApplied
      = Some (c\<lparr>cond_ObservedGeneration := cond_ObservedGeneration (disabled_condition target)\<rparr>)"
    using assms(2,3) by (simp add: cond_of_upsert ty upserted_def)
  then have "\<not> conditionTransitioned (st_Conditions (cr_Status cr))
      (upsertCondition zero_time (st_Conditions (cr_Status cr)) (disabled_condition target)) ConditionApplied"
    by (simp add: conditionTransitioned_def time_of_condition_eq assms(2))
  then show "changed \<longleftrightarrow> st_ObservedGeneration (cr_Status cr) \<noteq> cr_Generation cr" and "s' = s"
    using assms(1) by (auto simp: applyDisabledStatus_def Let_def op_upsert_def tr)
qed

text \<open>The updated object carries the condition and the observed generation, and nothing else changes.\<close>

lemma applyDisabled_result:
  assumes "applyDisabledStatus rec cr target s = ((changed, cr'), s')"
  shows "\<exists>c. cond_of (st_Conditions (cr_Status cr')) ConditionApplied = Some c \<and>
      conditionsEquivalent c (disabled_condition target)"
    and "st_ObservedGeneration (cr_Status cr') = cr_Generation cr'"
    and "cr_id cr' = cr_id cr" and "cr_Spec cr' = cr_Spec cr" and "cr_Generation cr' = cr_Generation cr"
    and "t \<noteq> ConditionApplied \<Longrightarrow> cond_of (st_Conditions (cr_Status cr')) t = cond_of (st_Conditions (cr_Status cr)) t"
    and "op_cluster s' = op_cluster s" and "op_hashes s' = op_hashes s"
proof -
  have ty: "cond_Type (disabled_condition target) = ConditionApplied"
    by (simp add: disabled_condition_def)
  obtain conds s1 where up: "op_upsert (st_Conditions (cr_Status cr)) (disabled_condition target) s = (conds, s1)"
    by fastforce
  then obtain now where conds: "conds = upsertCondition now (st_Conditions (cr_Status cr)) (disabled_condition target)"
      and clk: "same_but_clock s s1" using op_upsert_eq by blast
  have cr': "cr' = cr\<lparr>cr_Status := (cr_Status cr)\<lparr>st_Conditions := conds,
      st_ObservedGeneration := cr_Generation cr\<rparr>\<rparr>"
    and cl: "op_cluster s' = op_cluster s1" "op_hashes s' = op_hashes s1"
    using assms by (auto simp: applyDisabledStatus_def Let_def up)
  show "\<exists>c. cond_of (st_Conditions (cr_Status cr')) ConditionApplied = Some c \<and>
      conditionsEquivalent c (disabled_condition target)"
    using upsert_holds[of now "st_Conditions (cr_Status cr)" "disabled_condition target"]
    by (simp add: cr' conds ty)
  show "t \<noteq> ConditionApplied \<Longrightarrow> cond_of (st_Conditions (cr_Status cr')) t = cond_of (st_Conditions (cr_Status cr)) t"
    by (simp add: cr' conds cond_of_upsert ty)
  show "op_cluster s' = op_cluster s" and "op_hashes s' = op_hashes s"
    using cl clk by (simp_all add: same_but_clock_def)
qed (use assms in \<open>auto simp: applyDisabledStatus_def Let_def cr_id_def split: prod.splits\<close>)

section \<open>What the two reconcilers share\<close>

definition marked_disabled :: "string \<Rightarrow> TenantOverride \<Rightarrow> bool" where
  "marked_disabled target cr \<longleftrightarrow>
     st_ObservedGeneration (cr_Status cr) = cr_Generation cr \<and>
     (\<exists>c. cond_of (st_Conditions (cr_Status cr)) ConditionApplied = Some c \<and>
        conditionsEquivalent c (disabled_condition target))"

locale disabled_reconciler =
  fixes target :: string
    and get_cr :: "'w client \<Rightarrow> NamespacedName \<Rightarrow> 'w \<Rightarrow> go_error + TenantOverride"
    and update_cr :: "'w client \<Rightarrow> TenantOverride \<Rightarrow> 'w \<Rightarrow> go_error option \<times> 'w"
    and Reconcile :: "'w disabled_struct \<Rightarrow> NamespacedName \<Rightarrow> 'w op \<Rightarrow> disabled_result \<times> 'w op"
  assumes Reconcile_get_failed: "get_cr (d_Client r) req (op_cluster s) = Inl err \<Longrightarrow>
      Reconcile r req s = ((0, IgnoreNotFound err), s)"
    and Reconcile_got: "get_cr (d_Client r) req (op_cluster s) = Inr cr \<Longrightarrow>
      applyDisabledStatus (d_Recorder r) cr target s = ((changed, cr'), s1) \<Longrightarrow>
      Reconcile r req s =
        (if \<not> changed then ((0, None), s1)
         else case update_cr (d_Client r) cr' (op_cluster s1) of (err, w) \<Rightarrow>
           ((if err \<noteq> None \<and> IsConflict (the err) then statusConflictRequeueDelay else 0,
             if err \<noteq> None \<and> \<not> IsConflict (the err)
             then IgnoreNotFound (ErrWrap ''update status'' (the err)) else None),
            op_SetCluster w s1))"
begin

text \<open>A vanished object is not an error and nothing is written.\<close>

lemma vanished:
  "get_cr (d_Client r) req (op_cluster s) = Inl err \<Longrightarrow> IsNotFound err \<Longrightarrow>
     Reconcile r req s = ((0, None), s)"
  by (simp add: Reconcile_get_failed IgnoreNotFound_def)

text \<open>An object that is marked already is left alone: no write, no event, no reading of the clock.\<close>

lemma marked_noop:
  assumes "get_cr (d_Client r) req (op_cluster s) = Inr cr" and "marked_disabled target cr"
  shows "Reconcile r req s = ((0, None), s)"
proof -
  obtain changed cr' s1 where ap: "applyDisabledStatus (d_Recorder r) cr target s = ((changed, cr'), s1)"
    by (metis surj_pair)
  obtain c where "cond_of (st_Conditions (cr_Status cr)) ConditionApplied = Some c"
      "conditionsEquivalent c (disabled_condition target)"
    using assms(2) unfolding marked_disabled_def by blast
  from applyDisabled_settled[OF ap this] assms(2) show ?thesis
    by (simp add: Reconcile_got[OF assms(1) ap] marked_disabled_def)
qed

text \<open>Whatever is written is a marked object with the same name, generation and spec.\<close>

lemma writes_marked:
  assumes "get_cr (d_Client r) req (op_cluster s) = Inr cr" and "Reconcile r req s = (res, s')"
  shows "op_cluster s' = op_cluster s \<or>
    (\<exists>cr' err. marked_disabled target cr' \<and> cr_id cr' = cr_id cr \<and> cr_Spec cr' = cr_Spec cr \<and>
       cr_Generation cr' = cr_Generation cr \<and>
       update_cr (d_Client r) cr' (op_cluster s) = (err, op_cluster s'))"
proof -
  obtain changed cr' s1 where ap: "applyDisabledStatus (d_Recorder r) cr target s = ((changed, cr'), s1)"
    by (metis surj_pair)
  note props = applyDisabled_result[OF ap]
  obtain err w where up: "update_cr (d_Client r) cr' (op_cluster s1) = (err, w)" by fastforce
  show ?thesis
  proof (cases changed)
    case False
    then show ?thesis using Reconcile_got[OF assms(1) ap] assms(2) props(7) by simp
  next
    case True
    then have s': "op_cluster s' = w" using Reconcile_got[OF assms(1) ap] assms(2) up by auto
    have "marked_disabled target cr'" using props(1,2) by (simp add: marked_disabled_def)
    then show ?thesis using up props(3,4,5,7) s' by auto
  qed
qed

text \<open>A conflict asks for a retry after the delay; it is not reported as an error.\<close>

lemma conflict_requeues:
  assumes "Reconcile r req s = ((q, err), s')" and "q \<noteq> 0"
  shows "q = statusConflictRequeueDelay \<and> err = None"
proof (cases "get_cr (d_Client r) req (op_cluster s)")
  case (Inl e)
  then show ?thesis using assms by (simp add: Reconcile_get_failed)
next
  case (Inr cr)
  obtain changed cr' s1 where ap: "applyDisabledStatus (d_Recorder r) cr target s = ((changed, cr'), s1)"
    by (metis surj_pair)
  show ?thesis
    using Reconcile_got[OF Inr ap] assms by (auto split: if_splits prod.splits)
qed

end

interpretation loki_disabled: disabled_reconciler "''loki''" cl_GetLoki cl_UpdateLokiStatus
  loki_disabled_Reconcile
  by unfold_locales (auto simp: loki_disabled_Reconcile_def split: prod.split option.split)

interpretation mimir_disabled: disabled_reconciler "''mimir''" cl_GetMimir cl_UpdateMimirStatus
  mimir_disabled_Reconcile
  by unfold_locales (auto simp: mimir_disabled_Reconcile_def split: prod.split option.split)

end
