(* ===== verification/Bootstrap.thy ===== *)
theory Bootstrap
  imports Apply_Config
begin

text \<open>
  \<open>internal/controller/bootstrap.go\<close>: the runnable that gives every configured target a config
  map and a baseline in the hash cache when the manager starts.
\<close>

record BootstrapTarget =
  bt_Name :: string
  bt_OutputCM :: NamespacedName

text \<open>The fields \<open>Client\<close> and \<open>Targets\<close>, and whether \<open>HashCache\<close> is non-nil.\<close>

record 'w BootstrapRunnable =
  b_Client :: "'w client"
  b_Targets :: "BootstrapTarget list"
  b_HashCache :: bool

definition NeedLeaderElection :: "'w BootstrapRunnable \<Rightarrow> bool" where
  "NeedLeaderElection b = False"

text \<open>One round of the loop: \<open>None\<close> goes on to the next target.\<close>

definition bootstrap_target ::
  "yaml_encoder \<Rightarrow> 'w BootstrapRunnable \<Rightarrow> BootstrapTarget \<Rightarrow> 'w op \<Rightarrow> go_error option \<times> 'w op" where
  "bootstrap_target enc b t s =
     (case cl_GetConfigMap (b_Client b) (bt_OutputCM t) (op_cluster s) of
        Inr live \<Rightarrow>
          (None, if b_HashCache b then op_SetHash (bt_Name t) (Hash (cm_body DataKey live)) s else s)
      | Inl err \<Rightarrow>
          if \<not> IsNotFound err
          then (Some (ErrWrap (''bootstrap get '' @ nn_String (bt_OutputCM t) @ '' for '' @ bt_Name t) err), s)
          else
            (case Render enc [] of
               Inl err \<Rightarrow> (Some (ErrWrap (''bootstrap render for '' @ bt_Name t) err), s)
             | Inr body \<Rightarrow>
                 (case apply_ConfigMap (b_Client b) (bt_OutputCM t) body (op_cluster s) of
                    (Inl err, w) \<Rightarrow>
                      (Some (ErrWrap (''bootstrap apply for '' @ bt_Name t) err), op_SetCluster w s)
                  | (Inr res, w) \<Rightarrow>
                      (None, if b_HashCache b
                         then op_SetHash (bt_Name t) (res_Hash res) (op_SetCluster w s)
                         else op_SetCluster w s))))"

fun bootstrap_targets ::
  "yaml_encoder \<Rightarrow> 'w BootstrapRunnable \<Rightarrow> BootstrapTarget list \<Rightarrow> 'w op \<Rightarrow> go_error option \<times> 'w op" where
  "bootstrap_targets enc b [] s = (None, s)"
| "bootstrap_targets enc b (t # ts) s =
     (case bootstrap_target enc b t s of
        (Some err, s') \<Rightarrow> (Some err, s')
      | (None, s') \<Rightarrow> bootstrap_targets enc b ts s')"

definition Start :: "yaml_encoder \<Rightarrow> 'w BootstrapRunnable \<Rightarrow> 'w op \<Rightarrow> go_error option \<times> 'w op" where
  "Start enc b s = bootstrap_targets enc b (b_Targets b) s"

section \<open>Lemmas\<close>

text \<open>A config map that exists keeps everything, whatever its content.\<close>

lemma bootstrap_existing:
  "cl_GetConfigMap (b_Client b) (bt_OutputCM t) (op_cluster s) = Inr live \<Longrightarrow>
     bootstrap_target enc b t s = (r, s') \<Longrightarrow> r = None \<and> op_cluster s' = op_cluster s"
  by (auto simp: bootstrap_target_def)

text \<open>One target leaves the other config maps and the custom resources alone.\<close>

lemma bootstrap_target_other:
  assumes "apply_local (b_Client b)" and "bootstrap_target enc b t s = (r, s')"
    and "cl_GetConfigMap (b_Client b) n (op_cluster s) = Inr live"
  shows "cl_GetConfigMap (b_Client b) n (op_cluster s') = Inr live"
proof (cases "n = bt_OutputCM t")
  case True
  then show ?thesis using bootstrap_existing[of b t s live enc r s'] assms by simp
next
  case False
  have "op_cluster s' = op_cluster s \<or>
      (\<exists>body r. apply_ConfigMap (b_Client b) (bt_OutputCM t) body (op_cluster s) = (r, op_cluster s'))"
    using assms(2) by (auto simp: bootstrap_target_def split: sum.splits if_splits prod.splits)
  then show ?thesis using apply_other(1)[OF assms(1) _ False] assms(3) by metis
qed

lemma bootstrap_targets_keep:
  assumes "apply_local (b_Client b)" and "bootstrap_targets enc b ts s = (r, s')"
    and "cl_GetConfigMap (b_Client b) n (op_cluster s) = Inr live"
  shows "cl_GetConfigMap (b_Client b) n (op_cluster s') = Inr live"
  using assms(2,3)
proof (induction ts arbitrary: s)
  case (Cons t ts)
  obtain r1 s1 where one: "bootstrap_target enc b t s = (r1, s1)" by fastforce
  note kept = bootstrap_target_other[OF assms(1) one Cons.prems(2)]
  show ?case
  proof (cases r1)
    case None
    then show ?thesis using Cons.IH[OF _ kept] Cons.prems(1) one by simp
  next
    case (Some e)
    then show ?thesis using Cons.prems(1) one kept by simp
  qed
qed simp

text \<open>
  After one round that succeeds the config map exists and the cache holds the hash of its body,
  so that the first reconcile sees no drift.
\<close>

definition baselined :: "'w BootstrapRunnable \<Rightarrow> BootstrapTarget \<Rightarrow> 'w op \<Rightarrow> bool" where
  "baselined b t s \<longleftrightarrow>
     (\<exists>live. cl_GetConfigMap (b_Client b) (bt_OutputCM t) (op_cluster s) = Inr live \<and>
        (b_HashCache b \<longrightarrow> HashCache_Get (op_hashes s) (bt_Name t) = Some (Hash (cm_body DataKey live))))"

lemma bootstrap_target_baselined:
  assumes "apply_visible (b_Client b)" and "bootstrap_target enc b t s = (None, s')"
  shows "baselined b t s'"
proof (cases "cl_GetConfigMap (b_Client b) (bt_OutputCM t) (op_cluster s)")
  case (Inr live)
  then show ?thesis
    using assms(2) by (auto simp: bootstrap_target_def baselined_def hashes.lookup_put split: if_splits)
next
  case (Inl err)
  then obtain body res w where ap: "apply_ConfigMap (b_Client b) (bt_OutputCM t) body (op_cluster s) = (Inr res, w)"
      and s': "s' = (if b_HashCache b then op_SetHash (bt_Name t) (res_Hash res) (op_SetCluster w s)
        else op_SetCluster w s)"
    using assms(2) by (auto simp: bootstrap_target_def split: if_splits sum.splits prod.splits)
  have "holds_body (b_Client b) (bt_OutputCM t) body w" by (rule apply_establishes[OF assms(1) ap])
  then obtain live where live: "cl_GetConfigMap (b_Client b) (bt_OutputCM t) w = Inr live"
      "Hash (cm_body DataKey live) = Hash body"
    by (auto simp: holds_body_def cm_body_def split: sum.splits option.splits)
  then show ?thesis
    using apply_hash[OF ap] by (auto simp: baselined_def s' hashes.lookup_put)
qed

lemma bootstrap_target_hash_other:
  "bootstrap_target enc b t s = (r, s') \<Longrightarrow> u \<noteq> bt_Name t \<Longrightarrow>
     HashCache_Get (op_hashes s') u = HashCache_Get (op_hashes s) u"
  by (auto simp: bootstrap_target_def split: sum.splits if_splits prod.splits)

lemma bootstrap_target_keeps_baseline:
  assumes "apply_local (b_Client b)" and "bootstrap_target enc b t s = (r, s')"
    and "baselined b u s" and "bt_Name u \<noteq> bt_Name t"
  shows "baselined b u s'"
  using assms(3) bootstrap_target_other[OF assms(1,2)]
    bootstrap_target_hash_other[OF assms(2,4)]
  by (fastforce simp: baselined_def)

lemma bootstrap_targets_baselined:
  assumes "apply_local (b_Client b)" and "apply_visible (b_Client b)"
  shows "bootstrap_targets enc b ts s = (None, s') \<Longrightarrow> distinct (map bt_Name ts) \<Longrightarrow>
     (t \<in> set ts \<or> (baselined b t s \<and> bt_Name t \<notin> bt_Name ` set ts)) \<Longrightarrow> baselined b t s'"
proof (induction ts arbitrary: s)
  case (Cons u ts)
  obtain s1 where one: "bootstrap_target enc b u s = (None, s1)"
      and rest: "bootstrap_targets enc b ts s1 = (None, s')"
    using Cons.prems(1) by (auto split: prod.splits option.splits)
  have "t \<in> set ts \<or> (baselined b t s1 \<and> bt_Name t \<notin> bt_Name ` set ts)"
  proof (cases "t = u")
    case True
    then show ?thesis
      using bootstrap_target_baselined[OF assms(2) one] Cons.prems(2) by simp
  next
    case False
    then show ?thesis
      using bootstrap_target_keeps_baseline[OF assms(1) one] Cons.prems(3) by auto
  qed
  with Cons.IH[OF rest] Cons.prems(2) show ?case by simp
qed simp

end
