(* ===== verification/Webhook.thy ===== *)
theory Webhook
  imports Reconcile_Base
begin

text \<open>
  \<open>internal/webhook\<close>: the middleware and the validating webhooks of the two kinds. The admission
  machinery of controller-runtime that calls a custom validator from an HTTP request is a
  parameter of the registration. The two validators share the contract \<open>admission\<close>.
\<close>

section \<open>The middleware\<close>

definition SourceURL :: string where
  "SourceURL = ''https://github.com/tjorri/runtime-overrides-operator''"

definition SourceCodeHeader :: string where
  "SourceCodeHeader = ''Source-Code''"

text \<open>
  A handler transforms the response headers, and returns or panics. \<open>Header().Set\<close> replaces the
  values of a key.
\<close>

type_synonym headers = "string list gomap"
type_synonym 'q http_handler = "'q \<Rightarrow> headers \<Rightarrow> unit outcome \<times> headers"

definition WithSourceCodeHeader :: "'q http_handler \<Rightarrow> 'q http_handler" where
  "WithSourceCodeHeader nxt = (\<lambda>req hdrs. nxt req (gomap_put SourceCodeHeader [SourceURL] hdrs))"

section \<open>Custom validators\<close>

text \<open>The dynamic types a \<open>runtime.Object\<close> can have; \<open>%T\<close> prints the type's name.\<close>

datatype runtime_object =
    ObjLoki LokiTenantOverride
  | ObjMimir MimirTenantOverride
  | ObjOther string

fun type_name :: "runtime_object \<Rightarrow> string" where
  "type_name (ObjLoki cr) = ''*v1alpha1.LokiTenantOverride''"
| "type_name (ObjMimir cr) = ''*v1alpha1.MimirTenantOverride''"
| "type_name (ObjOther ty) = ty"

definition decodeOverrides :: "libs \<Rightarrow> string option \<Rightarrow> go_error + anymap" where
  "decodeOverrides lib raw =
     (case raw of
        None \<Rightarrow> Inr []
      | Some bytes \<Rightarrow>
          if bytes = [] then Inr []
          else
            (case lib_Unmarshal lib bytes of
               Inl err \<Rightarrow> Inl err
             | Inr None \<Rightarrow> Inr []
             | Inr (Some out) \<Rightarrow> Inr out))"

subsection \<open>Loki\<close>

text \<open>A struct with one field: its \<open>Validator\<close>, which may be nil.\<close>

record LokiTenantOverrideCustomValidator =
  lv_Validator :: "Validator option"

definition loki_validateSpec ::
  "libs \<Rightarrow> LokiTenantOverrideCustomValidator \<Rightarrow> LokiTenantOverride \<Rightarrow> go_error option" where
  "loki_validateSpec lib v cr =
     (case lv_Validator v of
        None \<Rightarrow> Some (ErrMsg ''internal: validator not initialized'')
      | Some vld \<Rightarrow>
          (case decodeOverrides lib (spec_Overrides (cr_Spec cr)) of
             Inl err \<Rightarrow> Some (ErrWrap ''decode spec.overrides'' err)
           | Inr raw \<Rightarrow> v_Validate vld raw))"

definition loki_ValidateCreate ::
  "libs \<Rightarrow> LokiTenantOverrideCustomValidator \<Rightarrow> runtime_object \<Rightarrow> go_error option" where
  "loki_ValidateCreate lib v obj =
     (case obj of
        ObjLoki cr \<Rightarrow> loki_validateSpec lib v cr
      | _ \<Rightarrow> Some (ErrMsg (''expected a LokiTenantOverride object but got '' @ type_name obj)))"

definition loki_ValidateUpdate ::
  "libs \<Rightarrow> LokiTenantOverrideCustomValidator \<Rightarrow> runtime_object \<Rightarrow> runtime_object \<Rightarrow> go_error option" where
  "loki_ValidateUpdate lib v oldObj newObj =
     (case newObj of
        ObjLoki cr \<Rightarrow> loki_validateSpec lib v cr
      | _ \<Rightarrow> Some (ErrMsg (''expected a LokiTenantOverride object for the newObj but got '' @ type_name newObj)))"

definition loki_ValidateDelete ::
  "libs \<Rightarrow> LokiTenantOverrideCustomValidator \<Rightarrow> runtime_object \<Rightarrow> go_error option" where
  "loki_ValidateDelete lib v obj = None"

subsection \<open>Mimir\<close>

record MimirTenantOverrideCustomValidator =
  mv_Validator :: "Validator option"

definition mimir_validateSpec ::
  "libs \<Rightarrow> MimirTenantOverrideCustomValidator \<Rightarrow> MimirTenantOverride \<Rightarrow> go_error option" where
  "mimir_validateSpec lib v cr =
     (case mv_Validator v of
        None \<Rightarrow> Some (ErrMsg ''internal: validator not initialized'')
      | Some vld \<Rightarrow>
          (case decodeOverrides lib (spec_Overrides (cr_Spec cr)) of
             Inl err \<Rightarrow> Some (ErrWrap ''decode spec.overrides'' err)
           | Inr raw \<Rightarrow> v_Validate vld raw))"

definition mimir_ValidateCreate ::
  "libs \<Rightarrow> MimirTenantOverrideCustomValidator \<Rightarrow> runtime_object \<Rightarrow> go_error option" where
  "mimir_ValidateCreate lib v obj =
     (case obj of
        ObjMimir cr \<Rightarrow> mimir_validateSpec lib v cr
      | _ \<Rightarrow> Some (ErrMsg (''expected a MimirTenantOverride object but got '' @ type_name obj)))"

definition mimir_ValidateUpdate ::
  "libs \<Rightarrow> MimirTenantOverrideCustomValidator \<Rightarrow> runtime_object \<Rightarrow> runtime_object \<Rightarrow> go_error option" where
  "mimir_ValidateUpdate lib v oldObj newObj =
     (case newObj of
        ObjMimir cr \<Rightarrow> mimir_validateSpec lib v cr
      | _ \<Rightarrow> Some (ErrMsg (''expected a MimirTenantOverride object for the newObj but got '' @ type_name newObj)))"

definition mimir_ValidateDelete ::
  "libs \<Rightarrow> MimirTenantOverrideCustomValidator \<Rightarrow> runtime_object \<Rightarrow> go_error option" where
  "mimir_ValidateDelete lib v obj = None"

section \<open>Registration\<close>

definition LokiTenantOverrideValidatePath :: string where
  "LokiTenantOverrideValidatePath = ''/validate-runtimeoverrides-io-v1alpha1-lokitenantoverride''"

definition MimirTenantOverrideValidatePath :: string where
  "MimirTenantOverrideValidatePath = ''/validate-runtimeoverrides-io-v1alpha1-mimirtenantoverride''"

text \<open>The \<open>webhook.CustomValidator\<close> interface.\<close>

record custom_validator =
  cv_Create :: "runtime_object \<Rightarrow> go_error option"
  cv_Update :: "runtime_object \<Rightarrow> runtime_object \<Rightarrow> go_error option"
  cv_Delete :: "runtime_object \<Rightarrow> go_error option"

definition loki_custom_validator :: "libs \<Rightarrow> LokiTenantOverrideCustomValidator \<Rightarrow> custom_validator" where
  "loki_custom_validator lib v = \<lparr>cv_Create = loki_ValidateCreate lib v,
     cv_Update = loki_ValidateUpdate lib v, cv_Delete = loki_ValidateDelete lib v\<rparr>"

definition mimir_custom_validator :: "libs \<Rightarrow> MimirTenantOverrideCustomValidator \<Rightarrow> custom_validator" where
  "mimir_custom_validator lib v = \<lparr>cv_Create = mimir_ValidateCreate lib v,
     cv_Update = mimir_ValidateUpdate lib v, cv_Delete = mimir_ValidateDelete lib v\<rparr>"

text \<open>
  \<open>admission\<close> stands for \<open>admission.WithCustomValidator\<close>, \<open>new\<close> for \<open>validate.New\<close>; the result is
  the registered path and handler.
\<close>

definition SetupLokiTenantOverrideWebhookWithManager ::
  "(custom_validator \<Rightarrow> 'q http_handler) \<Rightarrow> (Target \<Rightarrow> Validator option) \<Rightarrow> libs \<Rightarrow> string \<times> 'q http_handler" where
  "SetupLokiTenantOverrideWebhookWithManager admission new lib =
     (LokiTenantOverrideValidatePath,
      WithSourceCodeHeader (admission (loki_custom_validator lib \<lparr>lv_Validator = new TargetLoki\<rparr>)))"

definition SetupMimirTenantOverrideWebhookWithManager ::
  "(custom_validator \<Rightarrow> 'q http_handler) \<Rightarrow> (Target \<Rightarrow> Validator option) \<Rightarrow> libs \<Rightarrow> string \<times> 'q http_handler" where
  "SetupMimirTenantOverrideWebhookWithManager admission new lib =
     (MimirTenantOverrideValidatePath,
      WithSourceCodeHeader (admission (mimir_custom_validator lib \<lparr>mv_Validator = new TargetMimir\<rparr>)))"

section \<open>Lemmas\<close>

text \<open>The webhook and the controller decode alike, up to the text that wraps an error.\<close>

lemma decode_agrees:
  "unmarshalRawExtension lib raw =
     (case decodeOverrides lib raw of Inl err \<Rightarrow> Inl (ErrWrap ''unmarshal overrides'' err) | Inr m \<Rightarrow> Inr m)"
  by (simp add: unmarshalRawExtension_def decodeOverrides_def split: option.split sum.split)

text \<open>The header is set before the inner handler runs, so it is there however that ends.\<close>

lemma WithSourceCodeHeader_set:
  assumes "\<And>req hdrs res hdrs'. nxt req hdrs = (res, hdrs') \<Longrightarrow>
      map_of hdrs' SourceCodeHeader = map_of hdrs SourceCodeHeader"
    and "WithSourceCodeHeader nxt req hdrs = (res, hdrs')"
  shows "map_of hdrs' SourceCodeHeader = Some [SourceURL]"
  using assms(1)[OF assms(2)[unfolded WithSourceCodeHeader_def]] by simp

locale admission =
  fixes vld :: "Validator option"
    and pick :: "runtime_object \<Rightarrow> TenantOverride option"
    and create :: "libs \<Rightarrow> runtime_object \<Rightarrow> go_error option"
    and update :: "libs \<Rightarrow> runtime_object \<Rightarrow> runtime_object \<Rightarrow> go_error option"
    and delete :: "libs \<Rightarrow> runtime_object \<Rightarrow> go_error option"
  assumes create_other: "pick obj = None \<Longrightarrow> create lib obj \<noteq> None"
    and update_other: "pick obj = None \<Longrightarrow> update lib old obj \<noteq> None"
    and create_eq: "pick obj = Some cr \<Longrightarrow> create lib obj =
      (case vld of None \<Rightarrow> Some (ErrMsg ''internal: validator not initialized'')
       | Some v \<Rightarrow> (case decodeOverrides lib (spec_Overrides (cr_Spec cr)) of
           Inl err \<Rightarrow> Some (ErrWrap ''decode spec.overrides'' err) | Inr raw \<Rightarrow> v_Validate v raw))"
    and update_eq: "pick obj = Some cr \<Longrightarrow> update lib old obj = create lib obj"
    and delete_eq: "delete lib obj = None"
begin

text \<open>
  Admission accepts exactly the objects that the reconciler, with the same validator, puts into
  the merge.
\<close>

lemma agrees_with_reconciler:
  assumes "pick obj = Some cr" and "vld = Some v"
  shows "create lib obj = None \<longleftrightarrow> env_ValidErr (spec_envelope lib (v_Validate v) cr) = None"
  by (simp add: create_eq[OF assms(1)] assms(2) spec_envelope_def decode_agrees split: sum.split)

lemma update_agrees_with_reconciler:
  assumes "pick obj = Some cr" and "vld = Some v"
  shows "update lib old obj = None \<longleftrightarrow> env_ValidErr (spec_envelope lib (v_Validate v) cr) = None"
  using agrees_with_reconciler[OF assms] update_eq[OF assms(1)] by simp

lemma no_validator_rejects: "vld = None \<Longrightarrow> create lib obj \<noteq> None"
  using create_other create_eq by (cases "pick obj") auto

end

fun pick_loki :: "runtime_object \<Rightarrow> LokiTenantOverride option" where
  "pick_loki (ObjLoki cr) = Some cr"
| "pick_loki (ObjMimir cr) = None"
| "pick_loki (ObjOther ty) = None"

fun pick_mimir :: "runtime_object \<Rightarrow> MimirTenantOverride option" where
  "pick_mimir (ObjLoki cr) = None"
| "pick_mimir (ObjMimir cr) = Some cr"
| "pick_mimir (ObjOther ty) = None"

fun_cases pick_lokiE: "pick_loki obj = Some cr" and pick_loki_NoneE: "pick_loki obj = None"
fun_cases pick_mimirE: "pick_mimir obj = Some cr" and pick_mimir_NoneE: "pick_mimir obj = None"

interpretation loki_admission: admission vld pick_loki
  "\<lambda>lib. loki_ValidateCreate lib \<lparr>lv_Validator = vld\<rparr>"
  "\<lambda>lib. loki_ValidateUpdate lib \<lparr>lv_Validator = vld\<rparr>"
  "\<lambda>lib. loki_ValidateDelete lib \<lparr>lv_Validator = vld\<rparr>"
  for vld
  by unfold_locales
    (auto simp: loki_ValidateCreate_def loki_ValidateUpdate_def loki_ValidateDelete_def
      loki_validateSpec_def elim!: pick_lokiE pick_loki_NoneE)

interpretation mimir_admission: admission vld pick_mimir
  "\<lambda>lib. mimir_ValidateCreate lib \<lparr>mv_Validator = vld\<rparr>"
  "\<lambda>lib. mimir_ValidateUpdate lib \<lparr>mv_Validator = vld\<rparr>"
  "\<lambda>lib. mimir_ValidateDelete lib \<lparr>mv_Validator = vld\<rparr>"
  for vld
  by unfold_locales
    (auto simp: mimir_ValidateCreate_def mimir_ValidateUpdate_def mimir_ValidateDelete_def
      mimir_validateSpec_def elim!: pick_mimirE pick_mimir_NoneE)

end
