(* ===== verification/Banner.thy ===== *)
theory Banner
  imports Prelude
begin

text \<open>
  \<open>cmd/banner.go\<close>: the startup line and the version it reports. The linker-set variable
  \<open>version\<close> and the result of \<open>debug.ReadBuildInfo\<close> are parameters.
\<close>

definition sourceURL :: string where
  "sourceURL = ''https://github.com/tjorri/runtime-overrides-operator''"

definition licenseID :: string where
  "licenseID = ''AGPL-3.0-only''"

definition versionDev :: string where
  "versionDev = ''dev''"

definition versionUnknown :: string where
  "versionUnknown = ''unknown''"

record build_module =
  dep_Path :: string
  dep_Version :: string
  dep_Replace :: "string option"

text \<open>\<open>debug.BuildInfo\<close>: the settings in order, and the dependencies, which may be nil.\<close>

record build_info =
  bi_Settings :: "(string \<times> string) list"
  bi_Deps :: "build_module option list"

fun vcs_revision :: "(string \<times> string) list \<Rightarrow> string" where
  "vcs_revision [] = versionDev"
| "vcs_revision ((key, value) # settings) =
     (if key = ''vcs.revision'' \<and> value \<noteq> []
      then (if length value > 12 then take 12 value else value)
      else vcs_revision settings)"

definition defaultVersion :: "string \<Rightarrow> build_info option \<Rightarrow> string" where
  "defaultVersion version info =
     (if version \<noteq> versionDev then version
      else case info of None \<Rightarrow> versionDev | Some i \<Rightarrow> vcs_revision (bi_Settings i))"

fun find_module :: "build_module option list \<Rightarrow> string \<Rightarrow> string" where
  "find_module [] path = versionUnknown"
| "find_module (None # deps) path = find_module deps path"
| "find_module (Some dep # deps) path =
     (if dep_Path dep = path
      then (case dep_Replace dep of Some v \<Rightarrow> v | None \<Rightarrow> dep_Version dep)
      else find_module deps path)"

definition moduleVersion :: "build_info option \<Rightarrow> string \<Rightarrow> string" where
  "moduleVersion info path =
     (case info of None \<Rightarrow> versionUnknown | Some i \<Rightarrow> find_module (bi_Deps i) path)"

definition writeBanner :: "build_info option \<Rightarrow> string \<Rightarrow> string" where
  "writeBanner info version =
     (let loki = moduleVersion info ''github.com/grafana/loki/v3'';
          mimir = moduleVersion info ''github.com/grafana/mimir''
      in ''runtime-overrides-operator version='' @ version @ '' source='' @ sourceURL @
         '' license='' @ licenseID @ '' loki='' @ loki @ '' mimir='' @ mimir @ [CHR 0x0A])"

section \<open>Lemmas\<close>

text \<open>A version reported for an untagged build is a non-empty revision of at most 12 characters.\<close>

lemma vcs_revision_short: "vcs_revision settings \<noteq> [] \<and> length (vcs_revision settings) \<le> 12"
  by (induction settings rule: vcs_revision.induct) (auto simp: versionDev_def)

lemma defaultVersion_short:
  "defaultVersion versionDev info \<noteq> [] \<and> length (defaultVersion versionDev info) \<le> 12"
  by (auto simp: defaultVersion_def vcs_revision_short split: option.split) (simp_all add: versionDev_def)

lemma vcs_revision_take:
  "vcs_revision settings = (case find (\<lambda>kv. fst kv = ''vcs.revision'' \<and> snd kv \<noteq> []) settings of
     None \<Rightarrow> versionDev | Some kv \<Rightarrow> take 12 (snd kv))"
  by (induction settings rule: vcs_revision.induct) auto

text \<open>A replaced module reports the version of its replacement.\<close>

lemma find_module_first:
  "find_module deps path =
     (case find (\<lambda>d. d \<noteq> None \<and> dep_Path (the d) = path) deps of
        Some (Some d) \<Rightarrow> (case dep_Replace d of Some v \<Rightarrow> v | None \<Rightarrow> dep_Version d)
      | _ \<Rightarrow> versionUnknown)"
  by (induction deps path rule: find_module.induct) auto

text \<open>The banner is one line exactly when the versions it quotes hold no line break.\<close>

lemma writeBanner_one_line:
  "CHR 0x0A \<notin> set (butlast (writeBanner info version)) \<longleftrightarrow>
     CHR 0x0A \<notin> set version \<and> CHR 0x0A \<notin> set (moduleVersion info ''github.com/grafana/loki/v3'') \<and>
     CHR 0x0A \<notin> set (moduleVersion info ''github.com/grafana/mimir'')"
proof -
  have "butlast (a @ [c]) = a" for a and c :: char by simp
  then have "butlast (writeBanner info version) =
      ''runtime-overrides-operator version='' @ version @ '' source='' @ sourceURL @
      '' license='' @ licenseID @ '' loki='' @ moduleVersion info ''github.com/grafana/loki/v3'' @
      '' mimir='' @ moduleVersion info ''github.com/grafana/mimir''"
    unfolding writeBanner_def Let_def append_assoc[symmetric] by blast
  then show ?thesis by (simp add: sourceURL_def licenseID_def)
qed

end
