(* ===== verification/Main_Wiring.thy ===== *)
theory Main_Wiring
  imports Scheme Config Loki_Controller Mimir_Controller Disabled Bootstrap Webhook Banner
begin

text \<open>
  \<open>cmd/main.go\<close>: from the parsed flags to the running manager. \<open>main\<close> is a sequence of steps on
  the state of the start-up (what has been registered with the manager); a step that fails logs a
  message and exits with status 1, and the later steps do not run. The steps call the check of the
  configuration, \<open>InitDefaults\<close>, \<open>New\<close> and the set-up functions as they are modelled. What the manager and
  the third-party packages do is the argument \<open>environment\<close>: the answer of each call.
\<close>

section \<open>Flags\<close>

record flags =
  fl_metricsAddr :: string
  fl_probeAddr :: string
  fl_enableLeaderElection :: bool
  fl_secureMetrics :: bool
  fl_webhookCertPath :: string
  fl_webhookCertName :: string
  fl_webhookCertKey :: string
  fl_metricsCertPath :: string
  fl_metricsCertName :: string
  fl_metricsCertKey :: string
  fl_enableHTTP2 :: bool
  fl_lokiEnabled :: bool
  fl_lokiCMName :: string
  fl_lokiCMNamespace :: string
  fl_mimirEnabled :: bool
  fl_enableWebhook :: bool
  fl_mimirCMName :: string
  fl_mimirCMNamespace :: string

definition default_flags :: flags where
  "default_flags =
     \<lparr>fl_metricsAddr = ''0'', fl_probeAddr = '':8081'', fl_enableLeaderElection = False,
      fl_secureMetrics = True, fl_webhookCertPath = [], fl_webhookCertName = ''tls.crt'',
      fl_webhookCertKey = ''tls.key'', fl_metricsCertPath = [], fl_metricsCertName = ''tls.crt'',
      fl_metricsCertKey = ''tls.key'', fl_enableHTTP2 = False, fl_lokiEnabled = True,
      fl_lokiCMName = ''loki-runtime-tenants'', fl_lokiCMNamespace = ''monitoring'',
      fl_mimirEnabled = False, fl_enableWebhook = False,
      fl_mimirCMName = ''mimir-runtime-tenants'', fl_mimirCMNamespace = ''monitoring''\<rparr>"

section \<open>Options of the manager\<close>

record tls_config =
  NextProtos :: "string list"

definition disableHTTP2 :: "tls_config \<Rightarrow> tls_config" where
  "disableHTTP2 c = c\<lparr>NextProtos := [''http/1.1'']\<rparr>"

definition tlsOpts :: "flags \<Rightarrow> (tls_config \<Rightarrow> tls_config) list" where
  "tlsOpts fl = (if \<not> fl_enableHTTP2 fl then [disableHTTP2] else [])"

record webhook_options =
  wo_TLSOpts :: "(tls_config \<Rightarrow> tls_config) list"
  wo_CertDir :: string
  wo_CertName :: string
  wo_KeyName :: string

definition webhookServerOptions :: "flags \<Rightarrow> webhook_options" where
  "webhookServerOptions fl =
     (let o1 = \<lparr>wo_TLSOpts = tlsOpts fl, wo_CertDir = [], wo_CertName = [], wo_KeyName = []\<rparr>
      in if length (fl_webhookCertPath fl) > 0
         then o1\<lparr>wo_CertDir := fl_webhookCertPath fl, wo_CertName := fl_webhookCertName fl,
                 wo_KeyName := fl_webhookCertKey fl\<rparr>
         else o1)"

record metrics_options =
  mo_BindAddress :: string
  mo_SecureServing :: bool
  mo_TLSOpts :: "(tls_config \<Rightarrow> tls_config) list"
  mo_AuthFilter :: bool
  mo_CertDir :: string
  mo_CertName :: string
  mo_KeyName :: string

definition metricsServerOptions :: "flags \<Rightarrow> metrics_options" where
  "metricsServerOptions fl =
     (let o1 = \<lparr>mo_BindAddress = fl_metricsAddr fl, mo_SecureServing = fl_secureMetrics fl,
                mo_TLSOpts = tlsOpts fl, mo_AuthFilter = False, mo_CertDir = [], mo_CertName = [],
                mo_KeyName = []\<rparr>;
          o2 = (if fl_secureMetrics fl then o1\<lparr>mo_AuthFilter := True\<rparr> else o1)
      in if length (fl_metricsCertPath fl) > 0
         then o2\<lparr>mo_CertDir := fl_metricsCertPath fl, mo_CertName := fl_metricsCertName fl,
                 mo_KeyName := fl_metricsCertKey fl\<rparr>
         else o2)"

text \<open>The keys of \<open>cmCacheNamespaces\<close>: the namespaces whose config maps are watched.\<close>

definition cmCacheNamespaces :: "flags \<Rightarrow> unit gomap" where
  "cmCacheNamespaces fl =
     (let m1 = (if fl_lokiEnabled fl then gomap_put (fl_lokiCMNamespace fl) () [] else [])
      in if fl_mimirEnabled fl then gomap_put (fl_mimirCMNamespace fl) () m1 else m1)"

record manager_options =
  mgo_Metrics :: metrics_options
  mgo_WebhookServer :: webhook_options
  mgo_HealthProbeBindAddress :: string
  mgo_LeaderElection :: bool
  mgo_LeaderElectionID :: string
  mgo_CacheNamespaces :: "unit gomap"

definition manager_options_of :: "flags \<Rightarrow> manager_options" where
  "manager_options_of fl =
     \<lparr>mgo_Metrics = metricsServerOptions fl, mgo_WebhookServer = webhookServerOptions fl,
      mgo_HealthProbeBindAddress = fl_probeAddr fl, mgo_LeaderElection = fl_enableLeaderElection fl,
      mgo_LeaderElectionID = ''d9d7635e.runtimeoverrides.io'',
      mgo_CacheNamespaces = cmCacheNamespaces fl\<rparr>"

definition targets_of :: "flags \<Rightarrow> Targets" where
  "targets_of fl =
     \<lparr>tg_Loki = \<lparr>tc_Enabled = fl_lokiEnabled fl,
                 tc_OutputCM = NamespacedName (fl_lokiCMNamespace fl) (fl_lokiCMName fl)\<rparr>,
      tg_Mimir = \<lparr>tc_Enabled = fl_mimirEnabled fl,
                  tc_OutputCM = NamespacedName (fl_mimirCMNamespace fl) (fl_mimirCMName fl)\<rparr>\<rparr>"

section \<open>The start-up\<close>

datatype 'w controller =
    LokiActive "'w LokiReconciler"
  | LokiDisabled "'w LokiDisabledReconciler"
  | MimirActive "'w MimirReconciler"
  | MimirDisabled "'w MimirDisabledReconciler"

text \<open>
  The answers of the manager: an error or none for its creation, the completion of a controller
  (by name), the addition of the runnable and of the checks, and the run; \<open>en_Client\<close> is its client
  and \<open>en_Admission\<close> is \<open>admission.WithCustomValidator\<close> on its scheme and the type of the webhook. The
  upstream packages and the YAML marshaller are those of \<open>Validation\<close>, the JSON decoder that of
  \<open>Reconcile_Base\<close>.
\<close>

record ('w, 'l, 'm, 'q) environment =
  en_NewManager :: "manager_options \<Rightarrow> go_error option"
  en_Client :: "'w client"
  en_Loki :: "'l limits_pkg"
  en_Mimir :: "'m limits_pkg"
  en_Marshal :: "anymap \<Rightarrow> go_error + string"
  en_Libs :: libs
  en_Admission :: "custom_validator \<Rightarrow> 'q http_handler"
  en_Complete :: "string \<Rightarrow> go_error option"
  en_Add :: "go_error option"
  en_AddHealthz :: "go_error option"
  en_AddReadyz :: "go_error option"
  en_Start :: "go_error option"
  en_version :: string
  en_BuildInfo :: "build_info option"

text \<open>What has been set up, with the package-level defaults that \<open>InitDefaults\<close> primes.\<close>

record ('w, 'l, 'm, 'q) startup =
  su_globals :: "('l, 'm) validation_globals"
  su_controllers :: "('w controller \<times> registration) list"
  su_targets :: "BootstrapTarget list"
  su_bootstrap :: "'w BootstrapRunnable option"
  su_webhooks :: "(string \<times> 'q http_handler) list"
  su_checks :: "string list"
  su_stdout :: string
  su_started :: bool

definition validation_start :: "('l, 'm) validation_globals" where
  "validation_start = \<lparr>vg_initOnce = False, vg_loki = None, vg_mimir = None\<rparr>"

definition startup_start :: "('w, 'l, 'm, 'q) startup" where
  "startup_start = \<lparr>su_globals = validation_start, su_controllers = [], su_targets = [],
     su_bootstrap = None, su_webhooks = [], su_checks = [], su_stdout = [], su_started = False\<rparr>"

text \<open>\<open>validate.New\<close> as it is called at this point of the start-up.\<close>

definition new_validator ::
  "('w, 'l, 'm, 'q) environment \<Rightarrow> ('w, 'l, 'm, 'q) startup \<Rightarrow> Target \<Rightarrow> Validator option" where
  "new_validator en st = New (en_Marshal en) (en_Loki en) (en_Mimir en) (su_globals st)"

text \<open>A step gives the message it exits with, if it does, and the new state.\<close>

type_synonym ('w, 'l, 'm, 'q) step =
  "('w, 'l, 'm, 'q) startup \<Rightarrow> string option \<times> ('w, 'l, 'm, 'q) startup"

definition exit_on :: "go_error option \<Rightarrow> string \<Rightarrow> ('w, 'l, 'm, 'q) step \<Rightarrow> ('w, 'l, 'm, 'q) step" where
  "exit_on err msg k st = (case err of Some e \<Rightarrow> (Some msg, st) | None \<Rightarrow> k st)"

fun run_steps :: "('w, 'l, 'm, 'q) step list \<Rightarrow> ('w, 'l, 'm, 'q) step" where
  "run_steps [] st = (None, st)"
| "run_steps (f # fs) st =
     (case f st of (Some msg, st') \<Rightarrow> (Some msg, st') | (None, st') \<Rightarrow> run_steps fs st')"

definition go_on :: "(('w, 'l, 'm, 'q) startup \<Rightarrow> ('w, 'l, 'm, 'q) startup) \<Rightarrow> ('w, 'l, 'm, 'q) step" where
  "go_on f st = (None, f st)"

definition step_manager :: "('w, 'l, 'm, 'q) environment \<Rightarrow> flags \<Rightarrow> ('w, 'l, 'm, 'q) step" where
  "step_manager en fl =
     exit_on (en_NewManager en (manager_options_of fl)) ''unable to start manager'' (go_on id)"

definition step_targets :: "flags \<Rightarrow> ('w, 'l, 'm, 'q) step" where
  "step_targets fl = exit_on (Targets_Validate (targets_of fl)) ''invalid target configuration'' (go_on id)"

definition step_InitDefaults :: "('w, 'l, 'm, 'q) environment \<Rightarrow> ('w, 'l, 'm, 'q) step" where
  "step_InitDefaults en =
     go_on (\<lambda>st. st\<lparr>su_globals := InitDefaults (en_Loki en) (en_Mimir en) (su_globals st)\<rparr>)"

definition register :: "'w controller \<Rightarrow> registration \<Rightarrow> ('w, 'l, 'm, 'q) startup \<Rightarrow> ('w, 'l, 'm, 'q) startup" where
  "register c reg st = st\<lparr>su_controllers := su_controllers st @ [(c, reg)]\<rparr>"

definition step_loki :: "('w, 'l, 'm, 'q) environment \<Rightarrow> flags \<Rightarrow> ('w, 'l, 'm, 'q) step" where
  "step_loki en fl st =
     (let tc = tg_Loki (targets_of fl) in
      if tc_Enabled tc then
        let (r, reg) = loki_SetupWithManager
              \<lparr>r_Client = en_Client en, r_OutputCM = tc_OutputCM tc,
               r_Validator = the (new_validator en st TargetLoki), r_Recorder = False, r_HashCache = True\<rparr>
        in exit_on (en_Complete en (reg_Name reg)) ''unable to set up Loki reconciler''
             (go_on (\<lambda>st. (register (LokiActive r) reg st)
                \<lparr>su_targets := su_targets st @ [\<lparr>bt_Name = ''loki'', bt_OutputCM = tc_OutputCM tc\<rparr>]\<rparr>)) st
      else
        let (r, reg) = loki_disabled_SetupWithManager \<lparr>d_Client = en_Client en, d_Recorder = False\<rparr>
        in exit_on (en_Complete en (reg_Name reg)) ''unable to set up Loki disabled-target reconciler''
             (go_on (register (LokiDisabled r) reg)) st)"

definition step_mimir :: "('w, 'l, 'm, 'q) environment \<Rightarrow> flags \<Rightarrow> ('w, 'l, 'm, 'q) step" where
  "step_mimir en fl st =
     (let tc = tg_Mimir (targets_of fl) in
      if tc_Enabled tc then
        let (r, reg) = mimir_SetupWithManager
              \<lparr>r_Client = en_Client en, r_OutputCM = tc_OutputCM tc,
               r_Validator = the (new_validator en st TargetMimir), r_Recorder = False, r_HashCache = True\<rparr>
        in exit_on (en_Complete en (reg_Name reg)) ''unable to set up Mimir reconciler''
             (go_on (\<lambda>st. (register (MimirActive r) reg st)
                \<lparr>su_targets := su_targets st @ [\<lparr>bt_Name = ''mimir'', bt_OutputCM = tc_OutputCM tc\<rparr>]\<rparr>)) st
      else
        let (r, reg) = mimir_disabled_SetupWithManager \<lparr>d_Client = en_Client en, d_Recorder = False\<rparr>
        in exit_on (en_Complete en (reg_Name reg)) ''unable to set up Mimir disabled-target reconciler''
             (go_on (register (MimirDisabled r) reg)) st)"

text \<open>The literal of the runnable, and its targets appended since.\<close>

definition bootstrap_runnable ::
  "('w, 'l, 'm, 'q) environment \<Rightarrow> BootstrapTarget list \<Rightarrow> 'w BootstrapRunnable" where
  "bootstrap_runnable en targets =
     \<lparr>b_Client = en_Client en, b_Targets = targets, b_HashCache = True\<rparr>"

definition step_bootstrap :: "('w, 'l, 'm, 'q) environment \<Rightarrow> ('w, 'l, 'm, 'q) step" where
  "step_bootstrap en st =
     (if length (su_targets st) > 0
      then exit_on (en_Add en) ''unable to register bootstrap runnable''
             (go_on (\<lambda>st. st\<lparr>su_bootstrap := Some (bootstrap_runnable en (su_targets st))\<rparr>)) st
      else (None, st))"

text \<open>Both set-up functions of the webhooks return a nil error.\<close>

definition step_webhooks :: "('w, 'l, 'm, 'q) environment \<Rightarrow> flags \<Rightarrow> ('w, 'l, 'm, 'q) step" where
  "step_webhooks en fl =
     go_on (\<lambda>st. if fl_enableWebhook fl
       then st\<lparr>su_webhooks := su_webhooks st @
              (if tc_Enabled (tg_Loki (targets_of fl))
               then [SetupLokiTenantOverrideWebhookWithManager (en_Admission en) (new_validator en st) (en_Libs en)]
               else []) @
              (if tc_Enabled (tg_Mimir (targets_of fl))
               then [SetupMimirTenantOverrideWebhookWithManager (en_Admission en) (new_validator en st) (en_Libs en)]
               else [])\<rparr>
       else st)"

definition step_healthz :: "('w, 'l, 'm, 'q) environment \<Rightarrow> ('w, 'l, 'm, 'q) step" where
  "step_healthz en = exit_on (en_AddHealthz en) ''unable to set up health check''
     (go_on (\<lambda>st. st\<lparr>su_checks := su_checks st @ [''healthz'']\<rparr>))"

definition step_readyz :: "('w, 'l, 'm, 'q) environment \<Rightarrow> ('w, 'l, 'm, 'q) step" where
  "step_readyz en = exit_on (en_AddReadyz en) ''unable to set up ready check''
     (go_on (\<lambda>st. st\<lparr>su_checks := su_checks st @ [''readyz'']\<rparr>))"

definition step_banner :: "('w, 'l, 'm, 'q) environment \<Rightarrow> ('w, 'l, 'm, 'q) step" where
  "step_banner en = go_on (\<lambda>st. st\<lparr>su_stdout := su_stdout st @
     writeBanner (en_BuildInfo en) (defaultVersion (en_version en) (en_BuildInfo en))\<rparr>)"

definition step_start :: "('w, 'l, 'm, 'q) environment \<Rightarrow> ('w, 'l, 'm, 'q) step" where
  "step_start en st =
     exit_on (en_Start en) ''problem running manager'' (go_on id) (st\<lparr>su_started := True\<rparr>)"

definition main_steps :: "('w, 'l, 'm, 'q) environment \<Rightarrow> flags \<Rightarrow> ('w, 'l, 'm, 'q) step list" where
  "main_steps en fl =
     [step_manager en fl, step_targets fl, step_InitDefaults en, step_loki en fl, step_mimir en fl,
      step_bootstrap en, step_webhooks en fl, step_healthz en, step_readyz en, step_banner en,
      step_start en]"

text \<open>The exit status of the process and what had been set up.\<close>

definition main :: "('w, 'l, 'm, 'q) environment \<Rightarrow> flags \<Rightarrow> nat \<times> ('w, 'l, 'm, 'q) startup" where
  "main en fl =
     (case run_steps (main_steps en fl) startup_start of
        (Some msg, st) \<Rightarrow> (1, st)
      | (None, st) \<Rightarrow> (0, st))"

text \<open>
  The process: the scheme is initialized before \<open>main\<close> begins, and a panic there ends the process with
  status 2. What \<open>main\<close> finds, the manager's client for one, depends on the scheme.
\<close>

definition program ::
  "('b, 's) scheme_lib \<Rightarrow> ('s \<Rightarrow> ('w, 'l, 'm, 'q) environment) \<Rightarrow> flags \<Rightarrow>
     nat \<times> ('w, 'l, 'm, 'q) startup" where
  "program sl en fl =
     (case init_scheme sl of Panic msg \<Rightarrow> (2, startup_start) | Done sch \<Rightarrow> main (en sch) fl)"

section \<open>Lemmas\<close>

lemmas step_defs = step_manager_def step_targets_def step_InitDefaults_def step_loki_def
  step_mimir_def step_bootstrap_def step_webhooks_def step_healthz_def step_readyz_def
  step_banner_def step_start_def go_on_def register_def Let_def

lemma bootstrap_runnable_simps [simp]:
  "b_Client (bootstrap_runnable en ts) = en_Client en" "b_Targets (bootstrap_runnable en ts) = ts"
  "b_HashCache (bootstrap_runnable en ts)"
  by (simp_all add: bootstrap_runnable_def)

lemma exit_on_simps [simp]:
  "exit_on None msg k st = k st" "exit_on (Some e) msg k st = (Some msg, st)"
  by (simp_all add: exit_on_def)

text \<open>\<open>run_steps\<close> is a run of all steps or stops at the first one that fails.\<close>

lemma run_steps_None:
  "run_steps fs st = (None, st') \<longleftrightarrow>
     (case fs of [] \<Rightarrow> st' = st | f # fs' \<Rightarrow> \<exists>st1. f st = (None, st1) \<and> run_steps fs' st1 = (None, st'))"
  by (cases fs) (auto split: prod.split option.split)

lemma run_steps_append:
  "run_steps (fs @ gs) st =
     (case run_steps fs st of (Some msg, st') \<Rightarrow> (Some msg, st') | (None, st') \<Rightarrow> run_steps gs st')"
  by (induction fs arbitrary: st) (auto split: prod.split option.split)

text \<open>An invalid configuration never gets past the second step.\<close>

lemma main_invalid:
  assumes "Targets_Validate (targets_of fl) \<noteq> None"
  shows "main en fl = (1, startup_start)"
  using assms
  by (cases "en_NewManager en (manager_options_of fl)")
    (auto simp: main_def main_steps_def step_manager_def step_targets_def go_on_def)

text \<open>What each later step leaves in place.\<close>

lemma targets_of_simps [simp]:
  "tc_Enabled (tg_Loki (targets_of fl)) = fl_lokiEnabled fl"
  "tc_Enabled (tg_Mimir (targets_of fl)) = fl_mimirEnabled fl"
  "tc_OutputCM (tg_Loki (targets_of fl)) = NamespacedName (fl_lokiCMNamespace fl) (fl_lokiCMName fl)"
  "tc_OutputCM (tg_Mimir (targets_of fl)) = NamespacedName (fl_mimirCMNamespace fl) (fl_mimirCMName fl)"
  by (simp_all add: targets_of_def)

definition enabled_targets :: "flags \<Rightarrow> BootstrapTarget list" where
  "enabled_targets fl =
     (if fl_lokiEnabled fl then [\<lparr>bt_Name = ''loki'',
        bt_OutputCM = NamespacedName (fl_lokiCMNamespace fl) (fl_lokiCMName fl)\<rparr>] else []) @
     (if fl_mimirEnabled fl then [\<lparr>bt_Name = ''mimir'',
        bt_OutputCM = NamespacedName (fl_mimirCMNamespace fl) (fl_mimirCMName fl)\<rparr>] else [])"

text \<open>\<open>validate.New\<close> after \<open>InitDefaults\<close>.\<close>

definition primed :: "('w, 'l, 'm, 'q) environment \<Rightarrow> ('l, 'm) validation_globals" where
  "primed en = \<lparr>vg_initOnce = True, vg_loki = Some (pkg_FlagDefaults (en_Loki en)),
     vg_mimir = Some (pkg_FlagDefaults (en_Mimir en))\<rparr>"

definition validator_for :: "('w, 'l, 'm, 'q) environment \<Rightarrow> Target \<Rightarrow> Validator option" where
  "validator_for en = New (en_Marshal en) (en_Loki en) (en_Mimir en) (primed en)"

definition webhooks_of :: "('w, 'l, 'm, 'q) environment \<Rightarrow> flags \<Rightarrow> (string \<times> 'q http_handler) list" where
  "webhooks_of en fl =
     (if fl_enableWebhook fl
      then (if fl_lokiEnabled fl
            then [SetupLokiTenantOverrideWebhookWithManager (en_Admission en) (validator_for en) (en_Libs en)] else []) @
           (if fl_mimirEnabled fl
            then [SetupMimirTenantOverrideWebhookWithManager (en_Admission en) (validator_for en) (en_Libs en)] else [])
      else [])"

definition loki_controller_of :: "('w, 'l, 'm, 'q) environment \<Rightarrow> flags \<Rightarrow> 'w controller" where
  "loki_controller_of en fl =
     (if fl_lokiEnabled fl
      then LokiActive \<lparr>r_Client = en_Client en,
        r_OutputCM = NamespacedName (fl_lokiCMNamespace fl) (fl_lokiCMName fl),
        r_Validator = the (validator_for en TargetLoki), r_Recorder = True, r_HashCache = True\<rparr>
      else LokiDisabled \<lparr>d_Client = en_Client en, d_Recorder = True\<rparr>)"

definition mimir_controller_of :: "('w, 'l, 'm, 'q) environment \<Rightarrow> flags \<Rightarrow> 'w controller" where
  "mimir_controller_of en fl =
     (if fl_mimirEnabled fl
      then MimirActive \<lparr>r_Client = en_Client en,
        r_OutputCM = NamespacedName (fl_mimirCMNamespace fl) (fl_mimirCMName fl),
        r_Validator = the (validator_for en TargetMimir), r_Recorder = True, r_HashCache = True\<rparr>
      else MimirDisabled \<lparr>d_Client = en_Client en, d_Recorder = True\<rparr>)"

definition fully_started :: "('w, 'l, 'm, 'q) environment \<Rightarrow> flags \<Rightarrow> ('w, 'l, 'm, 'q) startup \<Rightarrow> bool" where
  "fully_started en fl st \<longleftrightarrow>
     su_globals st = primed en \<and> su_started st \<and> su_checks st = [''healthz'', ''readyz''] \<and>
     map (reg_Name \<circ> snd) (su_controllers st) =
       [if fl_lokiEnabled fl then ''lokitenantoverride'' else ''lokitenantoverride-disabled'',
        if fl_mimirEnabled fl then ''mimirtenantoverride'' else ''mimirtenantoverride-disabled''] \<and>
     map fst (su_controllers st) = [loki_controller_of en fl, mimir_controller_of en fl] \<and>
     su_bootstrap st = Some (bootstrap_runnable en (enabled_targets fl)) \<and>
     su_webhooks st = webhooks_of en fl"

lemma exit_on_None_iff: "exit_on err msg (go_on f) st = (None, st') \<longleftrightarrow> err = None \<and> st' = f st"
  by (auto simp: exit_on_def go_on_def split: option.split)

lemma run_steps_Cons_None:
  "run_steps (f # fs) st = (None, st') \<longleftrightarrow> (\<exists>st1. f st = (None, st1) \<and> run_steps fs st1 = (None, st'))"
  by (auto split: prod.split option.split)

text \<open>No step but the last one starts the manager.\<close>

definition keeps_started :: "('w, 'l, 'm, 'q) step \<Rightarrow> bool" where
  "keeps_started f \<longleftrightarrow> (\<forall>st. su_started (snd (f st)) = su_started st)"

lemma keeps_started_exit_on:
  "(\<And>st. su_started (f st) = su_started st) \<Longrightarrow> keeps_started (exit_on err msg (go_on f))"
  by (simp add: keeps_started_def exit_on_def go_on_def split: option.split)

lemma keeps_started_go_on: "(\<And>st. su_started (f st) = su_started st) \<Longrightarrow> keeps_started (go_on f)"
  by (simp add: keeps_started_def go_on_def)

lemma keeps_started_run: "\<forall>f \<in> set fs. keeps_started f \<Longrightarrow> su_started (snd (run_steps fs st)) = su_started st"
proof (induction fs arbitrary: st)
  case (Cons f fs)
  have "su_started (snd (f st)) = su_started st" using Cons.prems by (simp add: keeps_started_def)
  then show ?case using Cons by (cases "f st") (auto split: option.split)
qed simp

lemma setup_simps:
  "fst (loki_SetupWithManager r) = r\<lparr>r_Recorder := True\<rparr>"
  "reg_Name (snd (loki_SetupWithManager r)) = ''lokitenantoverride''"
  "fst (mimir_SetupWithManager r) = r\<lparr>r_Recorder := True\<rparr>"
  "reg_Name (snd (mimir_SetupWithManager r)) = ''mimirtenantoverride''"
  "fst (loki_disabled_SetupWithManager d) = d\<lparr>d_Recorder := True\<rparr>"
  "reg_Name (snd (loki_disabled_SetupWithManager d)) = ''lokitenantoverride-disabled''"
  "fst (mimir_disabled_SetupWithManager d) = d\<lparr>d_Recorder := True\<rparr>"
  "reg_Name (snd (mimir_disabled_SetupWithManager d)) = ''mimirtenantoverride-disabled''"
  by (simp_all add: loki_SetupWithManager_def mimir_SetupWithManager_def
      loki_disabled_SetupWithManager_def mimir_disabled_SetupWithManager_def)

lemma step_loki_eq:
  "step_loki en fl st0 = (if fl_lokiEnabled fl
     then exit_on (en_Complete en ''lokitenantoverride'') ''unable to set up Loki reconciler''
       (go_on (\<lambda>st. (register (LokiActive \<lparr>r_Client = en_Client en,
            r_OutputCM = NamespacedName (fl_lokiCMNamespace fl) (fl_lokiCMName fl),
            r_Validator = the (new_validator en st0 TargetLoki), r_Recorder = True, r_HashCache = True\<rparr>)
            (snd (loki_SetupWithManager \<lparr>r_Client = en_Client en,
              r_OutputCM = NamespacedName (fl_lokiCMNamespace fl) (fl_lokiCMName fl),
              r_Validator = the (new_validator en st0 TargetLoki), r_Recorder = False, r_HashCache = True\<rparr>)) st)
          \<lparr>su_targets := su_targets st @ [\<lparr>bt_Name = ''loki'',
            bt_OutputCM = NamespacedName (fl_lokiCMNamespace fl) (fl_lokiCMName fl)\<rparr>]\<rparr>)) st0
     else exit_on (en_Complete en ''lokitenantoverride-disabled'') ''unable to set up Loki disabled-target reconciler''
       (go_on (register (LokiDisabled \<lparr>d_Client = en_Client en, d_Recorder = True\<rparr>)
          (snd (loki_disabled_SetupWithManager \<lparr>d_Client = en_Client en, d_Recorder = False\<rparr>)))) st0)"
  by (simp add: step_loki_def Let_def case_prod_beta setup_simps)

lemma step_mimir_eq:
  "step_mimir en fl st0 = (if fl_mimirEnabled fl
     then exit_on (en_Complete en ''mimirtenantoverride'') ''unable to set up Mimir reconciler''
       (go_on (\<lambda>st. (register (MimirActive \<lparr>r_Client = en_Client en,
            r_OutputCM = NamespacedName (fl_mimirCMNamespace fl) (fl_mimirCMName fl),
            r_Validator = the (new_validator en st0 TargetMimir), r_Recorder = True, r_HashCache = True\<rparr>)
            (snd (mimir_SetupWithManager \<lparr>r_Client = en_Client en,
              r_OutputCM = NamespacedName (fl_mimirCMNamespace fl) (fl_mimirCMName fl),
              r_Validator = the (new_validator en st0 TargetMimir), r_Recorder = False, r_HashCache = True\<rparr>)) st)
          \<lparr>su_targets := su_targets st @ [\<lparr>bt_Name = ''mimir'',
            bt_OutputCM = NamespacedName (fl_mimirCMNamespace fl) (fl_mimirCMName fl)\<rparr>]\<rparr>)) st0
     else exit_on (en_Complete en ''mimirtenantoverride-disabled'') ''unable to set up Mimir disabled-target reconciler''
       (go_on (register (MimirDisabled \<lparr>d_Client = en_Client en, d_Recorder = True\<rparr>)
          (snd (mimir_disabled_SetupWithManager \<lparr>d_Client = en_Client en, d_Recorder = False\<rparr>)))) st0)"
  by (simp add: step_mimir_def Let_def case_prod_beta setup_simps)

lemma keeps_started_loki: "keeps_started (step_loki en fl)"
  by (auto simp: keeps_started_def step_loki_eq register_def exit_on_def go_on_def split: option.split)

lemma keeps_started_mimir: "keeps_started (step_mimir en fl)"
  by (auto simp: keeps_started_def step_mimir_eq register_def exit_on_def go_on_def split: option.split)

lemma keeps_started_bootstrap: "keeps_started (step_bootstrap en)"
  by (auto simp: keeps_started_def step_bootstrap_def exit_on_def go_on_def split: option.split)

lemma keeps_started_webhooks: "keeps_started (step_webhooks en fl)"
  by (simp add: keeps_started_def step_webhooks_def go_on_def)

definition setup_steps :: "('w, 'l, 'm, 'q) environment \<Rightarrow> flags \<Rightarrow> ('w, 'l, 'm, 'q) step list" where
  "setup_steps en fl =
     [step_manager en fl, step_targets fl, step_InitDefaults en, step_loki en fl, step_mimir en fl,
      step_bootstrap en, step_webhooks en fl, step_healthz en, step_readyz en, step_banner en]"

lemma main_steps_eq: "main_steps en fl = setup_steps en fl @ [step_start en]"
  by (simp add: main_steps_def setup_steps_def)

lemma setup_keeps_started: "\<forall>f \<in> set (setup_steps en fl). keeps_started f"
  by (auto simp: setup_steps_def step_manager_def step_targets_def step_InitDefaults_def
      step_healthz_def step_readyz_def step_banner_def
      intro!: keeps_started_exit_on keeps_started_go_on keeps_started_loki keeps_started_mimir
        keeps_started_bootstrap keeps_started_webhooks)

lemma loki_controller_names:
  "step_loki en fl st = (None, st') \<Longrightarrow> su_globals st = primed en \<Longrightarrow>
     map (reg_Name \<circ> snd) (su_controllers st') = map (reg_Name \<circ> snd) (su_controllers st) @
       [if fl_lokiEnabled fl then ''lokitenantoverride'' else ''lokitenantoverride-disabled''] \<and>
     map fst (su_controllers st') = map fst (su_controllers st) @ [loki_controller_of en fl] \<and>
     su_targets st' = su_targets st @ (if fl_lokiEnabled fl then [\<lparr>bt_Name = ''loki'',
        bt_OutputCM = NamespacedName (fl_lokiCMNamespace fl) (fl_lokiCMName fl)\<rparr>] else []) \<and>
     su_globals st' = su_globals st \<and> su_checks st' = su_checks st \<and> su_webhooks st' = su_webhooks st"
  by (auto simp: step_loki_eq exit_on_None_iff register_def setup_simps loki_controller_of_def
      new_validator_def validator_for_def split: if_splits)

lemma mimir_controller_names:
  "step_mimir en fl st = (None, st') \<Longrightarrow> su_globals st = primed en \<Longrightarrow>
     map (reg_Name \<circ> snd) (su_controllers st') = map (reg_Name \<circ> snd) (su_controllers st) @
       [if fl_mimirEnabled fl then ''mimirtenantoverride'' else ''mimirtenantoverride-disabled''] \<and>
     map fst (su_controllers st') = map fst (su_controllers st) @ [mimir_controller_of en fl] \<and>
     su_targets st' = su_targets st @ (if fl_mimirEnabled fl then [\<lparr>bt_Name = ''mimir'',
        bt_OutputCM = NamespacedName (fl_mimirCMNamespace fl) (fl_mimirCMName fl)\<rparr>] else []) \<and>
     su_globals st' = su_globals st \<and> su_checks st' = su_checks st \<and> su_webhooks st' = su_webhooks st"
  by (auto simp: step_mimir_eq exit_on_None_iff register_def setup_simps mimir_controller_of_def
      new_validator_def validator_for_def split: if_splits)

lemma InitDefaults_primed: "InitDefaults (en_Loki en) (en_Mimir en) validation_start = primed en"
  by (simp add: InitDefaults_def validation_start_def primed_def)

lemma setup_done:
  assumes "run_steps (setup_steps en fl) startup_start = (None, st)"
  shows "Targets_Validate (targets_of fl) = None \<and> fully_started en fl (st\<lparr>su_started := True\<rparr>)"
proof -
  let ?st1 = "startup_start\<lparr>su_globals := primed en\<rparr>"
  obtain st2 st3 st4 where valid: "Targets_Validate (targets_of fl) = None"
      and st2: "step_loki en fl ?st1 = (None, st2)"
      and st3: "step_mimir en fl st2 = (None, st3)"
      and st4: "step_bootstrap en st3 = (None, st4)"
      and rest: "run_steps [step_webhooks en fl, step_healthz en, step_readyz en, step_banner en] st4 = (None, st)"
    using assms
    unfolding setup_steps_def run_steps_Cons_None step_manager_def step_targets_def exit_on_None_iff
      step_InitDefaults_def go_on_def id_def
    by (auto simp: startup_start_def InitDefaults_primed)
  have g: "su_globals ?st1 = primed en" by simp
  note c2 = loki_controller_names[OF st2 g]
  then have g2: "su_globals st2 = primed en" by simp
  note c3 = mimir_controller_names[OF st3 g2]
  have "fl_lokiEnabled fl \<or> fl_mimirEnabled fl" using valid by (simp add: Targets_Validate_accepts)
  moreover have targets: "su_targets st3 = enabled_targets fl"
    using c2 c3 by (simp add: enabled_targets_def startup_start_def)
  ultimately have "su_targets st3 \<noteq> []" by (auto simp: enabled_targets_def)
  then have b4: "su_bootstrap st4 = Some (bootstrap_runnable en (enabled_targets fl))"
      "su_controllers st4 = su_controllers st3" "su_checks st4 = su_checks st3"
      "su_webhooks st4 = su_webhooks st3" "su_globals st4 = su_globals st3"
    using st4 by (simp_all add: step_bootstrap_def exit_on_None_iff targets)
  have new: "new_validator en st4 = validator_for en"
    using c2 c3 by (simp add: new_validator_def validator_for_def b4)
  have s: "su_bootstrap st = su_bootstrap st4" "su_controllers st = su_controllers st4"
      "su_checks st = su_checks st4 @ [''healthz'', ''readyz'']" "su_globals st = su_globals st4"
      "su_webhooks st = su_webhooks st4 @ webhooks_of en fl"
    using rest
    unfolding run_steps_Cons_None step_webhooks_def step_healthz_def step_readyz_def step_banner_def
      exit_on_None_iff go_on_def webhooks_of_def
    by (auto simp: new split: if_splits)
  show ?thesis
    using valid c2 c3 by (simp add: fully_started_def startup_start_def s b4)
qed

lemma main_started:
  assumes "su_started (snd (main en fl))"
  shows "Targets_Validate (targets_of fl) = None \<and> fully_started en fl (snd (main en fl))"
proof -
  obtain r st where run: "run_steps (setup_steps en fl) startup_start = (r, st)" by fastforce
  have "\<not> su_started st"
    using keeps_started_run[OF setup_keeps_started, of en fl startup_start] run
    by (simp add: startup_start_def)
  then have "r = None"
    using assms run by (auto simp: main_def main_steps_eq run_steps_append split: option.splits)
  moreover from this have "snd (main en fl) = st\<lparr>su_started := True\<rparr>"
    using run by (simp add: main_def main_steps_eq run_steps_append step_start_def exit_on_def go_on_def
        split: option.split)
  ultimately show ?thesis using setup_done run by simp
qed

lemma program_started:
  assumes "adds_types sl" and "su_started (snd (program sl en fl))"
  shows "\<exists>sch. init_scheme sl = Done sch \<and> (\<forall>(gv, k) \<in> set operator_kinds. sl_Recognizes sl sch gv k) \<and>
    Targets_Validate (targets_of fl) = None \<and> fully_started (en sch) fl (snd (program sl en fl))"
proof (cases "init_scheme sl")
  case (Panic msg)
  then show ?thesis using assms(2) by (simp add: program_def startup_start_def)
next
  case (Done sch)
  then have "program sl en fl = main (en sch) fl" by (simp add: program_def)
  then show ?thesis
    using assms(2) main_started[of "en sch" fl] Done init_scheme_knows[OF assms(1) Done] by auto
qed

text \<open>HTTP/2 is off unless asked for.\<close>

lemma http2_off:
  "\<not> fl_enableHTTP2 fl \<Longrightarrow>
     NextProtos (foldl (\<lambda>c f. f c) c (wo_TLSOpts (webhookServerOptions fl))) = [''http/1.1''] \<and>
     NextProtos (foldl (\<lambda>c f. f c) c (mo_TLSOpts (metricsServerOptions fl))) = [''http/1.1'']"
  by (simp add: webhookServerOptions_def metricsServerOptions_def tlsOpts_def disableHTTP2_def Let_def)

text \<open>The cache watches exactly the namespaces of the enabled targets.\<close>

lemma cmCacheNamespaces_keys:
  "fst ` set (cmCacheNamespaces fl) =
     (if fl_lokiEnabled fl then {fl_lokiCMNamespace fl} else {}) \<union>
     (if fl_mimirEnabled fl then {fl_mimirCMNamespace fl} else {})"
  by (auto simp: cmCacheNamespaces_def Let_def)

end
