(* ===== verification/Samples.thy ===== *)
theory Samples
  imports Main_Wiring
begin

text \<open>
  Concrete third-party code and concrete inputs, for the theorems that show that hypotheses can
  hold: an encoder that prints a canonical form, an API server that keeps its objects in lists, a
  decoder that knows a few documents, a validator, and a few custom resources. They fulfil the
  hypotheses that the theorems state of such code.
\<close>

section \<open>An encoder\<close>

fun show_any :: "any \<Rightarrow> string" where
  "show_any Null = ''null''"
| "show_any (Bool b) = (if b then ''true'' else ''false'')"
| "show_any (Num n) = show_nat (unat n)"
| "show_any (Str s) = strconv_Quote s"
| "show_any (Arr xs) = ''['' @ concat (map (\<lambda>x. show_any x @ '','') xs) @ '']''"
| "show_any (Obj m) = ''{'' @ concat (map (\<lambda>e. fst e @ '':'' @ show_any (snd e) @ '','') m) @ ''}''"

definition sample_encoder :: yaml_encoder where
  "sample_encoder = \<lparr>enc_Encode = (\<lambda>n v. Inr (show_any (canon v))), enc_Close = (\<lambda>buf. Inr buf)\<rparr>"

lemma sample_encoder_sorts: "sorts_keys sample_encoder"
  using canon_eqv by (auto simp: sorts_keys_def sample_encoder_def)

lemma sample_Render: "Render sample_encoder out = Inr (show_any (canon (render_doc out)))"
  by (simp add: Render_def SortedMarshal_def sample_encoder_def)

section \<open>An API server in memory\<close>

record mem =
  mem_cms :: "ConfigMap list"
  mem_loki :: "TenantOverride list"
  mem_mimir :: "TenantOverride list"

definition not_found :: go_error where
  "not_found = ErrStatus ReasonNotFound ''not found''"

definition mem_GetConfigMap :: "NamespacedName \<Rightarrow> mem \<Rightarrow> go_error + ConfigMap" where
  "mem_GetConfigMap n w =
     (case find (\<lambda>cm. cm_id cm = n) (mem_cms w) of None \<Rightarrow> Inl not_found | Some cm \<Rightarrow> Inr cm)"

definition put_data :: "string gomap \<Rightarrow> string gomap \<Rightarrow> string gomap" where
  "put_data new old = foldr (\<lambda>e m. gomap_put (fst e) (snd e) m) new old"

fun mem_applied :: "ConfigMap \<Rightarrow> string \<Rightarrow> ConfigMap list \<Rightarrow> ConfigMap list" where
  "mem_applied cm owner [] =
     [cm\<lparr>cm_Generation := 1, cm_ManagedFields := [\<lparr>mf_Manager = owner, mf_Time = None\<rparr>]\<rparr>]"
| "mem_applied cm owner (c # cs) =
     (if cm_id c = cm_id cm
      then c\<lparr>cm_Data := put_data (cm_Data cm) (cm_Data c), cm_Generation := cm_Generation c + 1\<rparr> # cs
      else c # mem_applied cm owner cs)"

fun set_status :: "TenantOverride \<Rightarrow> TenantOverride list \<Rightarrow> TenantOverride list option" where
  "set_status cr [] = None"
| "set_status cr (c # cs) =
     (if cr_id c = cr_id cr then Some (c\<lparr>cr_Status := cr_Status cr\<rparr> # cs)
      else map_option (Cons c) (set_status cr cs))"

definition get_cr :: "NamespacedName \<Rightarrow> TenantOverride list \<Rightarrow> go_error + TenantOverride" where
  "get_cr n crs = (case find (\<lambda>cr. cr_id cr = n) crs of None \<Rightarrow> Inl not_found | Some cr \<Rightarrow> Inr cr)"

definition mem_client :: "mem client" where
  "mem_client =
     \<lparr>cl_GetConfigMap = mem_GetConfigMap,
      cl_ApplyConfigMap = (\<lambda>cm owner force w. (None, w\<lparr>mem_cms := mem_applied cm owner (mem_cms w)\<rparr>)),
      cl_ListLoki = (\<lambda>w. Inr (mem_loki w)),
      cl_GetLoki = (\<lambda>n w. get_cr n (mem_loki w)),
      cl_UpdateLokiStatus = (\<lambda>cr w. case set_status cr (mem_loki w) of
          None \<Rightarrow> (Some not_found, w) | Some crs \<Rightarrow> (None, w\<lparr>mem_loki := crs\<rparr>)),
      cl_ListMimir = (\<lambda>w. Inr (mem_mimir w)),
      cl_GetMimir = (\<lambda>n w. get_cr n (mem_mimir w)),
      cl_UpdateMimirStatus = (\<lambda>cr w. case set_status cr (mem_mimir w) of
          None \<Rightarrow> (Some not_found, w) | Some crs \<Rightarrow> (None, w\<lparr>mem_mimir := crs\<rparr>))\<rparr>"

lemma map_of_put_data:
  "map_of (put_data new old) k = (case map_of new k of None \<Rightarrow> map_of old k | Some v \<Rightarrow> Some v)"
  by (induction new) (auto simp: put_data_def)

lemma cm_id_simps [simp]:
  "cm_id (cm\<lparr>cm_Data := d\<rparr>) = cm_id cm" "cm_id (cm\<lparr>cm_Generation := g\<rparr>) = cm_id cm"
  "cm_id (cm\<lparr>cm_ManagedFields := m\<rparr>) = cm_id cm"
  by (simp_all add: cm_id_def)

lemma find_applied:
  "find (\<lambda>c. cm_id c = cm_id cm) (mem_applied cm owner cms) = Some live \<Longrightarrow>
     map_of (cm_Data cm) k = Some v \<Longrightarrow> map_of (cm_Data live) k = Some v"
  by (induction cms) (auto simp: map_of_put_data split: if_splits)

lemma find_applied_ex: "\<exists>live. find (\<lambda>c. cm_id c = cm_id cm) (mem_applied cm owner cms) = Some live"
  by (induction cms) auto

lemma find_applied_other:
  "n \<noteq> cm_id cm \<Longrightarrow> find (\<lambda>c. cm_id c = n) (mem_applied cm owner cms) = find (\<lambda>c. cm_id c = n) cms"
  by (induction cms) auto

lemma mem_apply_visible: "apply_visible mem_client"
  unfolding apply_visible_def
proof (intro allI impI)
  fix cm owner w w'
  assume "cl_ApplyConfigMap mem_client cm owner True w = (None, w')"
  then have w': "w' = w\<lparr>mem_cms := mem_applied cm owner (mem_cms w)\<rparr>" by (simp add: mem_client_def)
  obtain live where live: "find (\<lambda>c. cm_id c = cm_id cm) (mem_applied cm owner (mem_cms w)) = Some live"
    using find_applied_ex by blast
  show "\<exists>live. cl_GetConfigMap mem_client (cm_id cm) w' = Inr live \<and>
      (\<forall>k v. map_of (cm_Data cm) k = Some v \<longrightarrow> map_of (cm_Data live) k = Some v)"
    using find_applied[OF live] by (simp add: mem_client_def mem_GetConfigMap_def w' live)
qed

lemma mem_apply_local: "apply_local mem_client"
  by (auto simp: apply_local_def mem_client_def mem_GetConfigMap_def find_applied_other)

lemma mem_status_local:
  "status_local (cl_UpdateLokiStatus mem_client) mem_client"
  "status_local (cl_UpdateMimirStatus mem_client) mem_client"
  by (auto simp: status_local_def mem_client_def mem_GetConfigMap_def split: option.splits)

section \<open>Documents and validators\<close>

definition doc :: "string \<Rightarrow> string \<Rightarrow> string" where
  "doc key val = ''{'' @ strconv_Quote key @ '':'' @ val @ ''}''"

definition doc_rate :: string where "doc_rate = doc ''rate'' ''8''"
definition doc_burst :: string where "doc_burst = doc ''burst'' ''16''"
definition doc_bogus :: string where "doc_bogus = doc ''bogus'' ''1''"

definition sample_Unmarshal :: "string \<Rightarrow> go_error + anymap option" where
  "sample_Unmarshal b =
     (if b = doc_rate then Inr (Some [(''rate'', Num 0x4020000000000000)])
      else if b = doc_burst then Inr (Some [(''burst'', Num 0x4030000000000000)])
      else if b = doc_bogus then Inr (Some [(''bogus'', Num 0x3FF0000000000000)])
      else if b = ''null'' then Inr None
      else Inl (ErrMsg ''invalid character''))"

definition sample_libs :: libs where
  "sample_libs = \<lparr>lib_Unmarshal = sample_Unmarshal, lib_Encoder = sample_encoder\<rparr>"

lemma sample_decodes: "decodes_maps sample_libs"
  by (auto simp: decodes_maps_def sample_libs_def sample_Unmarshal_def split: if_splits)

text \<open>
  An upstream package whose type has the fields \<open>rate\<close> and \<open>burst\<close>, and Loki's validator on it; a
  validator that constrains the combination of the fields instead.
\<close>

definition sample_pkg :: "unit limits_pkg" where
  "sample_pkg = \<lparr>pkg_Type = Struct [StructField ''Rate'' True ''rate'' OtherKind,
       StructField ''Burst'' True ''burst,omitempty'' OtherKind, StructField ''hidden'' False [] OtherKind],
     pkg_FlagDefaults = (), pkg_Decode = (\<lambda>dflt body. Inr ()), pkg_Validate = (\<lambda>limits. None)\<rparr>"

definition sample_Marshal :: "anymap \<Rightarrow> go_error + string" where
  "sample_Marshal m = Inr (show_any (canon (Obj m)))"

definition field_validator :: Validator where
  "field_validator = \<lparr>v_Validate = lokiValidator_Validate sample_Marshal sample_pkg (Some ()),
     v_Target = TargetLoki\<rparr>"

lemma sample_fields: "lokiKnownFields sample_pkg = {''rate'', ''burst''}"
  by (simp add: lokiKnownFields_def sample_pkg_def insert_commute)

lemma sample_pkg_simps: "pkg_Decode sample_pkg dflt body = Inr ()" "pkg_Validate sample_pkg limits = None"
  by (simp_all add: sample_pkg_def)

lemma field_verdict:
  "v_Validate field_validator m = (case unknown_key {''rate'', ''burst''} m of
     None \<Rightarrow> None
   | Some k \<Rightarrow> Some (ErrMsg (''loki: field '' @ strconv_Quote k @ '' not found in type validation.Limits'')))"
  by (simp add: field_validator_def lokiValidator_Validate_def sample_fields sample_Marshal_def
      sample_pkg_simps split: option.split)

definition cross_validator :: Validator where
  "cross_validator = \<lparr>v_Validate = (\<lambda>m. if map_of m ''rate'' \<noteq> None \<and> map_of m ''burst'' \<noteq> None
     then Some (ErrMsg ''rate and burst exclude each other'') else None), v_Target = TargetLoki\<rparr>"

definition sample_schedule :: schedule where
  "sample_schedule = \<lparr>sch_groups = rev, sch_conflicts = rev\<rparr>"

lemma sample_fair: "fair sample_schedule"
  by (simp add: fair_def sample_schedule_def)

section \<open>Objects\<close>

definition no_status :: TenantOverrideStatus where
  "no_status = \<lparr>st_ObservedGeneration = 0, st_EffectiveTenantId = [], st_Conditions = [],
     st_ContributingPeers = []\<rparr>"

definition sample_cr :: "string \<Rightarrow> string \<Rightarrow> string \<Rightarrow> int32 \<Rightarrow> string \<Rightarrow> TenantOverride" where
  "sample_cr ns name tenant weight raw =
     \<lparr>cr_Namespace = ns, cr_Name = name, cr_Generation = 1, cr_ResourceVersion = ''1'',
      cr_Spec = \<lparr>spec_TenantId = tenant, spec_Weight = weight, spec_Overrides = Some raw\<rparr>,
      cr_Status = no_status\<rparr>"

definition cr_rate :: TenantOverride where "cr_rate = sample_cr ''ns'' ''a'' ''t1'' 1 doc_rate"
definition cr_burst :: TenantOverride where "cr_burst = sample_cr ''ns'' ''b'' ''t1'' 2 doc_burst"
definition cr_bogus :: TenantOverride where "cr_bogus = sample_cr ''ns'' ''c'' ''t2'' 1 doc_bogus"

definition sample_cm :: NamespacedName where
  "sample_cm = NamespacedName ''monitoring'' ''loki-runtime-tenants''"

definition sample_target :: "Validator \<Rightarrow> mem target_struct" where
  "sample_target v = \<lparr>r_Client = mem_client, r_OutputCM = sample_cm, r_Validator = v,
     r_Recorder = True, r_HashCache = True\<rparr>"

text \<open>The same objects of both kinds, and no config map yet.\<close>

definition sample_mem :: mem where
  "sample_mem = \<lparr>mem_cms = [], mem_loki = [cr_rate, cr_burst, cr_bogus],
     mem_mimir = [cr_rate, cr_burst, cr_bogus]\<rparr>"

definition op_of :: "mem \<Rightarrow> mem op" where
  "op_of w = \<lparr>op_cluster = w, op_hashes = NewHashCache, op_metrics = no_metrics, op_events = [],
     op_clock = (\<lambda>n. unix_epoch + int n * 1000000000)\<rparr>"

definition sample_op :: "mem op" where
  "sample_op = op_of sample_mem"

definition ov :: "string \<Rightarrow> string \<Rightarrow> int32 \<Rightarrow> anymap \<Rightarrow> Override" where
  "ov name tenant weight m = \<lparr>ov_Namespace = ''ns'', ov_Name = name, ov_TenantId = tenant,
     ov_Weight = weight, ov_Overrides = m\<rparr>"

lemma doc_distinct [simp]:
  "doc_rate \<noteq> doc_burst" "doc_rate \<noteq> doc_bogus" "doc_burst \<noteq> doc_bogus"
  "doc_burst \<noteq> doc_rate" "doc_bogus \<noteq> doc_rate" "doc_bogus \<noteq> doc_burst"
  "doc_rate \<noteq> []" "doc_burst \<noteq> []" "doc_bogus \<noteq> []"
  by (simp_all add: doc_rate_def doc_burst_def doc_bogus_def doc_def strconv_Quote_def quote_one_def
      quote_char_def)

lemma sample_unmarshal [simp]:
  "unmarshalRawExtension sample_libs (Some doc_rate) = Inr [(''rate'', Num 0x4020000000000000)]"
  "unmarshalRawExtension sample_libs (Some doc_burst) = Inr [(''burst'', Num 0x4030000000000000)]"
  "unmarshalRawExtension sample_libs (Some doc_bogus) = Inr [(''bogus'', Num 0x3FF0000000000000)]"
  by (simp_all add: unmarshalRawExtension_def sample_libs_def sample_Unmarshal_def)

lemma sample_valid:
  "spec_valid sample_libs (v_Validate field_validator) [cr_rate, cr_burst, cr_bogus] =
     [ov ''a'' ''t1'' 1 [(''rate'', Num 0x4020000000000000)], ov ''b'' ''t1'' 2 [(''burst'', Num 0x4030000000000000)]]"
  by (simp add: spec_valid_def spec_envelope_def cr_rate_def cr_burst_def cr_bogus_def sample_cr_def
      field_verdict override_of_def effective_tenant_def ov_def)

lemma sample_verdicts:
  "env_ValidErr (spec_envelope sample_libs (v_Validate field_validator) cr_rate) = None"
  "env_ValidErr (spec_envelope sample_libs (v_Validate field_validator) cr_bogus) \<noteq> None"
  by (simp_all add: spec_envelope_def cr_rate_def cr_burst_def cr_bogus_def sample_cr_def
      field_verdict override_of_def effective_tenant_def ov_def)

lemma sample_list:
  "cl_ListLoki mem_client sample_mem = Inr [cr_rate, cr_burst, cr_bogus]"
  "cl_ListMimir mem_client sample_mem = Inr [cr_rate, cr_burst, cr_bogus]"
  by (simp_all add: mem_client_def sample_mem_def)

lemma sample_target_simps [simp]:
  "r_Client (sample_target v) = mem_client" "r_OutputCM (sample_target v) = sample_cm"
  "r_Validator (sample_target v) = v" "r_Recorder (sample_target v)" "r_HashCache (sample_target v)"
  by (simp_all add: sample_target_def)

lemma sample_op_simps [simp]:
  "op_cluster (op_of w) = w" "op_hashes (op_of w) = NewHashCache" "op_cluster sample_op = sample_mem"
  by (simp_all add: op_of_def sample_op_def)

lemma mem_apply_never_fails:
  "apply_ConfigMap mem_client name body w \<noteq> (Inl err, w')"
proof
  assume A: "apply_ConfigMap mem_client name body w = (Inl err, w')"
  have "IsNotFound e" if "cl_GetConfigMap mem_client name w = Inl e" for e
    using that by (auto simp: mem_client_def mem_GetConfigMap_def not_found_def IsNotFound_def split: option.splits)
  then have "apply_write mem_client name body w = (Inl err, w')"
    using A by (auto simp: apply_ConfigMap_def split: sum.splits if_splits)
  moreover have "cl_ApplyConfigMap mem_client (desired_ConfigMap name body) FieldManager True w =
      (None, w\<lparr>mem_cms := mem_applied (desired_ConfigMap name body) FieldManager (mem_cms w)\<rparr>)"
    by (simp add: mem_client_def)
  ultimately show False using apply_write_reported[OF mem_apply_visible] by fastforce
qed

lemma sample_body: "\<exists>body. spec_body sample_libs validate crs = Inr body"
  by (simp add: spec_body_def sample_libs_def sample_Render)

text \<open>With the in-memory server a reconcile over comparable values succeeds.\<close>

lemma sample_loki_reconciles:
  assumes "\<forall>c \<in> set (spec_valid sample_libs (v_Validate v) (mem_loki (op_cluster s))). plain_leaves (ov_Overrides c)"
    and "fair sch"
  shows "\<exists>q s'. loki_Reconcile sample_libs sch (sample_target v) s = (Returned q None, s')"
proof -
  obtain e s' where R: "loki_Reconcile sample_libs sch (sample_target v) s = (e, s')" by fastforce
  obtain body where b: "spec_body sample_libs (v_Validate v) (mem_loki (op_cluster s)) = Inr body"
    using sample_body by blast
  have l: "cl_ListLoki mem_client (op_cluster s) = Inr (mem_loki (op_cluster s))"
    by (simp add: mem_client_def)
  from R assms(2) show ?thesis
    by (cases rule: loki.Reconcile_cases) (use R assms(1) b l mem_apply_never_fails in auto)
qed

lemma sample_mimir_reconciles:
  assumes "\<forall>c \<in> set (spec_valid sample_libs (v_Validate v) (mem_mimir (op_cluster s))). plain_leaves (ov_Overrides c)"
    and "fair sch"
  shows "\<exists>q s'. mimir_Reconcile sample_libs sch (sample_target v) s = (Returned q None, s')"
proof -
  obtain e s' where R: "mimir_Reconcile sample_libs sch (sample_target v) s = (e, s')" by fastforce
  obtain body where b: "spec_body sample_libs (v_Validate v) (mem_mimir (op_cluster s)) = Inr body"
    using sample_body by blast
  have l: "cl_ListMimir mem_client (op_cluster s) = Inr (mem_mimir (op_cluster s))"
    by (simp add: mem_client_def)
  from R assms(2) show ?thesis
    by (cases rule: mimir.Reconcile_cases) (use R assms(1) b l mem_apply_never_fails in auto)
qed

lemma sample_plain:
  "\<forall>c \<in> set (spec_valid sample_libs (v_Validate field_validator) [cr_rate, cr_burst, cr_bogus]).
     plain_leaves (ov_Overrides c)"
  by (simp add: sample_valid ov_def plain_leaves_def)

lemma sample_op_loki [simp]:
  "mem_loki sample_mem = [cr_rate, cr_burst, cr_bogus]" "mem_mimir sample_mem = [cr_rate, cr_burst, cr_bogus]"
  by (simp_all add: sample_mem_def)

end
