(* ===== verification/Kinds.thy ===== *)
theory Kinds
  imports Loki_Controller Mimir_Controller Convergence Disabled Webhook
begin

text \<open>
  The operations of the two targets selected by the kind of custom resource, so that a property
  of both reconcilers is one statement. The definitions only choose between the operations of
  \<open>Loki_Controller\<close> and \<open>Mimir_Controller\<close>, of \<open>Disabled\<close> and of \<open>Webhook\<close>.
\<close>

fun label_of :: "cr_kind \<Rightarrow> string" where
  "label_of KindLoki = lokiTargetLabel"
| "label_of KindMimir = mimirTargetLabel"

fun list_of :: "cr_kind \<Rightarrow> 'w client \<Rightarrow> 'w \<Rightarrow> go_error + TenantOverride list" where
  "list_of KindLoki = cl_ListLoki"
| "list_of KindMimir = cl_ListMimir"

fun get_of :: "cr_kind \<Rightarrow> 'w client \<Rightarrow> NamespacedName \<Rightarrow> 'w \<Rightarrow> go_error + TenantOverride" where
  "get_of KindLoki = cl_GetLoki"
| "get_of KindMimir = cl_GetMimir"

fun update_of :: "cr_kind \<Rightarrow> 'w client \<Rightarrow> TenantOverride \<Rightarrow> 'w \<Rightarrow> go_error option \<times> 'w" where
  "update_of KindLoki = cl_UpdateLokiStatus"
| "update_of KindMimir = cl_UpdateMimirStatus"

fun checkDrift_of :: "cr_kind \<Rightarrow> 'w target_struct \<Rightarrow> 'w op \<Rightarrow> bool \<times> string" where
  "checkDrift_of KindLoki = loki_checkDrift"
| "checkDrift_of KindMimir = mimir_checkDrift"

fun updateStatuses_of :: "cr_kind \<Rightarrow> schedule \<Rightarrow> 'w target_struct \<Rightarrow> crEnvelope list \<Rightarrow> Override list \<Rightarrow>
    FieldConflict list gomap \<Rightarrow> apply_result \<Rightarrow> 'w op \<Rightarrow> bool \<times> 'w op" where
  "updateStatuses_of KindLoki = loki_updateStatuses"
| "updateStatuses_of KindMimir = mimir_updateStatuses"

fun Reconcile_of :: "cr_kind \<Rightarrow> libs \<Rightarrow> schedule \<Rightarrow> 'w target_struct \<Rightarrow> 'w op \<Rightarrow> reconcile_end \<times> 'w op" where
  "Reconcile_of KindLoki = loki_Reconcile"
| "Reconcile_of KindMimir = mimir_Reconcile"

fun registration_of :: "cr_kind \<Rightarrow> 'w target_struct \<Rightarrow> registration" where
  "registration_of KindLoki r = snd (loki_SetupWithManager r)"
| "registration_of KindMimir r = snd (mimir_SetupWithManager r)"

fun key_of :: "cr_kind \<Rightarrow> NamespacedName" where
  "key_of KindLoki = lokiReconcileKey"
| "key_of KindMimir = mimirReconcileKey"

fun disabled_Reconcile_of :: "cr_kind \<Rightarrow> 'w disabled_struct \<Rightarrow> NamespacedName \<Rightarrow> 'w op \<Rightarrow> disabled_result \<times> 'w op" where
  "disabled_Reconcile_of KindLoki = loki_disabled_Reconcile"
| "disabled_Reconcile_of KindMimir = mimir_disabled_Reconcile"

fun envelope_of :: "cr_kind \<Rightarrow> libs \<Rightarrow> 'w target_struct \<Rightarrow> TenantOverride \<Rightarrow> 'w op \<Rightarrow> crEnvelope \<times> 'w op" where
  "envelope_of KindLoki = loki_envelope"
| "envelope_of KindMimir = mimir_envelope"

fun object_of :: "cr_kind \<Rightarrow> TenantOverride \<Rightarrow> runtime_object" where
  "object_of KindLoki cr = ObjLoki cr"
| "object_of KindMimir cr = ObjMimir cr"

fun ValidateCreate_of :: "cr_kind \<Rightarrow> libs \<Rightarrow> Validator option \<Rightarrow> runtime_object \<Rightarrow> go_error option" where
  "ValidateCreate_of KindLoki lib v = loki_ValidateCreate lib \<lparr>lv_Validator = v\<rparr>"
| "ValidateCreate_of KindMimir lib v = mimir_ValidateCreate lib \<lparr>mv_Validator = v\<rparr>"

fun ValidateUpdate_of :: "cr_kind \<Rightarrow> libs \<Rightarrow> Validator option \<Rightarrow> runtime_object \<Rightarrow> runtime_object \<Rightarrow>
    go_error option" where
  "ValidateUpdate_of KindLoki lib v = loki_ValidateUpdate lib \<lparr>lv_Validator = v\<rparr>"
| "ValidateUpdate_of KindMimir lib v = mimir_ValidateUpdate lib \<lparr>mv_Validator = v\<rparr>"

fun custom_validator_of :: "cr_kind \<Rightarrow> libs \<Rightarrow> Validator option \<Rightarrow> custom_validator" where
  "custom_validator_of KindLoki lib v = loki_custom_validator lib \<lparr>lv_Validator = v\<rparr>"
| "custom_validator_of KindMimir lib v = mimir_custom_validator lib \<lparr>mv_Validator = v\<rparr>"

fun validate_path_of :: "cr_kind \<Rightarrow> string" where
  "validate_path_of KindLoki = LokiTenantOverrideValidatePath"
| "validate_path_of KindMimir = MimirTenantOverrideValidatePath"

text \<open>The laws of the interpretations, in this form.\<close>

lemma label_of_simps: "label_of KindLoki = ''loki''" "label_of KindMimir = ''mimir''"
  by (simp_all add: lokiTargetLabel_def mimirTargetLabel_def)

lemma Reconcile_of_publishes:
  assumes "Reconcile_of k lib sch r s = (Returned q None, s')" and "fair sch"
    and "apply_visible (r_Client r)" and "status_local (update_of k (r_Client r)) (r_Client r)"
  obtains items body where "list_of k (r_Client r) (op_cluster s) = Inr items"
    and "spec_body lib (v_Validate (r_Validator r)) items = Inr body"
    and "holds_body (r_Client r) (r_OutputCM r) body (op_cluster s')"
    and "r_HashCache r \<Longrightarrow> HashCache_Get (op_hashes s') (label_of k) = Some (Hash body)"
proof (cases k)
  case KindLoki
  then show ?thesis
    using assms that loki.Reconcile_publishes[of lib sch r s q s'] by auto
next
  case KindMimir
  then show ?thesis
    using assms that mimir.Reconcile_publishes[of lib sch r s q s'] by auto
qed

lemma checkDrift_of_eq: "checkDrift_of k r s =
     (if \<not> r_HashCache r then (False, [])
      else case HashCache_Get (op_hashes s) (label_of k) of
        None \<Rightarrow> (False, [])
      | Some h \<Rightarrow>
          (case cl_GetConfigMap (r_Client r) (r_OutputCM r) (op_cluster s) of
             Inl err \<Rightarrow> (False, [])
           | Inr live \<Rightarrow> if Hash (cm_body DataKey live) = h then (False, [])
               else (True, extractConflictingFieldManager (Some live) FieldManager)))"
  by (cases k) (simp_all add: loki.checkDrift_eq mimir.checkDrift_eq)

lemma Reconcile_of_no_drift:
  assumes "Reconcile_of k lib sch r s = (Returned q None, s')" and "fair sch"
    and "apply_visible (r_Client r)" and "status_local (update_of k (r_Client r)) (r_Client r)"
  shows "checkDrift_of k r s' = (False, [])"
  using assms loki.Reconcile_no_drift[of lib sch r s q s'] mimir.Reconcile_no_drift[of lib sch r s q s']
  by (cases k) auto

lemma Reconcile_of_failed:
  assumes "Reconcile_of k lib sch r s = (Returned q (Some err), s')" and "fair sch"
  shows "q = 0 \<and> op_hashes s' = op_hashes s \<and> op_events s' = op_events s \<and>
     (\<exists>m. op_metrics s' = Inc ReconcileTotal [label_of k, ''write_failed''] m)"
  using assms loki.Reconcile_failed[of lib sch r s q err s'] mimir.Reconcile_failed[of lib sch r s q err s']
  by (cases k) auto

lemma Reconcile_of_nothing_written:
  assumes "Reconcile_of k lib sch r s = (e, s')" and "fair sch"
    and "\<And>items body. list_of k (r_Client r) (op_cluster s) = Inr items \<Longrightarrow>
      spec_body lib (v_Validate (r_Validator r)) items \<noteq> Inr body"
  shows "op_cluster s' = op_cluster s"
  using assms loki.Reconcile_nothing_written[of lib sch r s e s'] mimir.Reconcile_nothing_written[of lib sch r s e s']
  by (cases k) auto

lemma Reconcile_of_no_panic:
  assumes "fair sch" and "list_of k (r_Client r) (op_cluster s) = Inr items"
    and "\<forall>ov \<in> set (spec_valid lib (v_Validate (r_Validator r)) items). plain_leaves (ov_Overrides ov)"
  shows "\<exists>q err s'. Reconcile_of k lib sch r s = (Returned q err, s')"
  using assms loki.Reconcile_no_panic[of sch r s items lib] mimir.Reconcile_no_panic[of sch r s items lib]
  by (cases k) auto

lemma disabled_of_marked:
  assumes "get_of k (d_Client r) req (op_cluster s) = Inr cr" and "marked_disabled (label_of k) cr"
  shows "disabled_Reconcile_of k r req s = ((0, None), s)"
  using assms loki_disabled.marked_noop[of r req s cr] mimir_disabled.marked_noop[of r req s cr]
  by (cases k) (auto simp: lokiTargetLabel_def mimirTargetLabel_def)

lemma disabled_of_writes:
  assumes "get_of k (d_Client r) req (op_cluster s) = Inr cr" and "disabled_Reconcile_of k r req s = (res, s')"
  shows "op_cluster s' = op_cluster s \<or>
    (\<exists>cr' err. marked_disabled (label_of k) cr' \<and> cr_id cr' = cr_id cr \<and> cr_Spec cr' = cr_Spec cr \<and>
       cr_Generation cr' = cr_Generation cr \<and>
       update_of k (d_Client r) cr' (op_cluster s) = (err, op_cluster s'))"
  using assms loki_disabled.writes_marked[of r req s cr res s'] mimir_disabled.writes_marked[of r req s cr res s']
  by (cases k) (auto simp: lokiTargetLabel_def mimirTargetLabel_def)

lemma admission_of_agrees:
  "ValidateCreate_of k lib (Some v) (object_of k cr) = None \<longleftrightarrow>
     env_ValidErr (spec_envelope lib (v_Validate v) cr) = None"
  "ValidateUpdate_of k lib (Some v) old (object_of k cr) = None \<longleftrightarrow>
     env_ValidErr (spec_envelope lib (v_Validate v) cr) = None"
  using loki_admission.agrees_with_reconciler[of "ObjLoki cr" cr "Some v" v lib]
    mimir_admission.agrees_with_reconciler[of "ObjMimir cr" cr "Some v" v lib]
    loki_admission.update_agrees_with_reconciler[of "ObjLoki cr" cr "Some v" v lib old]
    mimir_admission.update_agrees_with_reconciler[of "ObjMimir cr" cr "Some v" v lib old]
  by (cases k; simp)+

lemma envelope_of_spec: "fst (envelope_of k lib r cr s) = spec_envelope lib (v_Validate (r_Validator r)) cr"
  by (cases k) (simp_all add: loki_envelope_spec mimir_envelope_spec)

lemma custom_validator_of_simps:
  "cv_Create (custom_validator_of k lib v) = ValidateCreate_of k lib v"
  "cv_Update (custom_validator_of k lib v) = ValidateUpdate_of k lib v"
  by (cases k; simp add: loki_custom_validator_def mimir_custom_validator_def)+

lemma admission_of_other:
  "k' \<noteq> k \<Longrightarrow> ValidateCreate_of k lib v (object_of k' cr) \<noteq> None"
  "k' \<noteq> k \<Longrightarrow> ValidateUpdate_of k lib v old (object_of k' cr) \<noteq> None"
  by (cases k; cases k'; simp add: loki_ValidateCreate_def mimir_ValidateCreate_def
      loki_ValidateUpdate_def mimir_ValidateUpdate_def)+

text \<open>A server that fulfils every promise the convergence of a target rests on.\<close>

definition settling_server :: "cr_kind \<Rightarrow> 'w client \<Rightarrow> bool" where
  "settling_server k c \<longleftrightarrow> apply_visible c \<and> apply_accepted c \<and> apply_local c \<and>
     status_local (update_of k c) c \<and> status_visible (list_of k c) (update_of k c) \<and>
     status_accepted (list_of k c) (update_of k c)"

lemma apply_local_keeps_list: "apply_local c \<Longrightarrow> apply_keeps_list (list_of k c) c"
  unfolding apply_keeps_list_def apply_local_def by (cases k; metis label_of.cases list_of.simps prod.collapse)

text \<open>Any sequence of reconciles of a target, between which only the operator's own state may change.\<close>

definition attempts_of :: "cr_kind \<Rightarrow> libs \<Rightarrow> 'w target_struct \<Rightarrow> (nat \<Rightarrow> schedule) \<Rightarrow> (nat \<Rightarrow> 'w client) \<Rightarrow>
    (nat \<Rightarrow> 'w op) \<Rightarrow> bool" where
  "attempts_of k lib r sch cs st \<longleftrightarrow>
     (\<forall>i. op_cluster (st (Suc i)) =
        op_cluster (snd (Reconcile_of k lib (sch i) (r\<lparr>r_Client := cs i\<rparr>) (st i))))"

lemma attempts_of_settle:
  assumes "attempts_of k lib r sch cs st" and "\<And>i. fair (sch i)"
    and "\<And>i. flaky (list_of k) (update_of k) c0 (cs i)" and "cs m = c0" and "settling_server k c0"
    and "list_of k c0 (op_cluster (st 0)) = Inr items" and "distinct_crs items"
    and "\<forall>cr \<in> set items. own_conditions cr"
    and "\<forall>ov \<in> set (spec_valid lib (v_Validate (r_Validator r)) items). plain_leaves (ov_Overrides ov)"
    and "spec_body lib (v_Validate (r_Validator r)) items = Inr body"
  shows "\<forall>i > m. settled (list_of k) lib r c0 (op_cluster (st i)) \<and> op_cluster (st i) = op_cluster (st (Suc m))"
proof -
  have known: "known_items items (list_of k c0 (op_cluster (st 0)))"
    using assms(6,8) by (auto simp: known_items_def intro: list.rel_refl)
  note server = assms(5)[unfolded settling_server_def] and keeps = apply_local_keeps_list[of c0 k]
  show ?thesis
  proof (cases k)
    case KindLoki
    show ?thesis
      unfolding KindLoki list_of.simps
      by (rule loki.attempts_settle[where cs = cs and sch = sch])
        (use assms server keeps known in \<open>simp_all add: KindLoki attempts_of_def\<close>)
  next
    case KindMimir
    show ?thesis
      unfolding KindMimir list_of.simps
      by (rule mimir.attempts_settle[where cs = cs and sch = sch])
        (use assms server keeps known in \<open>simp_all add: KindMimir attempts_of_def\<close>)
  qed
qed

lemma Reconcile_of_exact:
  assumes "Reconcile_of k lib sch r s = (Returned q None, s')" and "fair sch"
    and "apply_visible (r_Client r)" and "status_local (update_of k (r_Client r)) (r_Client r)"
    and "list_of k (r_Client r) (op_cluster s) = Inr items"
    and "\<And>body. spec_body lib (v_Validate (r_Validator r)) items = Inr body \<Longrightarrow>
      no_collision (r_Client r) (r_OutputCM r) body (op_cluster s)"
  shows "\<exists>body. spec_body lib (v_Validate (r_Validator r)) items = Inr body \<and>
    holds_exactly (r_Client r) (r_OutputCM r) body (op_cluster s')"
  using assms loki.Reconcile_exact[of lib sch r s q s' items] mimir.Reconcile_exact[of lib sch r s q s' items]
  by (cases k) auto

text \<open>A client whose calls of every kind may fail.\<close>

definition failing_version :: "'w client \<Rightarrow> 'w client \<Rightarrow> bool" where
  "failing_version c0 c \<longleftrightarrow> (\<forall>k. flaky (list_of k) (update_of k) c0 c \<and>
     (\<forall>n w. get_of k c n w = get_of k c0 n w \<or> (\<exists>e. get_of k c n w = Inl e)))"

lemma failing_version_refl: "failing_version c c"
  by (simp add: failing_version_def flaky_def may_fail_def)

lemma failing_versionD:
  assumes "failing_version c0 c"
  shows "flaky (list_of k) (update_of k) c0 c"
    and "get_of k c n w = get_of k c0 n w \<or> (\<exists>e. get_of k c n w = Inl e)"
  using assms unfolding failing_version_def by blast+

text \<open>A server that shows what it has accepted, and whose writes touch one object each.\<close>

definition orderly :: "'w client \<Rightarrow> bool" where
  "orderly c \<longleftrightarrow> apply_visible c \<and> apply_local c \<and> (\<forall>k. status_local (update_of k c) c)"

lemma orderlyD:
  assumes "orderly c"
  shows "apply_visible c" "apply_local c" "status_local (update_of k c) c"
    "status_local (cl_UpdateLokiStatus c) c" "status_local (cl_UpdateMimirStatus c) c"
proof -
  have "\<forall>k. status_local (update_of k c) c" using assms by (simp add: orderly_def)
  from this[rule_format, of KindLoki] this[rule_format, of KindMimir] this[rule_format, of k]
  show "status_local (update_of k c) c" "status_local (cl_UpdateLokiStatus c) c" "status_local (cl_UpdateMimirStatus c) c"
    by simp_all
qed (use assms in \<open>simp_all add: orderly_def\<close>)

lemma Reconcile_of_elsewhere:
  assumes "Reconcile_of k lib sch r s = (e, s')" and "fair sch" and "failing_version c0 (r_Client r)" and "orderly c0"
  shows "n \<noteq> r_OutputCM r \<Longrightarrow> cl_GetConfigMap c0 n (op_cluster s') = cl_GetConfigMap c0 n (op_cluster s)"
    and "l \<noteq> label_of k \<Longrightarrow> HashCache_Get (op_hashes s') l = HashCache_Get (op_hashes s) l"
proof -
  have "(n \<noteq> r_OutputCM r \<longrightarrow> cl_GetConfigMap c0 n (op_cluster s') = cl_GetConfigMap c0 n (op_cluster s)) \<and>
      (l \<noteq> label_of k \<longrightarrow> HashCache_Get (op_hashes s') l = HashCache_Get (op_hashes s) l)"
    using assms failing_versionD(1)[OF assms(3), of k] loki.Reconcile_elsewhere[of lib sch r s e s' c0]
      mimir.Reconcile_elsewhere[of lib sch r s e s' c0]
      orderlyD[OF assms(4)]
    by (cases k) auto
  then show "n \<noteq> r_OutputCM r \<Longrightarrow> cl_GetConfigMap c0 n (op_cluster s') = cl_GetConfigMap c0 n (op_cluster s)"
    and "l \<noteq> label_of k \<Longrightarrow> HashCache_Get (op_hashes s') l = HashCache_Get (op_hashes s) l" by simp_all
qed

lemma Reconcile_of_in_step:
  assumes "Reconcile_of k lib sch r s = (e, s')" and "fair sch" and "failing_version c0 (r_Client r)" and "orderly c0"
    and "r_HashCache r"
    and "(in_step c0 (label_of k) (r_OutputCM r) s \<and> (\<forall>q err. e = Returned q (Some err) \<longrightarrow> \<not> apply_error err)) \<or>
      (\<exists>q. e = Returned q None)"
  shows "in_step c0 (label_of k) (r_OutputCM r) s'"
proof (cases k)
  case KindLoki
  show ?thesis
    unfolding KindLoki label_of.simps
    by (rule loki.Reconcile_in_step[where lib = lib and sch = sch and r = r and s = s and e = e])
      (use assms failing_versionD(1)[OF assms(3), of KindLoki] orderlyD[OF assms(4)] in
        \<open>simp_all add: KindLoki\<close>)
next
  case KindMimir
  show ?thesis
    unfolding KindMimir label_of.simps
    by (rule mimir.Reconcile_in_step[where lib = lib and sch = sch and r = r and s = s and e = e])
      (use assms failing_versionD(1)[OF assms(3), of KindMimir] orderlyD[OF assms(4)] in
        \<open>simp_all add: KindMimir\<close>)
qed

text \<open>A settled target is left alone, whatever fails.\<close>

lemma Reconcile_of_settled:
  assumes "Reconcile_of k lib sch r s = (e, s')" and "fair sch" and "failing_version c0 (r_Client r)"
    and "settled (list_of k) lib r c0 (op_cluster s)"
  shows "op_cluster s' = op_cluster s"
  using assms failing_versionD(1)[OF assms(3), of k] loki.settled_stays[of lib sch r s e s' c0]
    mimir.settled_stays[of lib sch r s e s' c0]
  by (cases k) auto

end
