(* ===== verification/Operator_Runs.thy ===== *)
theory Operator_Runs
  imports Kinds Main_Wiring
begin

text \<open>
  The running operator as a transition system: what \<open>main\<close> has registered with the manager takes
  steps in any order, between changes of the cluster by others and restarts of the process, and any
  call to the API server may fail. A reconcile, a start of the bootstrap runnable and a change by
  others is one step each; the runs of two handlers do not overlap.
\<close>

section \<open>Steps\<close>

datatype op_action = DidReconcile cr_kind reconcile_end | DidDisabled cr_kind
  | DidBootstrap "go_error option" | Restarted | ObjectsChanged | ForeignWrite NamespacedName

text \<open>
  \<open>c0\<close> is the API server, and each handler works on a version \<open>c\<close> of it whose calls may fail.
  \<open>ForeignWrite n\<close> creates, changes or deletes the config map \<open>n\<close>, and may change anything that is
  not a config map; \<open>ObjectsChanged\<close> leaves all config maps alone. A restarted process begins with an
  empty hash cache.
\<close>

inductive op_step :: "libs \<Rightarrow> 'w client \<Rightarrow> ('w, 'l, 'm, 'q) startup \<Rightarrow> 'w op \<Rightarrow> op_action \<Rightarrow> 'w op \<Rightarrow> bool"
  for lib :: libs and c0 :: "'w client" and st :: "('w, 'l, 'm, 'q) startup" where
  step_loki: "LokiActive r \<in> fst ` set (su_controllers st) \<Longrightarrow> failing_version c0 c \<Longrightarrow> fair sch \<Longrightarrow>
    loki_Reconcile lib sch (r\<lparr>r_Client := c\<rparr>) s = (e, s') \<Longrightarrow> op_step lib c0 st s (DidReconcile KindLoki e) s'"
| step_mimir: "MimirActive r \<in> fst ` set (su_controllers st) \<Longrightarrow> failing_version c0 c \<Longrightarrow> fair sch \<Longrightarrow>
    mimir_Reconcile lib sch (r\<lparr>r_Client := c\<rparr>) s = (e, s') \<Longrightarrow> op_step lib c0 st s (DidReconcile KindMimir e) s'"
| step_loki_disabled: "LokiDisabled d \<in> fst ` set (su_controllers st) \<Longrightarrow> failing_version c0 c \<Longrightarrow>
    loki_disabled_Reconcile (d\<lparr>d_Client := c\<rparr>) req s = (res, s') \<Longrightarrow> op_step lib c0 st s (DidDisabled KindLoki) s'"
| step_mimir_disabled: "MimirDisabled d \<in> fst ` set (su_controllers st) \<Longrightarrow> failing_version c0 c \<Longrightarrow>
    mimir_disabled_Reconcile (d\<lparr>d_Client := c\<rparr>) req s = (res, s') \<Longrightarrow> op_step lib c0 st s (DidDisabled KindMimir) s'"
| step_bootstrap: "su_bootstrap st = Some b \<Longrightarrow> failing_version c0 c \<Longrightarrow>
    Start (lib_Encoder lib) (b\<lparr>b_Client := c\<rparr>) s = (err, s') \<Longrightarrow> op_step lib c0 st s (DidBootstrap err) s'"
| step_restart: "op_hashes s' = NewHashCache \<Longrightarrow> op_cluster s' = op_cluster s \<Longrightarrow> op_step lib c0 st s Restarted s'"
| step_objects: "\<forall>n. cl_GetConfigMap c0 n w = cl_GetConfigMap c0 n (op_cluster s) \<Longrightarrow>
    op_step lib c0 st s ObjectsChanged (op_SetCluster w s)"
| step_foreign: "\<forall>m. m \<noteq> n \<longrightarrow> cl_GetConfigMap c0 m w = cl_GetConfigMap c0 m (op_cluster s) \<Longrightarrow>
    op_step lib c0 st s (ForeignWrite n) (op_SetCluster w s)"

inductive op_steps :: "libs \<Rightarrow> 'w client \<Rightarrow> ('w, 'l, 'm, 'q) startup \<Rightarrow> 'w op \<Rightarrow> op_action list \<Rightarrow> 'w op \<Rightarrow> bool"
  for lib :: libs and c0 :: "'w client" and st :: "('w, 'l, 'm, 'q) startup" and s0 :: "'w op" where
  steps_none: "op_steps lib c0 st s0 [] s0"
| steps_snoc: "op_steps lib c0 st s0 acts s \<Longrightarrow> op_step lib c0 st s a s' \<Longrightarrow> op_steps lib c0 st s0 (acts @ [a]) s'"

lemma steps_Cons:
  assumes "op_step lib c0 st s0 a s1"
  shows "op_steps lib c0 st s1 acts s \<Longrightarrow> op_steps lib c0 st s0 (a # acts) s"
proof (induction rule: op_steps.induct)
  case steps_none
  show ?case using steps_snoc[OF op_steps.steps_none assms] by simp
next
  case (steps_snoc acts s b s')
  show ?case using op_steps.steps_snoc[OF steps_snoc.IH steps_snoc.hyps(2)] by simp
qed

text \<open>The states a new process can reach, with what happened on the way.\<close>

definition op_run :: "libs \<Rightarrow> 'w client \<Rightarrow> ('w, 'l, 'm, 'q) startup \<Rightarrow> op_action list \<Rightarrow> 'w op \<Rightarrow> bool" where
  "op_run lib c0 st acts s \<longleftrightarrow> (\<exists>s0. op_hashes s0 = NewHashCache \<and> op_steps lib c0 st s0 acts s)"

text \<open>
  The config map may differ from what the operator remembers of it: somebody else wrote it, or a
  write of the operator's own was reported as failed, and the operator has neither reconciled the
  target since, without an error, nor bootstrapped it, nor restarted.
\<close>

fun tampers :: "cr_kind \<Rightarrow> NamespacedName \<Rightarrow> bool \<Rightarrow> op_action \<Rightarrow> bool" where
  "tampers k n t (ForeignWrite m) = (t \<or> m = n)"
| "tampers k n t (DidReconcile k' (Returned q None)) = (t \<and> k' \<noteq> k)"
| "tampers k n t (DidReconcile k' (Returned q (Some err))) = (t \<or> (k' = k \<and> apply_error err))"
| "tampers k n t (DidReconcile k' (Panicked msg)) = t"
| "tampers k n t (DidDisabled k') = t"
| "tampers k n t (DidBootstrap err) = (err \<noteq> None)"
| "tampers k n t Restarted = False"
| "tampers k n t ObjectsChanged = t"

definition tampered :: "cr_kind \<Rightarrow> NamespacedName \<Rightarrow> op_action list \<Rightarrow> bool" where
  "tampered k n acts = foldl (tampers k n) False acts"

lemma tampered_simps [simp]:
  "tampered k n [] = False" "tampered k n (acts @ [a]) = tampers k n (tampered k n acts) a"
  by (simp_all add: tampered_def)

section \<open>What a step does to the cache and the config map\<close>

text \<open>The disabled-target reconcilers touch neither.\<close>

lemma disabled_of_silent:
  assumes "disabled_Reconcile_of k d req s = (res, s')" and "failing_version c0 (d_Client d)" and "orderly c0"
  shows "op_hashes s' = op_hashes s \<and> cl_GetConfigMap c0 n (op_cluster s') = cl_GetConfigMap c0 n (op_cluster s)"
proof (cases "get_of k (d_Client d) req (op_cluster s)")
  case (Inl err)
  then show ?thesis
    using assms(1) by (cases k) (auto simp: loki_disabled_Reconcile_def mimir_disabled_Reconcile_def)
next
  case (Inr cr)
  obtain changed cr' s1 where ap: "applyDisabledStatus (d_Recorder d) cr (label_of k) s = ((changed, cr'), s1)"
    by (metis surj_pair)
  obtain err w where up: "update_of k (d_Client d) cr' (op_cluster s1) = (err, w)" by fastforce
  have "s' = s1 \<or> s' = op_SetCluster w s1"
    using assms(1) Inr ap up
      loki_disabled.Reconcile_got[of d req s cr changed cr' s1] mimir_disabled.Reconcile_got[of d req s cr changed cr' s1]
    by (cases k) (auto simp: lokiTargetLabel_def mimirTargetLabel_def split: if_splits)
  moreover have "status_local (update_of k (d_Client d)) c0"
    by (rule status_local_flaky[OF failing_versionD(1)[OF assms(2)] orderlyD(3)[OF assms(3)]])
  then have "cl_GetConfigMap c0 n w = cl_GetConfigMap c0 n (op_cluster s1)"
    using up unfolding status_local_def by blast
  ultimately show ?thesis using applyDisabled_result(7,8)[OF ap] by auto
qed

text \<open>A bootstrap that succeeds puts its targets in step.\<close>

lemma bootstrap_target_in_step:
  assumes "failing_version c0 (b_Client b)" and "orderly c0" and "b_HashCache b"
    and "bootstrap_target enc b t s = (None, s')" and "l = bt_Name t \<longleftrightarrow> n = bt_OutputCM t"
    and "in_step c0 l n s \<or> l = bt_Name t"
  shows "in_step c0 l n s'"
proof -
  note fl = failing_versionD(1)[OF assms(1), of KindLoki] and o = orderlyD[OF assms(2)]
  show ?thesis
  proof (cases "l = bt_Name t")
    case True
    then have n: "n = bt_OutputCM t" using assms(5) by simp
    show ?thesis
    proof (cases "cl_GetConfigMap (b_Client b) (bt_OutputCM t) (op_cluster s)")
      case (Inr live)
      then have "cl_GetConfigMap c0 n (op_cluster s) = Inr live"
        using flakyD(1)[OF fl, of n "op_cluster s"] n by auto
      moreover have "s' = op_SetHash l (Hash (cm_body DataKey live)) s"
        using assms(3,4) Inr True by (simp add: bootstrap_target_def)
      ultimately show ?thesis by (simp add: in_step_def hashes.lookup_put)
    next
      case (Inl err)
      then obtain body res w where ap: "apply_ConfigMap (b_Client b) (bt_OutputCM t) body (op_cluster s) = (Inr res, w)"
          and s': "s' = op_SetHash l (res_Hash res) (op_SetCluster w s)"
        using assms(3,4) True by (auto simp: bootstrap_target_def split: if_splits sum.splits prod.splits)
      from apply_flaky_holds[OF fl o(1) ap] show ?thesis
        by (intro in_step_holds[of c0 n body]) (simp_all add: s' n apply_hash[OF ap] hashes.lookup_put)
    qed
  next
    case False
    then have ne: "n \<noteq> bt_OutputCM t" using assms(5) by simp
    have "op_cluster s' = op_cluster s \<or>
        (\<exists>body r. apply_ConfigMap (b_Client b) (bt_OutputCM t) body (op_cluster s) = (r, op_cluster s'))"
      using assms(4) by (auto simp: bootstrap_target_def split: sum.splits if_splits prod.splits)
    then have "cl_GetConfigMap c0 n (op_cluster s') = cl_GetConfigMap c0 n (op_cluster s)"
      using apply_flaky_other[OF fl o(2) _ ne] by metis
    then show ?thesis
      using assms(6) False bootstrap_target_hash_other[OF assms(4) False] by (simp add: in_step_def)
  qed
qed

lemma bootstrap_targets_in_step:
  assumes "failing_version c0 (b_Client b)" and "orderly c0" and "b_HashCache b"
  shows "bootstrap_targets enc b ts s = (None, s') \<Longrightarrow> \<forall>t \<in> set ts. l = bt_Name t \<longleftrightarrow> n = bt_OutputCM t \<Longrightarrow>
    in_step c0 l n s \<or> l \<in> bt_Name ` set ts \<Longrightarrow> in_step c0 l n s'"
proof (induction ts arbitrary: s)
  case (Cons u ts)
  obtain s1 where one: "bootstrap_target enc b u s = (None, s1)" and rest: "bootstrap_targets enc b ts s1 = (None, s')"
    using Cons.prems(1) by (auto split: prod.splits option.splits)
  have "in_step c0 l n s1 \<or> l \<in> bt_Name ` set ts"
    using bootstrap_target_in_step[OF assms one, of l n] Cons.prems(2,3) by auto
  with Cons.IH[OF rest] Cons.prems(2) show ?case by simp
qed simp

text \<open>Where every config map exists the bootstrap changes nothing in the cluster, whatever fails.\<close>

lemma bootstrap_targets_existing:
  assumes "failing_version c0 (b_Client b)"
  shows "bootstrap_targets enc b ts s = (err, s') \<Longrightarrow>
    \<forall>t \<in> set ts. \<exists>live. cl_GetConfigMap c0 (bt_OutputCM t) (op_cluster s) = Inr live \<Longrightarrow> op_cluster s' = op_cluster s"
proof (induction ts arbitrary: s)
  case (Cons u ts)
  obtain e1 s1 where one: "bootstrap_target enc b u s = (e1, s1)" by fastforce
  obtain live where "cl_GetConfigMap c0 (bt_OutputCM u) (op_cluster s) = Inr live" using Cons.prems(2) by auto
  then have s1: "op_cluster s1 = op_cluster s"
    using one flakyD(1)[OF failing_versionD(1)[OF assms, of KindLoki], of "bt_OutputCM u" "op_cluster s"]
    by (auto simp: bootstrap_target_def split: if_splits)
  show ?case
  proof (cases e1)
    case None
    then have "bootstrap_targets enc b ts s1 = (err, s')" using Cons.prems(1) one by simp
    from Cons.IH[OF this] Cons.prems(2) show ?thesis by (simp add: s1)
  next
    case (Some e)
    then show ?thesis using Cons.prems(1) one s1 by simp
  qed
qed simp

section \<open>The operator that \<open>main\<close> has started\<close>

fun enabled_of :: "cr_kind \<Rightarrow> flags \<Rightarrow> bool" where
  "enabled_of KindLoki fl = fl_lokiEnabled fl"
| "enabled_of KindMimir fl = fl_mimirEnabled fl"

fun output_of :: "cr_kind \<Rightarrow> flags \<Rightarrow> NamespacedName" where
  "output_of KindLoki fl = NamespacedName (fl_lokiCMNamespace fl) (fl_lokiCMName fl)"
| "output_of KindMimir fl = NamespacedName (fl_mimirCMNamespace fl) (fl_mimirCMName fl)"

fun active_of :: "cr_kind \<Rightarrow> ('w, 'l, 'm, 'q) startup \<Rightarrow> 'w target_struct \<Rightarrow> bool" where
  "active_of KindLoki st r = (LokiActive r \<in> fst ` set (su_controllers st))"
| "active_of KindMimir st r = (MimirActive r \<in> fst ` set (su_controllers st))"

text \<open>Validation does not check this: two enabled targets write to different config maps.\<close>

definition outputs_distinct :: "flags \<Rightarrow> bool" where
  "outputs_distinct fl \<longleftrightarrow> (fl_lokiEnabled fl \<and> fl_mimirEnabled fl \<longrightarrow> output_of KindLoki fl \<noteq> output_of KindMimir fl)"

lemma label_of_inj: "label_of k = label_of k' \<longleftrightarrow> k = k'"
  by (cases k; cases k'; simp add: lokiTargetLabel_def mimirTargetLabel_def)

lemma outputs_distinct_kinds:
  "outputs_distinct fl \<Longrightarrow> enabled_of k fl \<Longrightarrow> enabled_of k' fl \<Longrightarrow> k' \<noteq> k \<Longrightarrow> output_of k fl \<noteq> output_of k' fl"
  unfolding outputs_distinct_def by (cases k; cases k'; auto)

lemma started_controllers:
  "fully_started en fl st \<Longrightarrow> fst ` set (su_controllers st) = {loki_controller_of en fl, mimir_controller_of en fl}"
  by (auto simp: fully_started_def simp flip: set_map)

lemma started_active:
  assumes "fully_started en fl st" and "active_of k st r"
  shows "enabled_of k fl \<and> r_OutputCM r = output_of k fl \<and> r_HashCache r"
  using assms(2) started_controllers[OF assms(1)]
  by (cases k) (auto simp: loki_controller_of_def mimir_controller_of_def split: if_splits)

text \<open>The webhook of an active kind is registered under its path, with the validator of the reconciler.\<close>

lemma started_webhook:
  assumes "fully_started en fl st" and "fl_enableWebhook fl" and "active_of k st r"
  shows "map_of (su_webhooks st) (validate_path_of k) =
    Some (WithSourceCodeHeader (en_Admission en (custom_validator_of k (en_Libs en) (Some (r_Validator r)))))"
proof -
  have paths: "LokiTenantOverrideValidatePath \<noteq> MimirTenantOverrideValidatePath"
    by (simp add: LokiTenantOverrideValidatePath_def MimirTenantOverrideValidatePath_def)
  have new: "validator_for en TargetLoki \<noteq> None" "validator_for en TargetMimir \<noteq> None"
    by (simp_all add: validator_for_def New_def primed_def TargetLoki_def TargetMimir_def)
  have "su_webhooks st = webhooks_of en fl" using assms(1) by (simp add: fully_started_def)
  then show ?thesis
    using assms(2,3) new paths started_controllers[OF assms(1)]
    by (cases k) (auto simp: webhooks_of_def SetupLokiTenantOverrideWebhookWithManager_def
        SetupMimirTenantOverrideWebhookWithManager_def loki_controller_of_def mimir_controller_of_def
        split: if_splits)
qed

lemma started_disabled:
  assumes "fully_started en fl st"
  shows "LokiDisabled d \<in> fst ` set (su_controllers st) \<Longrightarrow> \<not> fl_lokiEnabled fl"
    and "MimirDisabled d \<in> fst ` set (su_controllers st) \<Longrightarrow> \<not> fl_mimirEnabled fl"
  using started_controllers[OF assms]
  by (auto simp: loki_controller_of_def mimir_controller_of_def split: if_splits)

lemma enabled_targets_match:
  assumes "outputs_distinct fl" and "enabled_of k fl"
  shows "\<forall>t \<in> set (enabled_targets fl). label_of k = bt_Name t \<longleftrightarrow> output_of k fl = bt_OutputCM t"
    and "label_of k \<in> bt_Name ` set (enabled_targets fl)"
  using assms
  by (cases k; auto simp: enabled_targets_def outputs_distinct_def lokiTargetLabel_def mimirTargetLabel_def)+

section \<open>Cache and config map in a run\<close>

definition running :: "('w, 'l, 'm, 'q) environment \<Rightarrow> flags \<Rightarrow> ('w, 'l, 'm, 'q) startup \<Rightarrow> cr_kind \<Rightarrow> bool" where
  "running en fl st k \<longleftrightarrow> fully_started en fl st \<and> orderly (en_Client en) \<and> outputs_distinct fl \<and> enabled_of k fl"

lemma runningD:
  assumes "running en fl st k"
  shows "fully_started en fl st" "outputs_distinct fl" "enabled_of k fl" "orderly (en_Client en)"
  using assms by (simp_all add: running_def)

lemma reconcile_step_tampers:
  assumes run: "running en fl st k" and "active_of k' st r" and "failing_version (en_Client en) c" and "fair sch"
    and "Reconcile_of k' lib sch (r\<lparr>r_Client := c\<rparr>) s = (e, s')"
    and t: "t \<or> in_step (en_Client en) (label_of k) (output_of k fl) s"
  shows "tampers k (output_of k fl) t (DidReconcile k' e) \<or> in_step (en_Client en) (label_of k) (output_of k fl) s'"
proof -
  have r: "enabled_of k' fl" "r_OutputCM r = output_of k' fl" "r_HashCache r"
    using started_active[OF runningD(1)[OF run] assms(2)] by simp_all
  have c: "failing_version (en_Client en) (r_Client (r\<lparr>r_Client := c\<rparr>))" using assms(3) by simp
  show ?thesis
  proof (cases "k' = k")
    case True
    note I = Reconcile_of_in_step[OF assms(5,4) c runningD(4)[OF run]]
    show ?thesis
    proof (rule disjCI)
      assume "\<not> in_step (en_Client en) (label_of k) (output_of k fl) s'"
      then have "\<not> (in_step (en_Client en) (label_of k) (output_of k fl) s \<and>
          (\<forall>q err. e = Returned q (Some err) \<longrightarrow> \<not> apply_error err))" "\<nexists>q. e = Returned q None"
        using I r True by auto
      with t True show "tampers k (output_of k fl) t (DidReconcile k' e)"
        by (cases e) (auto elim: option.exhaust split: option.splits)
    qed
  next
    case False
    then have ne: "output_of k fl \<noteq> r_OutputCM (r\<lparr>r_Client := c\<rparr>)" "label_of k \<noteq> label_of k'"
      using outputs_distinct_kinds[OF runningD(2,3)[OF run] r(1)] by (simp_all add: r(2) label_of_inj)
    note E = Reconcile_of_elsewhere[OF assms(5,4) c runningD(4)[OF run]]
    have "in_step (en_Client en) (label_of k) (output_of k fl) s' = in_step (en_Client en) (label_of k) (output_of k fl) s"
      using E(1)[OF ne(1)] E(2)[OF ne(2)] by (simp add: in_step_def)
    moreover have "tampers k (output_of k fl) t (DidReconcile k' e) = t"
      using False by (cases "(k, output_of k fl, t, DidReconcile k' e)" rule: tampers.cases) auto
    ultimately show ?thesis using t by simp
  qed
qed

lemma step_in_step:
  assumes run: "running en fl st k" and "op_step lib (en_Client en) st s a s'"
    and t: "t \<or> in_step (en_Client en) (label_of k) (output_of k fl) s"
  shows "tampers k (output_of k fl) t a \<or> in_step (en_Client en) (label_of k) (output_of k fl) s'"
  using assms(2)
proof cases
  case (step_loki r c sch e)
  show ?thesis
    using reconcile_step_tampers[OF run, of KindLoki r c sch lib s e s' t] step_loki t by simp
next
  case (step_mimir r c sch e)
  show ?thesis
    using reconcile_step_tampers[OF run, of KindMimir r c sch lib s e s' t] step_mimir t by simp
next
  case (step_loki_disabled d c req res)
  have "op_hashes s' = op_hashes s \<and> cl_GetConfigMap (en_Client en) n (op_cluster s') = cl_GetConfigMap (en_Client en) n (op_cluster s)" for n
    by (rule disabled_of_silent[of KindLoki "d\<lparr>d_Client := c\<rparr>" req s res]) (use step_loki_disabled runningD(4)[OF run] in simp_all)
  then show ?thesis using t step_loki_disabled(1) by (simp add: in_step_def)
next
  case (step_mimir_disabled d c req res)
  have "op_hashes s' = op_hashes s \<and> cl_GetConfigMap (en_Client en) n (op_cluster s') = cl_GetConfigMap (en_Client en) n (op_cluster s)" for n
    by (rule disabled_of_silent[of KindMimir "d\<lparr>d_Client := c\<rparr>" req s res]) (use step_mimir_disabled runningD(4)[OF run] in simp_all)
  then show ?thesis using t step_mimir_disabled(1) by (simp add: in_step_def)
next
  case (step_bootstrap b c err)
  show ?thesis
  proof (cases err)
    case None
    have "bootstrap_targets (lib_Encoder lib) (b\<lparr>b_Client := c\<rparr>) (enabled_targets fl) s = (None, s')"
      using step_bootstrap(2,4) runningD(1)[OF run] None by (auto simp: Start_def fully_started_def)
    from bootstrap_targets_in_step[OF _ runningD(4)[OF run] _ this enabled_targets_match(1)[OF runningD(2,3)[OF run]]]
    show ?thesis
      using enabled_targets_match(2)[OF runningD(2,3)[OF run]] step_bootstrap(2,3) runningD(1)[OF run]
      by (auto simp: fully_started_def)
  qed (simp add: step_bootstrap(1))
next
  case step_restart
  then show ?thesis by simp
next
  case (step_objects w)
  then show ?thesis using t by (auto simp: in_step_def)
next
  case (step_foreign n w)
  then show ?thesis using t by (auto simp: in_step_def)
qed

text \<open>In every state of a run, cache and config map are in step or the latter may have been written.\<close>

lemma run_in_step:
  assumes run: "running en fl st k" and "op_run lib (en_Client en) st acts s"
  shows "tampered k (output_of k fl) acts \<or> in_step (en_Client en) (label_of k) (output_of k fl) s"
proof -
  obtain s0 where "op_hashes s0 = NewHashCache" "op_steps lib (en_Client en) st s0 acts s"
    using assms(2) by (auto simp: op_run_def)
  from this(2,1) show ?thesis
  proof (induction rule: op_steps.induct)
    case (steps_snoc acts s a s')
    then show ?case using step_in_step[OF run steps_snoc.hyps(2)] by simp
  qed simp
qed

lemma in_step_silent:
  assumes "in_step c0 (label_of k) (r_OutputCM r) s" and "failing_version c0 c"
  shows "checkDrift_of k (r\<lparr>r_Client := c\<rparr>) s = (False, [])"
  using assms(1) flakyD(1)[OF failing_versionD(1)[OF assms(2), of KindLoki], of "r_OutputCM r" "op_cluster s"]
  by (auto simp: checkDrift_of_eq in_step_def split: option.split sum.split)

section \<open>Rest\<close>

text \<open>
  Nothing is left to do: the active targets are settled, and the objects of the others carry the
  condition that says so.
\<close>

definition at_rest :: "libs \<Rightarrow> 'w client \<Rightarrow> flags \<Rightarrow> ('w, 'l, 'm, 'q) startup \<Rightarrow> 'w \<Rightarrow> bool" where
  "at_rest lib c0 fl st w \<longleftrightarrow>
     (\<forall>k r. active_of k st r \<longrightarrow> settled (list_of k) lib r c0 w) \<and>
     (\<forall>k req cr. \<not> enabled_of k fl \<longrightarrow> get_of k c0 req w = Inr cr \<longrightarrow> marked_disabled (label_of k) cr)"

lemma at_restD:
  assumes "at_rest lib c0 fl st w"
  shows "active_of k st r \<Longrightarrow> settled (list_of k) lib r c0 w"
    and "\<not> enabled_of k fl \<Longrightarrow> get_of k c0 req w = Inr cr \<Longrightarrow> marked_disabled (label_of k) cr"
  using assms unfolding at_rest_def by blast+

text \<open>The steps of the operator itself.\<close>

fun own_action :: "op_action \<Rightarrow> bool" where
  "own_action ObjectsChanged = False"
| "own_action (ForeignWrite n) = False"
| "own_action _ = True"

lemma disabled_of_rest:
  assumes "disabled_Reconcile_of k d req s = (res, s')" and "failing_version c0 (d_Client d)"
    and "\<And>cr. get_of k c0 req (op_cluster s) = Inr cr \<Longrightarrow> marked_disabled (label_of k) cr"
  shows "op_cluster s' = op_cluster s"
proof (cases "get_of k (d_Client d) req (op_cluster s)")
  case (Inl err)
  then show ?thesis
    using assms(1) by (cases k) (auto simp: loki_disabled_Reconcile_def mimir_disabled_Reconcile_def)
next
  case (Inr cr)
  then have "get_of k c0 req (op_cluster s) = Inr cr"
    using failing_versionD(2)[OF assms(2), of k req "op_cluster s"] by auto
  then have "marked_disabled (label_of k) cr" by (rule assms(3))
  from disabled_of_marked[OF Inr this] show ?thesis using assms(1) by simp
qed

lemma settled_exists:
  "settled lst lib r c0 w \<Longrightarrow> \<exists>live. cl_GetConfigMap c0 (r_OutputCM r) w = Inr live"
  by (auto simp: settled_def)

lemma step_at_rest:
  assumes st: "fully_started en fl st" and rest: "at_rest lib (en_Client en) fl st (op_cluster s)"
    and "op_step lib (en_Client en) st s a s'" and "own_action a"
  shows "op_cluster s' = op_cluster s"
proof -
  have active: "op_cluster s' = op_cluster s"
    if "active_of k st r" "failing_version (en_Client en) c" "fair sch" "Reconcile_of k lib sch (r\<lparr>r_Client := c\<rparr>) s = (e, s')"
    for k r c sch e
    by (rule Reconcile_of_settled[OF that(4,3)]) (use that(2) at_restD(1)[OF rest that(1)] in \<open>simp_all add: settled_client\<close>)
  have disabled: "op_cluster s' = op_cluster s"
    if "\<not> enabled_of k fl" "failing_version (en_Client en) c" "disabled_Reconcile_of k (d\<lparr>d_Client := c\<rparr>) req s = (res, s')"
    for k c d req res
    by (rule disabled_of_rest[OF that(3)]) (use that(2) at_restD(2)[OF rest that(1)] in simp_all)
  from assms(3) show ?thesis
  proof cases
    case (step_loki r c sch e)
    then show ?thesis using active[of KindLoki r c sch e] by simp
  next
    case (step_mimir r c sch e)
    then show ?thesis using active[of KindMimir r c sch e] by simp
  next
    case (step_loki_disabled d c req res)
    have "\<not> fl_lokiEnabled fl" by (rule started_disabled(1)[OF st step_loki_disabled(2)])
    then show ?thesis using disabled[of KindLoki c d req res] step_loki_disabled by simp
  next
    case (step_mimir_disabled d c req res)
    have "\<not> fl_mimirEnabled fl" by (rule started_disabled(2)[OF st step_mimir_disabled(2)])
    then show ?thesis using disabled[of KindMimir c d req res] step_mimir_disabled by simp
  next
    case (step_bootstrap b c err)
    have b: "bootstrap_targets (lib_Encoder lib) (b\<lparr>b_Client := c\<rparr>) (enabled_targets fl) s = (err, s')"
      using step_bootstrap(2,4) st by (auto simp: Start_def fully_started_def)
    have "\<exists>live. cl_GetConfigMap (en_Client en) (output_of k fl) (op_cluster s) = Inr live" if k: "enabled_of k fl" for k
    proof -
      obtain r where r: "active_of k st r" "r_OutputCM r = output_of k fl"
        using started_controllers[OF st] k by (cases k) (auto simp: loki_controller_of_def mimir_controller_of_def)
      then show ?thesis using settled_exists[OF at_restD(1)[OF rest r(1)]] by simp
    qed
    from this[of KindLoki] this[of KindMimir]
    have "\<forall>t \<in> set (enabled_targets fl). \<exists>live. cl_GetConfigMap (en_Client en) (bt_OutputCM t) (op_cluster s) = Inr live"
      by (auto simp: enabled_targets_def)
    from bootstrap_targets_existing[OF _ b this] step_bootstrap(3) show ?thesis by simp
  qed (use assms(4) in auto)
qed

end
