(* ===== verification/Operator_Properties.thy ===== *)
theory Operator_Properties
  imports Samples Operator_Runs
begin

text \<open>
  The properties of the components around the merge: configuration, validators, the apply helper,
  the hash cache, statuses, peers, drift, bootstrap, the disabled-target reconcilers, the webhooks
  and the start-up. Each hypothesis is met by the concrete code and objects of \<open>Samples\<close>.
\<close>

section \<open>Apply\<close>

text \<open>C19. A successful \<open>apply.ConfigMap\<close> leaves a config map whose body has the reported hash, which is
  that of the desired body; it skips the write exactly when such a body was there before, and a
  skipped write changes nothing.\<close>

theorem apply_ConfigMap_correct:
  assumes "apply_visible c" and "apply_ConfigMap c name body w = (Inr res, w')"
  shows "holds_body c name body w' \<and> res_Hash res = Hash body \<and>
    (res_Skipped res \<longleftrightarrow> holds_body c name body w) \<and> (res_Skipped res \<longrightarrow> w' = w)"
  using apply_establishes[OF assms] apply_hash[OF assms(2)] apply_skipped[OF assms(2)]
    apply_noop[of c name body w] assms(2) by auto

theorem apply_ConfigMap_correct_witness:
  "\<exists>res w'. apply_ConfigMap mem_client sample_cm ''x'' sample_mem = (Inr res, w') \<and>
     holds_body mem_client sample_cm ''x'' w' \<and> \<not> res_Skipped res"
proof -
  obtain r w' where A: "apply_ConfigMap mem_client sample_cm ''x'' sample_mem = (r, w')" by fastforce
  then obtain res where r: "r = Inr res" using mem_apply_never_fails by (cases r) auto
  have "\<not> holds_body mem_client sample_cm ''x'' sample_mem"
    by (simp add: holds_body_def mem_client_def mem_GetConfigMap_def sample_mem_def)
  then show ?thesis
    using apply_ConfigMap_correct[OF mem_apply_visible A[unfolded r]] A r by blast
qed

section \<open>Validators\<close>

text \<open>C29. Loki's validator accepts an override exactly when every top-level key is declared by some path
  of inlined fields of the upstream type, and the upstream decoder and \<open>Validate\<close> accept it.\<close>

theorem lokiValidator_exact:
  "lokiValidator_Validate marshal pkg dflt raw = None \<longleftrightarrow>
     fst ` set raw \<subseteq> {k. declares (pkg_Type pkg) k} \<and>
     (\<exists>body limits. marshal raw = Inr body \<and> pkg_Decode pkg dflt body = Inr limits \<and>
        pkg_Validate pkg limits = None)"
proof -
  have "lokiKnownFields pkg = {k. declares (pkg_Type pkg) k}"
    using known_sound(1) known_complete by (auto simp: lokiKnownFields_def)
  then show ?thesis by (simp add: loki_accepts)
qed

section \<open>Statuses\<close>



definition sample_result :: apply_result where
  "sample_result = \<lparr>res_Hash = ''h'', res_Generation = 1, res_Skipped = False\<rparr>"

definition sample_envelope :: crEnvelope where
  "sample_envelope = spec_envelope sample_libs (v_Validate field_validator) cr_rate"


text \<open>C39. An object that carries a condition of another type beside the operator's two is updated by
  every reconcile: the gate compares the number of conditions.\<close>

theorem foreign_condition_defeats_gate:
  assumes "distinct (map cond_Type (st_Conditions old))"
    and "{ConditionValidated, ConditionApplied} \<subset> cond_Type ` set (st_Conditions old)"
    and "updated_status old (spec_status cm e valid res) s = (new, s')"
  shows "needsUpdate old (spec_status cm e valid res) \<and> needsUpdate new (spec_status cm e valid res)"
proof -
  have two: "length (st_Conditions (spec_status cm e valid res)) = 2"
    using arg_cong[OF spec_status_types[of cm e valid res], of length] by simp
  have big: "length cs \<noteq> 2" if "distinct (map cond_Type cs)"
      "{ConditionValidated, ConditionApplied} \<subset> cond_Type ` set cs" for cs
  proof -
    have "card {ConditionValidated, ConditionApplied} < card (cond_Type ` set cs)"
      by (rule psubset_card_mono[OF finite_imageI[OF finite_set] that(2)])
    moreover have "card (cond_Type ` set cs) = length cs"
      using distinct_card[OF that(1)] by simp
    ultimately show ?thesis by (simp add: vocabulary)
  qed
  obtain conds where ups: "op_upserts (st_Conditions old) (st_Conditions (spec_status cm e valid res)) s = (conds, s')"
      and new: "st_Conditions new = conds"
    using assms(3) by (auto simp: updated_status_def split: prod.splits)
  have "distinct (map cond_Type conds)" by (rule distinct_op_upserts[OF ups assms(1)])
  moreover have "{ConditionValidated, ConditionApplied} \<subset> cond_Type ` set conds"
    by (rule psubset_subset_trans[OF assms(2)]) (simp add: types_op_upserts[OF ups])
  ultimately have "length conds \<noteq> 2" by (rule big)
  then have "length (st_Conditions new) \<noteq> length (st_Conditions (spec_status cm e valid res))"
    unfolding new two .
  moreover have "length (st_Conditions old) \<noteq> length (st_Conditions (spec_status cm e valid res))"
    unfolding two by (rule big[OF assms(1,2)])
  ultimately show ?thesis by (intro conjI foreign_condition_needs_update)
qed

definition foreign_status :: TenantOverrideStatus where
  "foreign_status = no_status\<lparr>st_Conditions := [mk_condition ''Ready'' ''True'' ''r'' ''m'',
     mk_condition ConditionValidated ''True'' ''r'' ''m'', mk_condition ConditionApplied ''True'' ''r'' ''m'']\<rparr>"

theorem foreign_condition_defeats_gate_witness:
  "needsUpdate foreign_status (spec_status sample_cm sample_envelope [] sample_result)"
proof -
  have types: "map cond_Type (st_Conditions foreign_status) = [''Ready'', ConditionValidated, ConditionApplied]"
    by (simp add: foreign_status_def)
  have "''Ready'' \<in> cond_Type ` set (st_Conditions foreign_status)"
      "{ConditionValidated, ConditionApplied} \<subseteq> cond_Type ` set (st_Conditions foreign_status)"
    using arg_cong[OF types, of set] by simp_all
  moreover have "''Ready'' \<notin> {ConditionValidated, ConditionApplied}" by (simp add: vocabulary)
  ultimately have sub: "{ConditionValidated, ConditionApplied} \<subset> cond_Type ` set (st_Conditions foreign_status)"
    by blast
  have dis: "distinct (map cond_Type (st_Conditions foreign_status))"
    unfolding types by (simp add: vocabulary)
  obtain new s' where up: "updated_status foreign_status
      (spec_status sample_cm sample_envelope [] sample_result) sample_op = (new, s')" by fastforce
  from foreign_condition_defeats_gate[OF dis sub up] show ?thesis by (rule conjunct1)
qed

section \<open>Peers\<close>

text \<open>C34. The contributing peers are the other contributions of the tenant in the very order in which
  they are layered, whatever order they were listed in.\<close>

theorem computePeers_layered:
  assumes "mset all = mset all'"
  shows "computePeers self all = computePeers self all' \<and>
    computePeers self all = map peer_of
      (filter (\<lambda>c. override_id c \<noteq> override_id self) (SortGroup (filter (\<lambda>c. ov_TenantId c = ov_TenantId self) all)))"
  using computePeers_perm[OF assms, of self] computePeers_layers[of self all] by (simp add: layers_def)

theorem computePeers_layered_witness:
  "computePeers (ov ''a'' ''t'' 1 []) [ov ''a'' ''t'' 1 [], ov ''b'' ''t'' 2 []] =
   computePeers (ov ''a'' ''t'' 1 []) [ov ''b'' ''t'' 2 [], ov ''a'' ''t'' 1 []]"
  using computePeers_layered[of "[ov ''a'' ''t'' 1 [], ov ''b'' ''t'' 2 []]"
      "[ov ''b'' ''t'' 2 [], ov ''a'' ''t'' 1 []]" "ov ''a'' ''t'' 1 []"] by (simp add: ov_def)

section \<open>Drift\<close>

text \<open>C36. The label for a foreign writer is never empty and never longer than 64 bytes.\<close>

theorem extractConflictingFieldManager_bounded:
  "extractConflictingFieldManager cm ours \<noteq> [] \<and>
   length (extractConflictingFieldManager cm ours) \<le> 64"
  by (rule extract_bounds)

text \<open>C35. When a foreign writer has left a date the label is that of a writer with the latest date;
  otherwise it is that of the first undated foreign writer, or \<open>unknown\<close>.\<close>

theorem extractConflictingFieldManager_latest:
  "if \<exists>mf \<in> set (cm_ManagedFields cm). foreign ours mf \<and> writer_time mf \<noteq> None
   then \<exists>best \<in> set (cm_ManagedFields cm). foreign ours best \<and> writer_time best \<noteq> None \<and>
     extractConflictingFieldManager (Some cm) ours = writer_label best \<and>
     (\<forall>mf. mf \<in> set (cm_ManagedFields cm) \<and> foreign ours mf \<and> writer_time mf \<noteq> None \<longrightarrow>
        sint (the (writer_time mf)) \<le> sint (the (writer_time best)))
   else extractConflictingFieldManager (Some cm) ours =
     (case find (foreign ours) (cm_ManagedFields cm) of
        None \<Rightarrow> unknownFieldManager | Some mf \<Rightarrow> writer_label mf)"
proof (cases "\<exists>mf \<in> set (cm_ManagedFields cm). foreign ours mf \<and> writer_time mf \<noteq> None")
  case True
  let ?st = "foldl (drift_step ours) drift_start (cm_ManagedFields cm)"
  note sc = scanned_all[of ours "cm_ManagedFields cm", unfolded scanned_def]
  have has: "ds_bestHasTime ?st" using True sc by blast
  then obtain best where best: "best \<in> set (cm_ManagedFields cm)" "foreign ours best"
      "writer_time best = Some (ds_bestTime ?st)" "ds_bestName ?st = writer_label best"
    using sc by blast
  have "sint (the (writer_time mf)) \<le> sint (ds_bestTime ?st)"
    if "mf \<in> set (cm_ManagedFields cm) \<and> foreign ours mf \<and> writer_time mf \<noteq> None" for mf
    using that has sc by force
  moreover have "extractConflictingFieldManager (Some cm) ours = writer_label best"
    using has best(4) by (simp add: extractConflictingFieldManager_def drift_result_def)
  ultimately have "\<exists>best \<in> set (cm_ManagedFields cm). foreign ours best \<and> writer_time best \<noteq> None \<and>
     extractConflictingFieldManager (Some cm) ours = writer_label best \<and>
     (\<forall>mf. mf \<in> set (cm_ManagedFields cm) \<and> foreign ours mf \<and> writer_time mf \<noteq> None \<longrightarrow>
        sint (the (writer_time mf)) \<le> sint (the (writer_time best)))"
    using best(1,2,3) by (metis option.distinct(1) option.sel)
  then show ?thesis unfolding if_P[OF True] .
next
  case False
  have "extractConflictingFieldManager (Some cm) ours =
     (case find (foreign ours) (cm_ManagedFields cm) of
        None \<Rightarrow> unknownFieldManager | Some mf \<Rightarrow> writer_label mf)"
    by (rule extract_undated) (use False in blast)
  then show ?thesis unfolding if_not_P[OF False] .
qed

definition drifted_cm :: ConfigMap where
  "drifted_cm = \<lparr>cm_Namespace = ''monitoring'', cm_Name = ''loki-runtime-tenants'', cm_Labels = [],
     cm_Data = [], cm_Generation = 3, cm_ManagedFields =
       [\<lparr>mf_Manager = FieldManager, mf_Time = Some (unix_epoch + 9)\<rparr>,
        \<lparr>mf_Manager = ''kubectl-edit'', mf_Time = Some (unix_epoch + 5)\<rparr>,
        \<lparr>mf_Manager = ''helm'', mf_Time = None\<rparr>]\<rparr>"

theorem extractConflictingFieldManager_latest_witness:
  "extractConflictingFieldManager (Some drifted_cm) FieldManager = ''kubectl-edit''"
proof -
  have ed: "foreign FieldManager \<lparr>mf_Manager = ''kubectl-edit'', mf_Time = Some (unix_epoch + 5)\<rparr>"
      "writer_time \<lparr>mf_Manager = ''kubectl-edit'', mf_Time = Some (unix_epoch + 5)\<rparr> \<noteq> None"
      "writer_label \<lparr>mf_Manager = ''kubectl-edit'', mf_Time = Some (unix_epoch + 5)\<rparr> = ''kubectl-edit''"
    by (simp_all add: foreign_def FieldManager_def strings_TrimSpace_def is_space_def writer_time_def
        time_IsZero_def zero_time_def unix_epoch_def writer_label_def maxLen_def)
  have others: "\<not> foreign FieldManager \<lparr>mf_Manager = FieldManager, mf_Time = t\<rparr>"
      "writer_time \<lparr>mf_Manager = m, mf_Time = None\<rparr> = None" for t m
    by (simp_all add: foreign_def writer_time_def)
  have ex: "\<exists>mf \<in> set (cm_ManagedFields drifted_cm). foreign FieldManager mf \<and> writer_time mf \<noteq> None"
    using ed(1,2) by (simp add: drifted_cm_def)
  from extractConflictingFieldManager_latest[of drifted_cm FieldManager, unfolded if_P[OF ex]]
  obtain best where "best \<in> set (cm_ManagedFields drifted_cm)" "foreign FieldManager best"
      "writer_time best \<noteq> None" "extractConflictingFieldManager (Some drifted_cm) FieldManager = writer_label best"
    by blast
  then show ?thesis using others ed(3) by (auto simp: drifted_cm_def)
qed

section \<open>Bootstrap\<close>

text \<open>C30. \<open>Start\<close> never changes a config map that exists, whatever it holds, and whether or not it
  fails on the way.\<close>

theorem Start_keeps_existing:
  assumes "apply_local (b_Client b)" and "Start enc b s = (r, s')"
    and "cl_GetConfigMap (b_Client b) n (op_cluster s) = Inr live"
  shows "cl_GetConfigMap (b_Client b) n (op_cluster s') = Inr live"
  using bootstrap_targets_keep[OF assms(1) _ assms(3)] assms(2) by (simp add: Start_def)

definition sample_bootstrap :: "mem BootstrapRunnable" where
  "sample_bootstrap = \<lparr>b_Client = mem_client,
     b_Targets = [\<lparr>bt_Name = ''loki'', bt_OutputCM = sample_cm\<rparr>,
       \<lparr>bt_Name = ''mimir'', bt_OutputCM = NamespacedName ''monitoring'' ''mimir-runtime-tenants''\<rparr>],
     b_HashCache = True\<rparr>"

definition live_cm :: ConfigMap where
  "live_cm = \<lparr>cm_Namespace = ''monitoring'', cm_Name = ''loki-runtime-tenants'', cm_Labels = [],
     cm_Data = [], cm_Generation = 3, cm_ManagedFields = []\<rparr>"

definition live_mem :: mem where
  "live_mem = sample_mem\<lparr>mem_cms := [live_cm]\<rparr>"

theorem Start_keeps_existing_witness:
  "cl_GetConfigMap mem_client sample_cm (op_cluster (snd (Start sample_encoder sample_bootstrap (op_of live_mem))))
     = Inr live_cm"
  using Start_keeps_existing[of sample_bootstrap sample_encoder "op_of live_mem"
      "fst (Start sample_encoder sample_bootstrap (op_of live_mem))"
      "snd (Start sample_encoder sample_bootstrap (op_of live_mem))" sample_cm live_cm]
    mem_apply_local
  by (simp add: sample_bootstrap_def live_mem_def mem_client_def mem_GetConfigMap_def sample_cm_def
      live_cm_def cm_id_def)

lemma sample_Start: "\<exists>s'. Start sample_encoder sample_bootstrap s = (None, s')"
proof -
  have "\<exists>s'. bootstrap_target sample_encoder sample_bootstrap t s = (None, s')" for t s
  proof (cases "cl_GetConfigMap mem_client (bt_OutputCM t) (op_cluster s)")
    case (Inl err)
    then have "IsNotFound err"
      by (auto simp: mem_client_def mem_GetConfigMap_def not_found_def IsNotFound_def split: option.splits)
    obtain r w where A: "apply_ConfigMap mem_client (bt_OutputCM t)
        (show_any (canon (render_doc []))) (op_cluster s) = (r, w)" by fastforce
    then obtain res where "r = Inr res" using mem_apply_never_fails by (cases r) auto
    then show ?thesis
      using A Inl \<open>IsNotFound err\<close>
      by (simp add: bootstrap_target_def sample_bootstrap_def sample_Render)
  qed (simp add: bootstrap_target_def sample_bootstrap_def)
  then have "\<exists>s'. bootstrap_targets sample_encoder sample_bootstrap ts s = (None, s')" for ts
  proof (induction ts arbitrary: s)
    case (Cons t ts)
    obtain s1 where "bootstrap_target sample_encoder sample_bootstrap t s = (None, s1)"
      using Cons.prems by blast
    then show ?case using Cons.IH[OF Cons.prems, of s1] by simp
  qed simp
  then show ?thesis by (simp add: Start_def)
qed

section \<open>Disabled targets\<close>

text \<open>C31. The reconciler of a disabled target, of either kind, leaves an object alone that is marked
  already; what it writes otherwise is the object marked, with its name, spec and generation.\<close>

theorem disabled_marks_and_settles:
  assumes "get_of k (d_Client r) req (op_cluster s) = Inr cr"
    and "disabled_Reconcile_of k r req s = (res, s')"
  shows "(marked_disabled (label_of k) cr \<longrightarrow> res = (0, None) \<and> s' = s) \<and>
    (op_cluster s' = op_cluster s \<or>
     (\<exists>cr' err. marked_disabled (label_of k) cr' \<and> cr_id cr' = cr_id cr \<and> cr_Spec cr' = cr_Spec cr \<and>
        cr_Generation cr' = cr_Generation cr \<and>
        update_of k (d_Client r) cr' (op_cluster s) = (err, op_cluster s')))"
  using disabled_of_marked[OF assms(1)] disabled_of_writes[OF assms] assms(2) by auto

definition sample_disabled :: "mem disabled_struct" where
  "sample_disabled = \<lparr>d_Client = mem_client, d_Recorder = True\<rparr>"

definition marked_cr :: TenantOverride where
  "marked_cr = cr_rate\<lparr>cr_Status := no_status\<lparr>st_ObservedGeneration := 1,
     st_Conditions := [disabled_condition ''loki'']\<rparr>\<rparr>"

theorem disabled_marks_and_settles_witness:
  "loki_disabled_Reconcile sample_disabled (cr_id marked_cr) (op_of (sample_mem\<lparr>mem_loki := [marked_cr]\<rparr>)) =
     ((0, None), op_of (sample_mem\<lparr>mem_loki := [marked_cr]\<rparr>))"
proof -
  let ?s = "op_of (sample_mem\<lparr>mem_loki := [marked_cr]\<rparr>)"
  have got: "get_of KindLoki (d_Client sample_disabled) (cr_id marked_cr) (op_cluster ?s) = Inr marked_cr"
    by (simp add: sample_disabled_def mem_client_def get_cr_def)
  obtain res s' where R: "disabled_Reconcile_of KindLoki sample_disabled (cr_id marked_cr) ?s = (res, s')"
    by fastforce
  have "marked_disabled (label_of KindLoki) marked_cr"
    by (simp add: marked_disabled_def marked_cr_def lokiTargetLabel_def cr_rate_def sample_cr_def
        disabled_condition_def)
  with disabled_marks_and_settles[OF got R] R show ?thesis by simp
qed

section \<open>Webhooks\<close>

text \<open>C28. In the operator that \<open>main\<close> starts with webhooks on, every kind with an active reconciler has an
  admission webhook under its path, and that webhook accepts a created or updated object of the kind
  exactly when the reconciler admits the object's overrides to the merge; it rejects objects of the
  other kind.\<close>

theorem webhook_agrees_with_reconciler:
  assumes "su_started (snd (main en fl))" and "fl_enableWebhook fl" and "active_of k (snd (main en fl)) r"
  shows "\<exists>cv. map_of (su_webhooks (snd (main en fl))) (validate_path_of k) =
      Some (WithSourceCodeHeader (en_Admission en cv)) \<and>
    (\<forall>cr old s.
      (cv_Create cv (object_of k cr) = None \<longleftrightarrow> env_ValidErr (fst (envelope_of k (en_Libs en) r cr s)) = None) \<and>
      (cv_Update cv old (object_of k cr) = None \<longleftrightarrow> env_ValidErr (fst (envelope_of k (en_Libs en) r cr s)) = None)) \<and>
    (\<forall>k' cr old. k' \<noteq> k \<longrightarrow>
      cv_Create cv (object_of k' cr) \<noteq> None \<and> cv_Update cv old (object_of k' cr) \<noteq> None)"
  using started_webhook[OF conjunct2[OF main_started[OF assms(1)]] assms(2,3)]
  by (intro exI[of _ "custom_validator_of k (en_Libs en) (Some (r_Validator r))"])
    (simp add: custom_validator_of_simps admission_of_agrees admission_of_other envelope_of_spec)

text \<open>An admission handler that reads the object to create, and names the error in a header.\<close>

definition sample_admission :: "custom_validator \<Rightarrow> runtime_object http_handler" where
  "sample_admission cv req hdrs =
     (Done (), case cv_Create cv req of None \<Rightarrow> hdrs | Some err \<Rightarrow> gomap_put ''Denied'' [Error err] hdrs)"

definition environment_of :: "'w client \<Rightarrow> ('w, unit, unit, runtime_object) environment" where
  "environment_of c = \<lparr>en_NewManager = (\<lambda>o'. None), en_Client = c, en_Loki = sample_pkg,
     en_Mimir = sample_pkg, en_Marshal = sample_Marshal, en_Libs = sample_libs,
     en_Admission = sample_admission, en_Complete = (\<lambda>name. None), en_Add = None,
     en_AddHealthz = None, en_AddReadyz = None, en_Start = None, en_version = versionDev,
     en_BuildInfo = None\<rparr>"

lemma environment_client [simp]: "en_Client (environment_of c) = c"
  by (simp add: environment_of_def)

lemma environment_validator [simp]: "validator_for (environment_of c) TargetLoki = Some field_validator"
  by (simp add: validator_for_def New_def environment_of_def primed_def field_validator_def)

definition sample_environment :: "(mem, unit, unit, runtime_object) environment" where
  "sample_environment = environment_of mem_client"

lemma environment_starts:
  fixes c :: "'w client"
  assumes "Targets_Validate (targets_of fl) = None"
  shows "su_started (snd (main (environment_of c) fl))"
proof -
  have none: "exit_on None msg k = k" for msg and k :: "('w, unit, unit, runtime_object) step" by (rule ext) simp
  show ?thesis
    using assms
    by (simp add: main_def main_steps_def step_manager_def step_targets_def step_InitDefaults_def
        step_loki_eq step_mimir_eq step_bootstrap_def step_webhooks_def step_healthz_def
        step_readyz_def step_banner_def step_start_def environment_of_def none go_on_def)
qed

lemma default_flags_valid: "Targets_Validate (targets_of default_flags) = None"
  by (simp add: Targets_Validate_accepts target_ok_def targets_of_def default_flags_def)

lemma main_started_of: "su_started (snd (main (environment_of c) default_flags))"
  by (rule environment_starts[OF default_flags_valid])

definition webhook_flags :: flags where
  "webhook_flags = default_flags\<lparr>fl_enableWebhook := True\<rparr>"

lemma webhook_main_started: "su_started (snd (main sample_environment webhook_flags))"
  unfolding sample_environment_def
  by (rule environment_starts) (use default_flags_valid in \<open>simp add: webhook_flags_def targets_of_def\<close>)

theorem webhook_agrees_with_reconciler_witness:
  "\<exists>cv. map_of (su_webhooks (snd (main sample_environment webhook_flags))) LokiTenantOverrideValidatePath =
      Some (WithSourceCodeHeader (en_Admission sample_environment cv)) \<and>
    cv_Create cv (ObjLoki cr_rate) = None \<and> cv_Create cv (ObjLoki cr_bogus) \<noteq> None \<and>
    cv_Create cv (ObjMimir cr_rate) \<noteq> None"
proof -
  let ?r = "\<lparr>r_Client = mem_client, r_OutputCM = sample_cm, r_Validator = field_validator,
     r_Recorder = True, r_HashCache = True\<rparr>"
  have on: "fl_enableWebhook webhook_flags" by (simp add: webhook_flags_def)
  have active: "active_of KindLoki (snd (main sample_environment webhook_flags)) ?r"
    using started_controllers[OF conjunct2[OF main_started[OF webhook_main_started]]]
    by (simp add: loki_controller_of_def webhook_flags_def default_flags_def sample_environment_def sample_cm_def)
  have libs: "en_Libs sample_environment = sample_libs"
    by (simp add: sample_environment_def environment_of_def)
  obtain cv where cv: "map_of (su_webhooks (snd (main sample_environment webhook_flags))) LokiTenantOverrideValidatePath =
      Some (WithSourceCodeHeader (en_Admission sample_environment cv))"
    and own: "\<forall>cr. cv_Create cv (ObjLoki cr) = None \<longleftrightarrow>
        env_ValidErr (spec_envelope sample_libs (v_Validate field_validator) cr) = None"
    and other: "\<forall>k' cr. k' \<noteq> KindLoki \<longrightarrow> cv_Create cv (object_of k' cr) \<noteq> None"
    using webhook_agrees_with_reconciler[OF webhook_main_started on active] libs by (auto simp: loki_envelope_spec)
  have "cv_Create cv (object_of KindMimir cr_rate) \<noteq> None" using other by blast
  then show ?thesis using cv own sample_verdicts by (intro exI[of _ cv]) simp
qed

section \<open>Start-up\<close>

text \<open>C32. The process starts the manager only when the scheme knows every kind that the operator reads or
  writes and the configuration is valid. Then the defaults of both upstream packages are primed and
  exactly one reconciler per kind is registered: the active one, with the validator on these
  defaults, when the target is enabled, and the disabled-target one otherwise; bootstrap covers the
  enabled targets, webhooks only them, and only when asked for.\<close>

theorem main_starts_configured:
  assumes "adds_types sl" and "su_started (snd (program sl en fl))"
  shows "\<exists>sch. init_scheme sl = Done sch \<and> (\<forall>(gv, k) \<in> set operator_kinds. sl_Recognizes sl sch gv k) \<and>
    Targets_Validate (targets_of fl) = None \<and> fully_started (en sch) fl (snd (program sl en fl))"
  by (rule program_started[OF assms])

lemma sample_main_started: "su_started (snd (main sample_environment default_flags))"
  by (simp add: sample_environment_def main_started_of)

theorem main_starts_configured_witness:
  "fully_started sample_environment default_flags (snd (program list_scheme (\<lambda>sch. sample_environment) default_flags)) \<and>
   sl_Recognizes list_scheme operator_kinds GroupVersion ''MimirTenantOverrideList''"
proof -
  have started: "su_started (snd (program list_scheme (\<lambda>sch. sample_environment) default_flags))"
    by (simp add: program_def list_scheme_init sample_main_started)
  have "(GroupVersion, ''MimirTenantOverrideList'') \<in> set operator_kinds"
    by (simp add: operator_kinds_def own_kinds_def)
  then show ?thesis
    using main_starts_configured[OF list_scheme_adds started] unfolding list_scheme_init by auto
qed

end
