(* ===== verification/Liveness.thy ===== *)
theory Liveness
  imports Kinds Samples
begin

text \<open>
  What happens over several reconciles of one target: convergence in the presence of failures. The
  samples are a server that refuses to list, and the in-memory server of \<open>Samples\<close>, for which the
  promises of \<open>Convergence\<close> are proved here.
\<close>

section \<open>The in-memory server keeps its promises\<close>

lemma set_status_written:
  "set_status cr crs = Some crs' \<Longrightarrow> distinct_crs crs \<Longrightarrow> list_all2 (status_written cr) crs crs'"
proof (induction crs arbitrary: crs')
  case (Cons c crs)
  show ?case
  proof (cases "cr_id c = cr_id cr")
    case True
    then have "status_written cr x x" if x: "x \<in> set crs" for x
      using imageI[OF x, of cr_id] Cons.prems(2) by (auto simp: status_written_def distinct_crs_def)
    then have "list_all2 (status_written cr) crs crs" by (simp add: list_all2_same)
    moreover have "status_written cr c (c\<lparr>cr_Status := cr_Status cr\<rparr>)"
      using True by (simp add: status_written_def same_object_def)
    ultimately show ?thesis using True Cons.prems(1) by auto
  next
    case False
    then have "status_written cr c c" by (simp add: status_written_def)
    then show ?thesis using False Cons by (auto simp: distinct_crs_def)
  qed
qed simp

lemma set_status_listed: "cr \<in> set crs \<Longrightarrow> set_status (cr\<lparr>cr_Status := st\<rparr>) crs \<noteq> None"
  by (induction crs) (auto simp: cr_id_def)

lemma mem_settling: "settling_server k mem_client"
proof -
  have "status_visible (list_of k mem_client) (update_of k mem_client)"
    unfolding status_visible_def
    by (cases k) (auto simp: mem_client_def set_status_written split: option.splits)
  moreover have "status_accepted (list_of k mem_client) (update_of k mem_client)"
    unfolding status_accepted_def
    by (cases k) (auto simp: mem_client_def set_status_listed split: option.splits)
  moreover have "apply_accepted mem_client"
    by (auto simp: apply_accepted_def mem_client_def mem_GetConfigMap_def not_found_def IsNotFound_def
        split: option.splits)
  ultimately show ?thesis
    using mem_apply_visible mem_apply_local mem_status_local by (cases k) (simp_all add: settling_server_def)
qed

section \<open>Convergence\<close>


text \<open>A server that cannot list, for two attempts, and then works.\<close>

definition outage_client :: "mem client" where
  "outage_client = mem_client\<lparr>cl_ListLoki := (\<lambda>w. Inl (ErrMsg ''timeout'')),
     cl_UpdateLokiStatus := (\<lambda>cr w. (Some (ErrMsg ''timeout''), w))\<rparr>"

definition outage :: "nat \<Rightarrow> mem client" where
  "outage i = (if i < 2 then outage_client else mem_client)"

primrec outage_run :: "nat \<Rightarrow> mem op" where
  "outage_run 0 = sample_op"
| "outage_run (Suc i) = snd (loki_Reconcile sample_libs sample_schedule
     ((sample_target field_validator)\<lparr>r_Client := outage i\<rparr>) (outage_run i))"


end
