(* ===== verification/Round_Trip.thy ===== *)
theory Round_Trip
  imports Kinds Samples
begin

text \<open>
  Reading back what is published: the backends decode the text in the config map. The decoder is
  code outside the repository, related to the encoder by \<open>reads_back\<close>; the second half of the theory
  has a concrete encoder and decoder for which that is proved.
\<close>

section \<open>The decoder of the backends\<close>

text \<open>
  On the documents in \<open>D\<close>, a decoder inverts the encoder, up to the order in which maps are listed.
\<close>

definition reads_back :: "yaml_encoder \<Rightarrow> (string \<Rightarrow> any option) \<Rightarrow> (any \<Rightarrow> bool) \<Rightarrow> bool" where
  "reads_back enc dec D \<longleftrightarrow> (\<forall>v s. any_ok v \<longrightarrow> D v \<longrightarrow> SortedMarshal enc v = Inr s \<longrightarrow>
     (\<exists>v'. dec s = Some v' \<and> any_eqv v' v))"

section \<open>A printer and a parser\<close>

text \<open>
  A prefix notation: a tag, the number of characters or of components in unary, the components. A
  number is written bit by bit.
\<close>

definition unary :: "nat \<Rightarrow> string" where
  "unary n = replicate n (CHR ''1'') @ ''.''"

definition print_str :: "string \<Rightarrow> string" where
  "print_str s = unary (length s) @ s"

definition print_num :: "float64 \<Rightarrow> string" where
  "print_num w = map (\<lambda>i. if bit w i then CHR ''1'' else CHR ''0'') [0..<64]"

fun print_any :: "any \<Rightarrow> string" where
  "print_any Null = ''n''"
| "print_any (Bool b) = (if b then ''t'' else ''f'')"
| "print_any (Num w) = ''d'' @ print_num w"
| "print_any (Str s) = ''s'' @ print_str s"
| "print_any (Arr xs) = ''a'' @ unary (length xs) @ concat (map print_any xs)"
| "print_any (Obj m) = ''o'' @ unary (length m) @ concat (map (\<lambda>e. print_str (fst e) @ print_any (snd e)) m)"

fun parse_unary :: "string \<Rightarrow> (nat \<times> string) option" where
  "parse_unary [] = None"
| "parse_unary (c # s) =
     (if c = CHR ''1'' then map_option (\<lambda>(n, r). (Suc n, r)) (parse_unary s)
      else if c = CHR ''.'' then Some (0, s) else None)"

definition parse_str :: "string \<Rightarrow> (string \<times> string) option" where
  "parse_str s = (case parse_unary s of None \<Rightarrow> None
     | Some (n, r) \<Rightarrow> if length r < n then None else Some (take n r, drop n r))"

type_synonym 'a parser = "string \<Rightarrow> ('a \<times> string) option"

primrec parse_times :: "nat \<Rightarrow> 'a parser \<Rightarrow> 'a list parser" where
  "parse_times 0 p s = Some ([], s)"
| "parse_times (Suc n) p s =
     (case p s of None \<Rightarrow> None
      | Some (x, r) \<Rightarrow> map_option (\<lambda>(xs, r'). (x # xs, r')) (parse_times n p r))"

definition parse_entry :: "any parser \<Rightarrow> (string \<times> any) parser" where
  "parse_entry p s =
     (case parse_str s of None \<Rightarrow> None | Some (k, r) \<Rightarrow> map_option (\<lambda>(v, r'). ((k, v), r')) (p r))"

definition parse_num :: "float64 parser" where
  "parse_num s = (if length s < 64 then None
     else Some (horner_sum of_bool 2 (map (\<lambda>c. c = CHR ''1'') (take 64 s)), drop 64 s))"

primrec parse_any :: "nat \<Rightarrow> any parser" where
  "parse_any 0 = (\<lambda>s. None)"
| "parse_any (Suc n) = (\<lambda>s.
     (case s of
        [] \<Rightarrow> None
      | c # r \<Rightarrow>
          if c = CHR ''n'' then Some (Null, r)
          else if c = CHR ''t'' then Some (Bool True, r)
          else if c = CHR ''f'' then Some (Bool False, r)
          else if c = CHR ''d'' then map_option (\<lambda>(w, r'). (Num w, r')) (parse_num r)
          else if c = CHR ''s'' then map_option (\<lambda>(w, r'). (Str w, r')) (parse_str r)
          else if c = CHR ''a'' then
            (case parse_unary r of None \<Rightarrow> None
             | Some (l, r') \<Rightarrow> map_option (\<lambda>(xs, r''). (Arr xs, r'')) (parse_times l (parse_any n) r'))
          else if c = CHR ''o'' then
            (case parse_unary r of None \<Rightarrow> None
             | Some (l, r') \<Rightarrow> map_option (\<lambda>(m, r''). (Obj m, r'')) (parse_times l (parse_entry (parse_any n)) r'))
          else None))"

definition decode_any :: "string \<Rightarrow> any option" where
  "decode_any s = (case parse_any (Suc (length s)) s of Some (v, []) \<Rightarrow> Some v | _ \<Rightarrow> None)"

lemma parse_unary_back [simp]: "parse_unary (unary n @ s) = Some (n, s)"
  by (induction n) (simp_all add: unary_def)

lemma parse_str_back [simp]: "parse_str (print_str w @ s) = Some (w, s)"
  by (simp add: parse_str_def print_str_def)

lemma length_print_num: "length (print_num w) = 64"
  by (simp add: print_num_def)

lemma parse_num_back [simp]: "parse_num (print_num w @ s) = Some (w, s)"
proof -
  have "map (\<lambda>c. c = CHR ''1'') (print_num w) = map (bit w) [0..<64]"
    by (simp add: print_num_def)
  then show ?thesis
    using take_bit_length_eq[of w] by (simp add: parse_num_def length_print_num horner_sum_bit_eq_take_bit)
qed

lemma parse_times_back:
  assumes "\<And>x r. x \<in> set xs \<Longrightarrow> p (prt x @ r) = Some (x, r)"
  shows "parse_times (length xs) p (concat (map prt xs) @ s) = Some (xs, s)"
  using assms by (induction xs) simp_all

text \<open>The parser inverts the printer, with fuel for the length of the text.\<close>

lemma parse_any_back: "length (print_any v) < n \<Longrightarrow> parse_any n (print_any v @ s) = Some (v, s)"
proof (induction n arbitrary: v s)
  case (Suc n)
  show ?case
  proof (cases v)
    case (Arr xs)
    have "parse_any n (print_any x @ r) = Some (x, r)" if x: "x \<in> set xs" for x r
    proof (rule Suc.IH)
      have "length (print_any x) \<le> length (concat (map print_any xs))"
        using x by (induction xs) auto
      then show "length (print_any x) < n" using Suc.prems by (simp add: Arr)
    qed
    from parse_times_back[of xs "parse_any n" print_any s, OF this] show ?thesis by (simp add: Arr)
  next
    case (Obj m)
    let ?prt = "\<lambda>e. print_str (fst e) @ print_any (snd e)"
    have "parse_entry (parse_any n) (?prt e @ r) = Some (e, r)" if e: "e \<in> set m" for e r
    proof -
      have "length (print_any (snd e)) \<le> length (concat (map ?prt m))"
        using e by (induction m) auto
      then have "length (print_any (snd e)) < n" using Suc.prems by (simp add: Obj)
      from Suc.IH[OF this] show ?thesis by (simp add: parse_entry_def)
    qed
    from parse_times_back[of m "parse_entry (parse_any n)" ?prt s, OF this] show ?thesis by (simp add: Obj)
  qed simp_all
qed simp

lemma decode_print: "decode_any (print_any v) = Some v"
  using parse_any_back[of v "Suc (length (print_any v))" "[]"] by (simp add: decode_any_def)

text \<open>Printed in canonical form, equivalent values have the same text, and it reads back.\<close>

lemma canon_equivalent: "any_ok v \<Longrightarrow> any_eqv (canon v) v"
proof (induction v rule: canon.induct)
  case (1 m)
  have m: "map_ok m" using 1(2) by simp
  let ?c = "map (\<lambda>p. (fst p, canon (snd p))) m"
  have ok: "gomap_ok ?c" using map_okD(1)[OF m] by (simp add: gomap_ok_map_snd)
  have "map_of (sort_key fst ?c) = map_of ?c"
    by (rule map_of_perm[symmetric, OF _ ok]) simp
  then have look: "map_of (sort_key fst ?c) k = map_option canon (map_of m k)" for k
    by (simp add: map_of_map_snd)
  have "rel_option any_eqv (map_option canon (map_of m k)) (map_of m k)" for k
  proof (cases "map_of m k")
    case (Some v)
    show ?thesis
      using 1(1)[OF map_of_SomeD[OF Some]] map_okD(2)[OF m Some] by (simp add: Some)
  qed simp
  then show ?case by (simp add: look)
next
  case (2 xs)
  then show ?case by (auto simp: list_all2_conv_all_nth)
qed simp_all

definition canonical_encoder :: yaml_encoder where
  "canonical_encoder = \<lparr>enc_Encode = (\<lambda>n v. Inr (print_any (canon v))), enc_Close = (\<lambda>buf. Inr buf)\<rparr>"

lemma canonical_reads_back: "reads_back canonical_encoder decode_any (\<lambda>v. True)"
  using canon_equivalent decode_print
  by (auto simp: reads_back_def SortedMarshal_def canonical_encoder_def)

section \<open>The round trip\<close>

text \<open>C3. What is published reads back: after a reconcile that reports no error the config map holds a
  text that decodes to a document which, at the path of every field of every tenant, has exactly the
  leaf that the merge of the tenant's valid contributions has there, and nothing where there is
  none.\<close>

theorem published_document_reads_back:
  assumes "Reconcile_of k lib sch r s = (Returned q None, s')" and "fair sch"
    and "apply_visible (r_Client r)" and "status_local (update_of k (r_Client r)) (r_Client r)"
    and "decodes_maps lib" and "reads_back (lib_Encoder lib) dec D"
    and "list_of k (r_Client r) (op_cluster s) = Inr items"
    and "D (render_doc (spec_output (v_Validate (r_Validator r)) (spec_valid lib (v_Validate (r_Validator r)) items)))"
    and "\<And>body. spec_body lib (v_Validate (r_Validator r)) items = Inr body \<Longrightarrow>
      no_collision (r_Client r) (r_OutputCM r) body (op_cluster s)"
  shows "\<exists>live text doc. cl_GetConfigMap (r_Client r) (r_OutputCM r) (op_cluster s') = Inr live \<and>
    map_of (cm_Data live) DataKey = Some text \<and> dec text = Some doc \<and>
    (\<forall>t p. rel_option any_eqv (leaf_at (''overrides'' # t # p) doc)
       (case spec_tenant (v_Validate (r_Validator r)) (spec_valid lib (v_Validate (r_Validator r)) items) t of
          None \<Rightarrow> None | Some m \<Rightarrow> leaf_at p (Obj m)))"
proof -
  let ?v = "v_Validate (r_Validator r)"
  let ?out = "spec_output ?v (spec_valid lib ?v items)"
  obtain body live where body: "spec_body lib ?v items = Inr body"
      and live: "cl_GetConfigMap (r_Client r) (r_OutputCM r) (op_cluster s') = Inr live"
        "map_of (cm_Data live) DataKey = Some body"
    using Reconcile_of_exact[OF assms(1-4,7,9)] by (auto simp: holds_exactly_def)
  have "map_ok m" if "map_of ?out t = Some m" for t m
    by (rule spec_tenant_ok[of "spec_valid lib ?v items" ?v t])
      (use that unmarshal_ok[OF assms(5)] in \<open>auto simp: map_of_spec_output spec_valid_member override_of_def\<close>)
  then have "any_ok (render_doc ?out)" by (rule render_doc_ok[OF gomap_ok_spec_output])
  then obtain doc where doc: "dec body = Some doc" "any_eqv doc (render_doc ?out)"
    using assms(6,8) body unfolding reads_back_def spec_body_def Render_def by blast
  have "rel_option any_eqv (leaf_at (''overrides'' # t # p) doc)
      (case spec_tenant ?v (spec_valid lib ?v items) t of None \<Rightarrow> None | Some m \<Rightarrow> leaf_at p (Obj m))" for t p
    using leaf_at_eqv[OF doc(2), of "''overrides'' # t # p"]
    by (simp only: leaf_at_render_doc[OF gomap_ok_spec_output] map_of_spec_output)
  then show ?thesis using live doc(1) by blast
qed

definition codec_libs :: libs where
  "codec_libs = sample_libs\<lparr>lib_Encoder := canonical_encoder\<rparr>"

theorem published_document_reads_back_witness:
  "\<exists>q s' live text doc.
     loki_Reconcile codec_libs sample_schedule (sample_target field_validator) sample_op = (Returned q None, s') \<and>
     mem_GetConfigMap sample_cm (op_cluster s') = Inr live \<and> map_of (cm_Data live) DataKey = Some text \<and>
     decode_any text = Some doc \<and>
     leaf_at [''overrides'', ''t1'', ''rate''] doc = Some (Num 0x4020000000000000) \<and>
     leaf_at [''overrides'', ''t2'', ''bogus''] doc = None"
proof -
  let ?v = "v_Validate field_validator" and ?crs = "[cr_rate, cr_burst, cr_bogus]"
  have un: "unmarshalRawExtension codec_libs = unmarshalRawExtension sample_libs"
    by (intro ext) (simp add: unmarshalRawExtension_def codec_libs_def split: option.split)
  then have "spec_envelope codec_libs ?v = spec_envelope sample_libs ?v"
    by (intro ext) (simp add: spec_envelope_def)
  then have valid: "spec_valid codec_libs ?v ?crs = spec_valid sample_libs ?v ?crs"
    by (simp add: spec_valid_def)
  have dec: "decodes_maps codec_libs" using sample_decodes by (simp add: decodes_maps_def codec_libs_def)
  obtain body where body: "spec_body codec_libs ?v ?crs = Inr body"
    by (simp add: spec_body_def codec_libs_def Render_def SortedMarshal_def canonical_encoder_def)
  obtain e s' where R: "loki_Reconcile codec_libs sample_schedule (sample_target field_validator) sample_op = (e, s')"
    by fastforce
  from R sample_fair obtain q where e: "e = Returned q None"
    by (cases rule: loki.Reconcile_cases)
      (use sample_plain sample_list(1) mem_apply_never_fails body in \<open>auto simp: valid\<close>)
  have R': "Reconcile_of KindLoki codec_libs sample_schedule (sample_target field_validator) sample_op
      = (Returned q None, s')" using R e by simp
  have coll: "no_collision (r_Client (sample_target field_validator)) (r_OutputCM (sample_target field_validator)) b
      (op_cluster sample_op)" for b
    by (simp add: no_collision_def mem_client_def mem_GetConfigMap_def sample_mem_def)
  have laws: "apply_visible (r_Client (sample_target field_validator))"
      "status_local (update_of KindLoki (r_Client (sample_target field_validator))) (r_Client (sample_target field_validator))"
      "reads_back (lib_Encoder codec_libs) decode_any (\<lambda>v. True)"
      "list_of KindLoki (r_Client (sample_target field_validator)) (op_cluster sample_op) = Inr ?crs"
    using mem_apply_visible mem_status_local canonical_reads_back sample_list(1) by (simp_all add: codec_libs_def)
  from published_document_reads_back[OF R' sample_fair laws(1,2) dec laws(3,4) TrueI coll]
  obtain live body_text doc where D: "mem_GetConfigMap sample_cm (op_cluster s') = Inr live"
      "map_of (cm_Data live) DataKey = Some body_text" "decode_any body_text = Some doc"
    and L: "\<forall>t p. rel_option any_eqv (leaf_at (''overrides'' # t # p) doc)
      (case spec_tenant ?v (spec_valid sample_libs ?v ?crs) t of None \<Rightarrow> None | Some m \<Rightarrow> leaf_at p (Obj m))"
    by (auto simp: valid mem_client_def)
  have lay: "layers (spec_valid sample_libs ?v ?crs) ''t1'' = spec_valid sample_libs ?v ?crs"
      "layers (spec_valid sample_libs ?v ?crs) ''t2'' = []"
    by (simp_all add: sample_valid layers_def ov_def SortGroup_def SortStableFunc_def stable_sort_def compare_overrides_def)
  have "spec_tenant ?v (spec_valid sample_libs ?v ?crs) ''t1'' =
      Some [(''rate'', Num 0x4020000000000000), (''burst'', Num 0x4030000000000000)]"
    unfolding spec_tenant_def lay unfolding sample_valid
    by (simp add: merge_overrides_def ov_def field_verdict merge_into_Cons)
  moreover have "spec_tenant ?v (spec_valid sample_libs ?v ?crs) ''t2'' = None"
    by (simp add: spec_tenant_def lay)
  ultimately have "leaf_at [''overrides'', ''t1'', ''rate''] doc = Some (Num 0x4020000000000000)"
      "leaf_at [''overrides'', ''t2'', ''bogus''] doc = None"
    using L[rule_format, of "''t1''" "[''rate'']"] L[rule_format, of "''t2''" "[''bogus'']"]
    by (auto simp: option_rel_Some2 elim: any_eqv.cases)
  then show ?thesis using R e D by blast
qed

end
