(* ===== verification/Go_Memory.thy ===== *)
theory Go_Memory
  imports Prelude
begin

text \<open>
  Memory with cells of any type: allocation, assignment, and the relation that says which of the
  cells there were may have been written by a call. \<open>Merge_Heap\<close> keeps Go maps and slices in it,
  \<open>Object_Memory\<close> the parts of API objects.
\<close>

section \<open>Cells\<close>

type_synonym addr = nat

record 'c heap =
  hp_next :: addr
  hp_cells :: "addr \<rightharpoonup> 'c"

text \<open>\<open>make\<close> and \<open>new\<close>: the next free address gets a cell. An assignment overwrites the cell.\<close>

definition alloc :: "'c \<Rightarrow> 'c heap \<Rightarrow> addr \<times> 'c heap" where
  "alloc c h = (hp_next h, \<lparr>hp_next = Suc (hp_next h), hp_cells = (hp_cells h)(hp_next h \<mapsto> c)\<rparr>)"

definition store :: "addr \<Rightarrow> 'c \<Rightarrow> 'c heap \<Rightarrow> 'c heap" where
  "store a c h = h\<lparr>hp_cells := (hp_cells h)(a \<mapsto> c)\<rparr>"

lemma store_simps [simp]:
  "hp_next (store a c h) = hp_next h" "hp_cells (store a c h) a = Some c"
  "b \<noteq> a \<Longrightarrow> hp_cells (store a c h) b = hp_cells h b"
  by (simp_all add: store_def)

section \<open>What a call may change\<close>

text \<open>No cell lies beyond the next free address.\<close>

definition heap_ok :: "'c heap \<Rightarrow> bool" where
  "heap_ok h \<longleftrightarrow> (\<forall>a \<ge> hp_next h. hp_cells h a = None)"

text \<open>Of the cells there are, only those in \<open>A\<close> may have been written.\<close>

definition changes :: "addr set \<Rightarrow> 'c heap \<Rightarrow> 'c heap \<Rightarrow> bool" where
  "changes A h h' \<longleftrightarrow> heap_ok h' \<and> hp_next h \<le> hp_next h' \<and>
     (\<forall>a < hp_next h. a \<notin> A \<longrightarrow> hp_cells h' a = hp_cells h a)"

abbreviation fresh :: "'c heap \<Rightarrow> 'c heap \<Rightarrow> addr set" where
  "fresh h h' \<equiv> {hp_next h..<hp_next h'}"

lemma cell_below: "heap_ok h \<Longrightarrow> hp_cells h a = Some c \<Longrightarrow> a < hp_next h"
  by (force simp: heap_ok_def not_less[symmetric])

lemma changes_refl [simp]: "changes A h h \<longleftrightarrow> heap_ok h"
  by (auto simp: changes_def)

lemma changes_ok: "changes A h h' \<Longrightarrow> heap_ok h'"
  by (simp add: changes_def)

lemma changes_next: "changes A h h' \<Longrightarrow> hp_next h \<le> hp_next h'"
  by (simp add: changes_def)

lemma changes_trans:
  assumes "changes A h h'" and "changes B h' h''" and "B \<subseteq> A \<union> fresh h h'"
  shows "changes A h h''"
proof -
  have "a \<notin> B" if "a < hp_next h" "a \<notin> A" for a using assms(3) that by auto
  then show ?thesis using assms(1,2) unfolding changes_def by auto
qed

lemma fresh_trans:
  assumes "D' \<subseteq> D1 \<union> fresh h1 h'" and "D1 \<subseteq> D \<union> G" and "G \<subseteq> fresh h h1"
    and "hp_next h \<le> hp_next h1" and "hp_next h1 \<le> hp_next h'"
  shows "D' \<subseteq> D \<union> fresh h h'"
proof
  fix a
  assume "a \<in> D'"
  then consider "a \<in> D" | "a \<in> fresh h h1" | "a \<in> fresh h1 h'" using assms(1-3) by blast
  then show "a \<in> D \<union> fresh h h'" using assms(4,5) by cases auto
qed

lemma changes_mono: "changes A h h' \<Longrightarrow> A \<subseteq> B \<Longrightarrow> changes B h h'"
  unfolding changes_def by blast

lemma changes_cell:
  "changes A h h' \<Longrightarrow> heap_ok h \<Longrightarrow> hp_cells h a = Some c \<Longrightarrow> a \<notin> A \<Longrightarrow> hp_cells h' a = Some c"
  using cell_below by (metis changes_def)

lemma changes_alloc:
  "heap_ok h \<Longrightarrow> alloc c h = (a, h') \<Longrightarrow>
     changes {} h h' \<and> a = hp_next h \<and> hp_next h' = Suc a \<and> hp_cells h' a = Some c"
  by (auto simp: alloc_def changes_def heap_ok_def)

lemma changes_store: "heap_ok h \<Longrightarrow> a < hp_next h \<Longrightarrow> changes {a} h (store a c h)"
  by (auto simp: store_def changes_def heap_ok_def)

end
