(* ===== verification/Merge_Heap.thy ===== *)
theory Merge_Heap
  imports Tracking Go_Memory
begin

text \<open>
  \<open>DeepMerge\<close> and \<open>deepCopy\<close> of \<open>internal/merge/merge.go\<close> once more, now in memory: a Go map or slice
  is an address, and the code reads and writes the cell there. The relation \<open>rep\<close> says which value
  of \<open>Any_Values\<close> a reference stands for and which cells it owns. The theory shows that the code in
  memory computes the functions of \<open>Deep_Merge\<close>, that it writes no cell of the source, and that the
  result shares no cell with it, so that the destination can outlive the source as the comment on
  \<open>DeepMerge\<close> promises.

  The recursion of the code follows references, which need not end on a cyclic value; here it is
  bounded by fuel, and \<open>None\<close> is the value of a call that runs out of it (or that reads a cell that
  is not there, which cannot happen in Go). Fuel greater than the size of the value is enough.
\<close>

section \<open>Memory\<close>

datatype gval = GNull | GBool bool | GNum float64 | GStr string | GSlice addr | GMap addr

datatype cell = MapCell "gval gomap" | SliceCell "gval list"

type_synonym cells = "addr \<rightharpoonup> cell"

type_synonym any_heap = "cell heap"

text \<open>\<open>m[k] = v\<close> on the map at an address, and \<open>s[i] = v\<close> on the slice there.\<close>

definition map_assign :: "addr \<Rightarrow> string \<Rightarrow> gval \<Rightarrow> any_heap \<Rightarrow> any_heap option" where
  "map_assign a k v h =
     (case hp_cells h a of Some (MapCell m) \<Rightarrow> Some (store a (MapCell (gomap_put k v m)) h) | _ \<Rightarrow> None)"

definition slice_assign :: "addr \<Rightarrow> nat \<Rightarrow> gval \<Rightarrow> any_heap \<Rightarrow> any_heap option" where
  "slice_assign a i v h =
     (case hp_cells h a of
        Some (SliceCell xs) \<Rightarrow> if i < length xs then Some (store a (SliceCell (xs[i := v])) h) else None
      | _ \<Rightarrow> None)"

section \<open>The operations\<close>

text \<open>The loops of \<open>deepCopy\<close>, with the recursive call as a parameter.\<close>

type_synonym copier = "gval \<Rightarrow> any_heap \<Rightarrow> (gval \<times> any_heap) option"

primrec copy_entries :: "copier \<Rightarrow> addr \<Rightarrow> gval gomap \<Rightarrow> any_heap \<Rightarrow> any_heap option" where
  "copy_entries cp out [] h = Some h"
| "copy_entries cp out (e # x) h =
     (case cp (snd e) h of
        None \<Rightarrow> None
      | Some (c, h1) \<Rightarrow>
          (case map_assign out (fst e) c h1 of None \<Rightarrow> None | Some h2 \<Rightarrow> copy_entries cp out x h2))"

primrec copy_elems :: "copier \<Rightarrow> addr \<Rightarrow> nat \<Rightarrow> gval list \<Rightarrow> any_heap \<Rightarrow> any_heap option" where
  "copy_elems cp out i [] h = Some h"
| "copy_elems cp out i (vv # x) h =
     (case cp vv h of
        None \<Rightarrow> None
      | Some (c, h1) \<Rightarrow>
          (case slice_assign out i c h1 of None \<Rightarrow> None | Some h2 \<Rightarrow> copy_elems cp out (Suc i) x h2))"

primrec deepCopy_heap :: "nat \<Rightarrow> gval \<Rightarrow> any_heap \<Rightarrow> (gval \<times> any_heap) option" where
  "deepCopy_heap 0 = (\<lambda>v h. None)"
| "deepCopy_heap (Suc n) = (\<lambda>v h.
     (case v of
        GMap a \<Rightarrow>
          (case hp_cells h a of
             Some (MapCell x) \<Rightarrow>
               (let (out, h1) = alloc (MapCell []) h in
                map_option (Pair (GMap out)) (copy_entries (deepCopy_heap n) out x h1))
           | _ \<Rightarrow> None)
      | GSlice a \<Rightarrow>
          (case hp_cells h a of
             Some (SliceCell x) \<Rightarrow>
               (let (out, h1) = alloc (SliceCell (replicate (length x) GNull)) h in
                map_option (Pair (GSlice out)) (copy_elems (deepCopy_heap n) out 0 x h1))
           | _ \<Rightarrow> None)
      | _ \<Rightarrow> Some (v, h)))"

text \<open>
  \<open>DeepMerge\<close> on two addresses: it returns its first argument. The loop ranges over the entries
  the source has at its start, and reads the destination afresh for each of them.
\<close>

definition copy_to :: "copier \<Rightarrow> addr \<Rightarrow> string \<Rightarrow> gval \<Rightarrow> any_heap \<Rightarrow> any_heap option" where
  "copy_to cp dst k v h = (case cp v h of None \<Rightarrow> None | Some (c, h1) \<Rightarrow> map_assign dst k c h1)"

definition merge_one ::
  "copier \<Rightarrow> (addr \<Rightarrow> addr \<Rightarrow> any_heap \<Rightarrow> (addr \<times> any_heap) option) \<Rightarrow> addr \<Rightarrow> string \<Rightarrow> gval \<Rightarrow> any_heap \<Rightarrow> any_heap option" where
  "merge_one cp mg dst k v h =
     (case hp_cells h dst of
        Some (MapCell d) \<Rightarrow>
          (case map_of d k of
             None \<Rightarrow> copy_to cp dst k v h
           | Some existing \<Rightarrow>
               (case (existing, v) of
                  (GMap existingMap, GMap vMap) \<Rightarrow>
                    (case mg existingMap vMap h of
                       None \<Rightarrow> None | Some (r, h1) \<Rightarrow> map_assign dst k (GMap r) h1)
                | _ \<Rightarrow> copy_to cp dst k v h))
      | _ \<Rightarrow> None)"

primrec merge_loop ::
  "copier \<Rightarrow> (addr \<Rightarrow> addr \<Rightarrow> any_heap \<Rightarrow> (addr \<times> any_heap) option) \<Rightarrow> addr \<Rightarrow> gval gomap \<Rightarrow> any_heap \<Rightarrow> any_heap option" where
  "merge_loop cp mg dst [] h = Some h"
| "merge_loop cp mg dst (e # src) h =
     (case merge_one cp mg dst (fst e) (snd e) h of
        None \<Rightarrow> None | Some h1 \<Rightarrow> merge_loop cp mg dst src h1)"

primrec merge_heap :: "nat \<Rightarrow> addr \<Rightarrow> addr \<Rightarrow> any_heap \<Rightarrow> (addr \<times> any_heap) option" where
  "merge_heap 0 = (\<lambda>dst src h. None)"
| "merge_heap (Suc n) = (\<lambda>dst src h.
     (case hp_cells h src of
        Some (MapCell s) \<Rightarrow>
          map_option (Pair dst) (merge_loop (deepCopy_heap n) (merge_heap n) dst s h)
      | _ \<Rightarrow> None))"

definition DeepMerge_heap :: "nat \<Rightarrow> addr option \<Rightarrow> addr \<Rightarrow> any_heap \<Rightarrow> (addr \<times> any_heap) option" where
  "DeepMerge_heap n dst src h =
     (let (d, h1) = (case dst of None \<Rightarrow> alloc (MapCell []) h | Some d \<Rightarrow> (d, h)) in merge_heap n d src h1)"

section \<open>What a reference stands for\<close>

text \<open>
  \<open>rep h g F v\<close>: in the cells \<open>h\<close> the reference \<open>g\<close> stands for the value \<open>v\<close>, which owns exactly the
  cells \<open>F\<close>; no cell is reached twice.
\<close>

inductive rep :: "cells \<Rightarrow> gval \<Rightarrow> addr set \<Rightarrow> any \<Rightarrow> bool"
  and rep_elems :: "cells \<Rightarrow> gval list \<Rightarrow> addr set \<Rightarrow> any list \<Rightarrow> bool"
  and rep_entries :: "cells \<Rightarrow> gval gomap \<Rightarrow> addr set \<Rightarrow> anymap \<Rightarrow> bool"
  for h :: cells
where
  rep_Null: "rep h GNull {} Null"
| rep_Bool: "rep h (GBool b) {} (Bool b)"
| rep_Num: "rep h (GNum n) {} (Num n)"
| rep_Str: "rep h (GStr s) {} (Str s)"
| rep_Arr: "h a = Some (SliceCell gs) \<Longrightarrow> rep_elems h gs F vs \<Longrightarrow> a \<notin> F \<Longrightarrow> rep h (GSlice a) (insert a F) (Arr vs)"
| rep_Obj: "h a = Some (MapCell es) \<Longrightarrow> rep_entries h es F m \<Longrightarrow> a \<notin> F \<Longrightarrow> rep h (GMap a) (insert a F) (Obj m)"
| rep_elems_Nil: "rep_elems h [] {} []"
| rep_elems_Cons: "rep h g F v \<Longrightarrow> rep_elems h gs G vs \<Longrightarrow> F \<inter> G = {} \<Longrightarrow> rep_elems h (g # gs) (F \<union> G) (v # vs)"
| rep_entries_Nil: "rep_entries h [] {} []"
| rep_entries_Cons: "rep h g F v \<Longrightarrow> rep_entries h es G m \<Longrightarrow> F \<inter> G = {} \<Longrightarrow>
    rep_entries h ((k, g) # es) (F \<union> G) ((k, v) # m)"

inductive_cases rep_ObjE: "rep h g F (Obj m)"
inductive_cases rep_ArrE: "rep h g F (Arr vs)"
inductive_cases rep_GMapE: "rep h (GMap a) F v"

inductive_simps rep_scalars [simp]:
  "rep h g F Null" "rep h g F (Bool b)" "rep h g F (Num n)" "rep h g F (Str s)"
inductive_simps rep_elems_simps: "rep_elems h [] F vs" "rep_elems h (g # gs) F vs"
  "rep_elems h gs F []" "rep_elems h gs F (v # vs)"
inductive_simps rep_entries_simps: "rep_entries h [] F m" "rep_entries h (e # es) F m"
  "rep_entries h es F []" "rep_entries h es F (e # m)"

text \<open>Only the cells in the footprint matter.\<close>

lemma rep_frame_all:
  "rep h g F v \<Longrightarrow> (\<And>a. a \<in> F \<Longrightarrow> h' a = h a) \<Longrightarrow> rep h' g F v"
  "rep_elems h gs F vs \<Longrightarrow> (\<And>a. a \<in> F \<Longrightarrow> h' a = h a) \<Longrightarrow> rep_elems h' gs F vs"
  "rep_entries h es F m \<Longrightarrow> (\<And>a. a \<in> F \<Longrightarrow> h' a = h a) \<Longrightarrow> rep_entries h' es F m"
  by (induction rule: rep_rep_elems_rep_entries.inducts)
    (auto intro: rep_rep_elems_rep_entries.intros)

lemmas rep_frame = rep_frame_all(1) and rep_elems_frame = rep_frame_all(2)
  and rep_entries_frame = rep_frame_all(3)

lemma rep_allocated_all:
  "rep h g F v \<Longrightarrow> F \<subseteq> dom h"
  "rep_elems h gs F vs \<Longrightarrow> F \<subseteq> dom h"
  "rep_entries h es F m \<Longrightarrow> F \<subseteq> dom h"
  by (induction rule: rep_rep_elems_rep_entries.inducts) auto

lemma rep_entries_keys: "rep_entries h es F m \<Longrightarrow> map fst es = map fst m"
  by (induction es arbitrary: F m) (auto simp: rep_entries_simps)

lemma rep_entries_None: "rep_entries h es F m \<Longrightarrow> map_of es k = None \<longleftrightarrow> map_of m k = None"
  using rep_entries_keys[of h es F m] by (simp add: map_of_eq_None_iff) (metis list.set_map)

section \<open>Putting an entry in place\<close>

text \<open>A new or replaced entry with cells of its own.\<close>

lemma rep_entries_put:
  "rep_entries h es F m \<Longrightarrow> rep h g G v \<Longrightarrow> F \<inter> G = {} \<Longrightarrow>
     \<exists>F'. F' \<subseteq> F \<union> G \<and> rep_entries h (gomap_put k g es) F' (gomap_put k v m)"
proof (induction es arbitrary: F m)
  case Nil
  then show ?case
    by (intro exI[of _ G]) (auto simp: rep_entries_simps)
next
  case (Cons e es)
  obtain j u F1 F2 w m' where e: "e = (j, u)" "m = (j, w) # m'" "F = F1 \<union> F2" "F1 \<inter> F2 = {}"
    and u: "rep h u F1 w" and es: "rep_entries h es F2 m'"
    using Cons.prems(1) by (auto simp: rep_entries_simps)
  show ?case
  proof (cases "j = k")
    case True
    then show ?thesis
      using es Cons.prems(2,3) by (intro exI[of _ "G \<union> F2"]) (auto simp: e intro!: rep_entries_Cons)
  next
    case False
    obtain F' where "F' \<subseteq> F2 \<union> G" "rep_entries h (gomap_put k g es) F' (gomap_put k v m')"
      using Cons.IH[OF es Cons.prems(2)] Cons.prems(3) e by blast
    then show ?thesis
      using u False Cons.prems(3) e(4) by (intro exI[of _ "F1 \<union> F'"]) (auto simp: e(1-3) intro!: rep_entries_Cons)
  qed
qed

text \<open>
  An entry seen on its own: the rest does not mind what happens to its cells, and takes back
  another reference under the same key.
\<close>

lemma rep_entries_focus:
  "rep_entries h es F m \<Longrightarrow> map_of es k = Some g \<Longrightarrow>
     \<exists>F1 F2 v. map_of m k = Some v \<and> rep h g F1 v \<and> F1 \<union> F2 = F \<and> F1 \<inter> F2 = {} \<and>
       (\<forall>h' g' F' v'. (\<forall>a \<in> F2. h' a = h a) \<longrightarrow> rep h' g' F' v' \<longrightarrow> F' \<inter> F2 = {} \<longrightarrow>
          rep_entries h' (gomap_put k g' es) (F' \<union> F2) (gomap_put k v' m))"
proof (induction es arbitrary: F m)
  case (Cons e es)
  obtain j u G1 G2 w m' where e: "e = (j, u)" "m = (j, w) # m'" "F = G1 \<union> G2" "G1 \<inter> G2 = {}"
    and u: "rep h u G1 w" and es: "rep_entries h es G2 m'"
    using Cons.prems(1) by (auto simp: rep_entries_simps)
  show ?case
  proof (cases "j = k")
    case True
    have "rep_entries h' (gomap_put k g' (e # es)) (F' \<union> G2) (gomap_put k v' m)"
      if "\<forall>a \<in> G2. h' a = h a" "rep h' g' F' v'" "F' \<inter> G2 = {}" for h' g' F' v'
      using that True rep_entries_frame[OF es, of h'] by (simp add: e(1,2) rep_entries_Cons)
    then show ?thesis
      using u True Cons.prems(2) e(4) by (intro exI[of _ G1] exI[of _ G2] exI[of _ w]) (simp add: e(1-3))
  next
    case False
    then have g: "map_of es k = Some g" using Cons.prems(2) by (simp add: e(1))
    from Cons.IH[OF es g] obtain F1 F2 v where f: "map_of m' k = Some v" "rep h g F1 v" "F1 \<union> F2 = G2" "F1 \<inter> F2 = {}"
      and put: "\<And>h' g' F' v'. \<forall>a \<in> F2. h' a = h a \<Longrightarrow> rep h' g' F' v' \<Longrightarrow> F' \<inter> F2 = {} \<Longrightarrow>
        rep_entries h' (gomap_put k g' es) (F' \<union> F2) (gomap_put k v' m')"
      by blast
    have "rep_entries h' (gomap_put k g' (e # es)) (F' \<union> (G1 \<union> F2)) (gomap_put k v' m)"
      if same: "\<forall>a \<in> G1 \<union> F2. h' a = h a" and new: "rep h' g' F' v'" "F' \<inter> (G1 \<union> F2) = {}" for h' g' F' v'
    proof -
      have "rep_entries h' (gomap_put k g' es) (F' \<union> F2) (gomap_put k v' m')"
        by (rule put) (use same new in auto)
      moreover have "rep h' u G1 w" by (rule rep_frame[OF u]) (use same in simp)
      ultimately have "rep_entries h' ((j, u) # gomap_put k g' es) (G1 \<union> (F' \<union> F2)) ((j, w) # gomap_put k v' m')"
        using new(2) e(4) f(3) by (intro rep_entries_Cons) auto
      then show ?thesis using False by (simp add: e(1,2) Un_left_commute)
    qed
    moreover have "F1 \<union> (G1 \<union> F2) = F" "F1 \<inter> (G1 \<union> F2) = {}" using f(3,4) e(3,4) by auto
    ultimately show ?thesis
      using f(1,2) False by (intro exI[of _ F1] exI[of _ "G1 \<union> F2"] exI[of _ v]) (simp add: e(1,2))
  qed
qed simp

text \<open>An element of a slice that is filled from the front.\<close>

lemma rep_elems_snoc:
  "rep_elems h gs F vs \<Longrightarrow> rep h g G v \<Longrightarrow> F \<inter> G = {} \<Longrightarrow> rep_elems h (gs @ [g]) (F \<union> G) (vs @ [v])"
proof (induction gs arbitrary: F vs)
  case (Cons u gs)
  then obtain F1 F2 w vs' where "vs = w # vs'" "F = F1 \<union> F2" "F1 \<inter> F2 = {}" "rep h u F1 w" "rep_elems h gs F2 vs'"
    by (auto simp: rep_elems_simps)
  with Cons.IH[of F2 vs'] Cons.prems show ?case
    by (auto simp: Un_assoc intro!: rep_elems_Cons)
qed (auto simp: rep_elems_simps)

section \<open>Footprints and changes\<close>

lemma rep_below:
  assumes "heap_ok h"
  shows "rep (hp_cells h) g F v \<Longrightarrow> a \<in> F \<Longrightarrow> a < hp_next h"
    and "rep_elems (hp_cells h) gs F vs \<Longrightarrow> a \<in> F \<Longrightarrow> a < hp_next h"
    and "rep_entries (hp_cells h) es F m \<Longrightarrow> a \<in> F \<Longrightarrow> a < hp_next h"
proof -
  have "a < hp_next h" if "F \<subseteq> dom (hp_cells h)" "a \<in> F"
    using that assms by (force simp: heap_ok_def not_less[symmetric])
  then show "rep (hp_cells h) g F v \<Longrightarrow> a \<in> F \<Longrightarrow> a < hp_next h"
    and "rep_elems (hp_cells h) gs F vs \<Longrightarrow> a \<in> F \<Longrightarrow> a < hp_next h"
    and "rep_entries (hp_cells h) es F m \<Longrightarrow> a \<in> F \<Longrightarrow> a < hp_next h"
    by (auto dest: rep_allocated_all)
qed

lemma changes_rep:
  assumes "changes A h h'" and "heap_ok h" and "A \<inter> F = {}"
  shows "rep (hp_cells h) g F v \<Longrightarrow> rep (hp_cells h') g F v"
    and "rep_elems (hp_cells h) gs F vs \<Longrightarrow> rep_elems (hp_cells h') gs F vs"
    and "rep_entries (hp_cells h) es F m \<Longrightarrow> rep_entries (hp_cells h') es F m"
proof -
  have same: "hp_cells h' a = hp_cells h a" if "a \<in> F" "a < hp_next h" for a
    using assms(1,3) that unfolding changes_def by blast
  show "rep (hp_cells h) g F v \<Longrightarrow> rep (hp_cells h') g F v"
    by (rule rep_frame) (use same rep_below(1)[OF assms(2)] in auto)
  show "rep_elems (hp_cells h) gs F vs \<Longrightarrow> rep_elems (hp_cells h') gs F vs"
    by (rule rep_elems_frame) (use same rep_below(2)[OF assms(2)] in auto)
  show "rep_entries (hp_cells h) es F m \<Longrightarrow> rep_entries (hp_cells h') es F m"
    by (rule rep_entries_frame) (use same rep_below(3)[OF assms(2)] in auto)
qed

section \<open>The copy in memory\<close>

lemma size_entry: "(k, u) \<in> set m \<Longrightarrow> size u < size (Obj m)"
  by (induction m) auto

text \<open>What a call of \<open>deepCopy\<close> must do on references to the value \<open>v\<close>.\<close>

definition copies :: "copier \<Rightarrow> any \<Rightarrow> bool" where
  "copies cp v \<longleftrightarrow> (\<forall>h g F. heap_ok h \<longrightarrow> rep (hp_cells h) g F v \<longrightarrow>
     (\<exists>g' h' F'. cp g h = Some (g', h') \<and> changes {} h h' \<and> rep (hp_cells h') g' F' v \<and> F' \<subseteq> fresh h h'))"

lemma copies_toE:
  assumes "copies cp v" and "heap_ok h" and "rep (hp_cells h) g F v"
  obtains g' h' F' where "cp g h = Some (g', h')" and "changes {} h h'" and "rep (hp_cells h') g' F' v"
    and "F' \<subseteq> fresh h h'"
  using assms unfolding copies_def by blast

lemma copy_entries_rep:
  assumes "heap_ok h" and "hp_cells h out = Some (MapCell es')" and "rep_entries (hp_cells h) es' D done"
    and "out \<notin> D" and "rep_entries (hp_cells h) es F m" and "out \<notin> F"
    and "\<forall>(k, v) \<in> set m. copies cp v" and "gomap_ok (done @ m)"
  shows "\<exists>h' es'' D'. copy_entries cp out es h = Some h' \<and> changes {out} h h' \<and>
    hp_cells h' out = Some (MapCell es'') \<and> rep_entries (hp_cells h') es'' D' (done @ m) \<and>
    D' \<subseteq> D \<union> fresh h h'"
  using assms
proof (induction es arbitrary: h es' D "done" m F)
  case Nil
  then show ?case by (auto simp: rep_entries_simps)
next
  case (Cons e es)
  obtain k g F1 F2 v m' where e: "e = (k, g)" "m = (k, v) # m'" "F = F1 \<union> F2"
    and g: "rep (hp_cells h) g F1 v" and es: "rep_entries (hp_cells h) es F2 m'"
    using Cons.prems(5) by (auto simp: rep_entries_simps)
  have "copies cp v" using Cons.prems(7) by (simp add: e)
  from copies_toE[OF this Cons.prems(1) g] obtain g' h1 G where cp: "cp g h = Some (g', h1)"
    and h1: "changes {} h h1" and g': "rep (hp_cells h1) g' G v" and G: "G \<subseteq> fresh h h1" .
  have out: "hp_cells h1 out = Some (MapCell es')" "out < hp_next h" "out < hp_next h1"
    using changes_cell[OF h1 Cons.prems(1,2)] cell_below[OF Cons.prems(1,2)] h1 by (auto simp: changes_def)
  let ?h2 = "store out (MapCell (gomap_put k g' es')) h1"
  have h2: "changes {out} h1 ?h2" by (rule changes_store[OF changes_ok[OF h1] out(3)])
  have new: "map_of done k = None" using Cons.prems(8)
    by (auto simp: e gomap_ok_def map_of_eq_None_iff)
  have D1: "rep_entries (hp_cells h1) es' D done"
    by (rule changes_rep(3)[OF h1 Cons.prems(1)]) (use Cons.prems(3) in auto)
  have DG: "D \<inter> G = {}" using rep_below(3)[OF Cons.prems(1,3)] G by force
  obtain D1 where D1: "D1 \<subseteq> D \<union> G" "rep_entries (hp_cells h1) (gomap_put k g' es') D1 (done @ [(k, v)])"
    using rep_entries_put[OF D1 g' DG, of k] unfolding gomap_put_fresh[OF new] by blast
  have outG: "out \<notin> D1" using D1(1) Cons.prems(4) G out(2) by auto
  have D2: "rep_entries (hp_cells ?h2) (gomap_put k g' es') D1 (done @ [(k, v)])"
    by (rule changes_rep(3)[OF h2 changes_ok[OF h1] _ D1(2)]) (use outG in auto)
  have h02: "changes {out} h ?h2"
    by (rule changes_trans[OF changes_mono[OF h1] h2]) auto
  then have es2: "rep_entries (hp_cells ?h2) es F2 m'"
    by (rule changes_rep(3)[OF _ Cons.prems(1) _ es]) (use Cons.prems(6) e in auto)
  have "\<exists>h' es'' D'. copy_entries cp out es ?h2 = Some h' \<and> changes {out} ?h2 h' \<and>
      hp_cells h' out = Some (MapCell es'') \<and> rep_entries (hp_cells h') es'' D' ((done @ [(k, v)]) @ m') \<and>
      D' \<subseteq> D1 \<union> fresh ?h2 h'"
    by (rule Cons.IH[OF changes_ok[OF h2] _ D2 outG es2])
      (use Cons.prems(6,7,8) in \<open>simp_all add: e\<close>)
  then obtain h' es'' D' where step: "copy_entries cp out es ?h2 = Some h'" "changes {out} ?h2 h'"
      "hp_cells h' out = Some (MapCell es'')" "rep_entries (hp_cells h') es'' D' (done @ m)"
      "D' \<subseteq> D1 \<union> fresh h1 h'"
    unfolding e(2) by auto
  moreover have "changes {out} h h'"
    by (rule changes_trans[OF h02 step(2)]) simp
  moreover have "D' \<subseteq> D \<union> fresh h h'"
    by (rule fresh_trans[OF step(5) D1(1) G]) (use h1 step(2) in \<open>simp_all add: changes_def\<close>)
  ultimately show ?case
    using step(1,3,4) by (intro exI[of _ h'] exI[of _ es''] exI[of _ D']) (simp add: e(1) cp map_assign_def out)
qed

lemma copy_elems_rep:
  assumes "heap_ok h" and "hp_cells h out = Some (SliceCell (gs' @ replicate (length gs) GNull))"
    and "rep_elems (hp_cells h) gs' D done" and "out \<notin> D" and "rep_elems (hp_cells h) gs F vs" and "out \<notin> F"
    and "\<forall>v \<in> set vs. copies cp v"
  shows "\<exists>h' gs'' D'. copy_elems cp out (length gs') gs h = Some h' \<and> changes {out} h h' \<and>
    hp_cells h' out = Some (SliceCell gs'') \<and> rep_elems (hp_cells h') gs'' D' (done @ vs) \<and>
    D' \<subseteq> D \<union> fresh h h'"
  using assms
proof (induction gs arbitrary: h gs' D "done" vs F)
  case Nil
  then show ?case by (auto simp: rep_elems_simps)
next
  case (Cons g gs)
  obtain F1 F2 v vs' where e: "vs = v # vs'" "F = F1 \<union> F2"
    and g: "rep (hp_cells h) g F1 v" and gs: "rep_elems (hp_cells h) gs F2 vs'"
    using Cons.prems(5) by (auto simp: rep_elems_simps)
  have "copies cp v" using Cons.prems(7) by (simp add: e)
  from copies_toE[OF this Cons.prems(1) g] obtain g' h1 G where cp: "cp g h = Some (g', h1)"
    and h1: "changes {} h h1" and g': "rep (hp_cells h1) g' G v" and G: "G \<subseteq> fresh h h1" .
  have out: "hp_cells h1 out = Some (SliceCell (gs' @ replicate (length (g # gs)) GNull))"
      "out < hp_next h" "out < hp_next h1"
    using changes_cell[OF h1 Cons.prems(1,2)] cell_below[OF Cons.prems(1,2)] h1 by (auto simp: changes_def)
  let ?h2 = "store out (SliceCell ((gs' @ [g']) @ replicate (length gs) GNull)) h1"
  have h2: "changes {out} h1 ?h2" by (rule changes_store[OF changes_ok[OF h1] out(3)])
  have D1: "rep_elems (hp_cells h1) gs' D done"
    by (rule changes_rep(2)[OF h1 Cons.prems(1)]) (use Cons.prems(3) in auto)
  have DG: "D \<inter> G = {}" using rep_below(2)[OF Cons.prems(1,3)] G by force
  have outG: "out \<notin> D \<union> G" using Cons.prems(4) G out(2) by auto
  have D2: "rep_elems (hp_cells ?h2) (gs' @ [g']) (D \<union> G) (done @ [v])"
    by (rule changes_rep(2)[OF h2 changes_ok[OF h1] _ rep_elems_snoc[OF D1 g' DG]]) (use outG in auto)
  have h02: "changes {out} h ?h2"
    by (rule changes_trans[OF changes_mono[OF h1] h2]) auto
  then have gs2: "rep_elems (hp_cells ?h2) gs F2 vs'"
    by (rule changes_rep(2)[OF _ Cons.prems(1) _ gs]) (use Cons.prems(6) e in auto)
  have "\<exists>h' gs'' D'. copy_elems cp out (length (gs' @ [g'])) gs ?h2 = Some h' \<and> changes {out} ?h2 h' \<and>
      hp_cells h' out = Some (SliceCell gs'') \<and> rep_elems (hp_cells h') gs'' D' ((done @ [v]) @ vs') \<and>
      D' \<subseteq> (D \<union> G) \<union> fresh ?h2 h'"
    by (rule Cons.IH[OF changes_ok[OF h2] _ D2 outG gs2]) (use Cons.prems(6,7) in \<open>simp_all add: e\<close>)
  then obtain h' gs'' D' where step: "copy_elems cp out (Suc (length gs')) gs ?h2 = Some h'" "changes {out} ?h2 h'"
      "hp_cells h' out = Some (SliceCell gs'')" "rep_elems (hp_cells h') gs'' D' (done @ vs)"
      "D' \<subseteq> (D \<union> G) \<union> fresh h1 h'"
    unfolding e(1) by auto
  moreover have "changes {out} h h'"
    by (rule changes_trans[OF h02 step(2)]) simp
  moreover have "D' \<subseteq> D \<union> fresh h h'"
    by (rule fresh_trans[OF step(5) subset_refl G]) (use h1 step(2) in \<open>simp_all add: changes_def\<close>)
  moreover have "copy_elems cp out (length gs') (g # gs) h = Some h'"
    using step(1) by (simp add: cp slice_assign_def out list_update_append)
  ultimately show ?case by blast
qed

text \<open>The new cell of a copy, once it is filled.\<close>

lemma copy_filled:
  assumes "heap_ok h" and "alloc c h = (out, h1)" and "changes {out} h1 h'" and "D' \<subseteq> fresh h1 h'"
  shows "changes {} h h'" and "insert out D' \<subseteq> fresh h h'" and "out \<notin> D'"
proof -
  note A = changes_alloc[OF assms(1,2)]
  show "changes {} h h'"
    by (rule changes_trans[OF conjunct1[OF A] assms(3)]) (use A in auto)
  show "insert out D' \<subseteq> fresh h h'" "out \<notin> D'"
    using A assms(3,4) by (auto simp: changes_def)
qed

text \<open>Copying a reference gives a reference to the same value, in new cells, and changes no old one.\<close>

lemma deepCopy_heap_copies: "any_ok v \<Longrightarrow> size v < n \<Longrightarrow> copies (deepCopy_heap n) v"
proof (induction n arbitrary: v)
  case (Suc n)
  show ?case
    unfolding copies_def
  proof (intro allI impI)
    fix h g F
    assume h: "heap_ok h" and g: "rep (hp_cells h) g F v"
    from g show "\<exists>g' h' F'. deepCopy_heap (Suc n) g h = Some (g', h') \<and> changes {} h h' \<and>
        rep (hp_cells h') g' F' v \<and> F' \<subseteq> fresh h h'"
    proof (cases rule: rep.cases)
      case (rep_Arr a gs F0 vs)
      obtain out h1 where al: "alloc (SliceCell (replicate (length gs) GNull)) h = (out, h1)" by fastforce
      note A = changes_alloc[OF h al]
      have gs: "rep_elems (hp_cells h1) gs F0 vs"
        by (rule changes_rep(2)[OF conjunct1[OF A] h _ rep_Arr(5)]) simp
      have out: "out \<notin> F0" using rep_below(2)[OF h rep_Arr(5)] A by auto
      have sub: "\<forall>v \<in> set vs. copies (deepCopy_heap n) v"
      proof
        fix u
        assume u: "u \<in> set vs"
        then have "size u < size v" by (simp add: rep_Arr(3) size_list_estimation' less_Suc_eq_le)
        then show "copies (deepCopy_heap n) u" using Suc.IH[of u] Suc.prems u by (simp add: rep_Arr(3))
      qed
      have cell: "hp_cells h1 out = Some (SliceCell ([] @ replicate (length gs) GNull))"
        unfolding append_Nil using A by blast
      from copy_elems_rep[OF changes_ok[OF conjunct1[OF A]] cell rep_elems_Nil _ gs out sub]
      obtain h' gs'' D' where C: "copy_elems (deepCopy_heap n) out 0 gs h1 = Some h'" "changes {out} h1 h'"
          "hp_cells h' out = Some (SliceCell gs'')" "rep_elems (hp_cells h') gs'' D' vs" "D' \<subseteq> fresh h1 h'"
        by auto
      note fill = copy_filled[OF h al C(2,5)]
      have "rep (hp_cells h') (GSlice out) (insert out D') v"
        unfolding rep_Arr(3) by (rule rep_rep_elems_rep_entries.rep_Arr[OF C(3,4) fill(3)])
      then show ?thesis using fill(1,2) by (auto simp: rep_Arr(1,4) al C(1))
    next
      case (rep_Obj a es F0 m)
      obtain out h1 where al: "alloc (MapCell []) h = (out, h1)" by fastforce
      note A = changes_alloc[OF h al]
      have es: "rep_entries (hp_cells h1) es F0 m"
        by (rule changes_rep(3)[OF conjunct1[OF A] h _ rep_Obj(5)]) simp
      have out: "out \<notin> F0" using rep_below(3)[OF h rep_Obj(5)] A by auto
      have m: "map_ok m" using Suc.prems(1) by (simp add: rep_Obj(3))
      have sub: "\<forall>(k, v) \<in> set m. copies (deepCopy_heap n) v"
      proof (intro ballI, clarify)
        fix k u
        assume u: "(k, u) \<in> set m"
        then have "size u < size v" unfolding rep_Obj(3) by (rule size_entry)
        moreover have "any_ok u" using map_ok_memD[OF m u] by simp
        ultimately show "copies (deepCopy_heap n) u" using Suc.IH[of u] Suc.prems by simp
      qed
      have cell: "hp_cells h1 out = Some (MapCell [])" using A by blast
      from copy_entries_rep[OF changes_ok[OF conjunct1[OF A]] cell rep_entries_Nil _ es out sub]
      obtain h' es'' D' where C: "copy_entries (deepCopy_heap n) out es h1 = Some h'" "changes {out} h1 h'"
          "hp_cells h' out = Some (MapCell es'')" "rep_entries (hp_cells h') es'' D' m" "D' \<subseteq> fresh h1 h'"
        using m by (auto simp: map_ok_iff)
      note fill = copy_filled[OF h al C(2,5)]
      have "rep (hp_cells h') (GMap out) (insert out D') v"
        unfolding rep_Obj(3) by (rule rep_rep_elems_rep_entries.rep_Obj[OF C(3,4) fill(3)])
      then show ?thesis using fill(1,2) by (auto simp: rep_Obj(1,4) al C(1))
    qed (use h in simp_all)
  qed
qed simp

section \<open>The merge in memory\<close>

text \<open>What a call of \<open>DeepMerge\<close> must do when its source stands for \<open>s\<close> and shares no cell with
  its destination.\<close>

definition merges :: "(addr \<Rightarrow> addr \<Rightarrow> any_heap \<Rightarrow> (addr \<times> any_heap) option) \<Rightarrow> anymap \<Rightarrow> bool" where
  "merges mg s \<longleftrightarrow> (\<forall>h dst src F G d. heap_ok h \<longrightarrow> rep (hp_cells h) (GMap dst) F (Obj d) \<longrightarrow>
     rep (hp_cells h) (GMap src) G (Obj s) \<longrightarrow> F \<inter> G = {} \<longrightarrow>
     (\<exists>h' F'. mg dst src h = Some (dst, h') \<and> changes F h h' \<and>
        rep (hp_cells h') (GMap dst) F' (Obj (merge_into d s)) \<and> F' \<subseteq> F \<union> fresh h h'))"

lemma mergesE:
  assumes "merges mg s" and "heap_ok h" and "rep (hp_cells h) (GMap dst) F (Obj d)"
    and "rep (hp_cells h) (GMap src) G (Obj s)" and "F \<inter> G = {}"
  obtains h' F' where "mg dst src h = Some (dst, h')" and "changes F h h'"
    and "rep (hp_cells h') (GMap dst) F' (Obj (merge_into d s))" and "F' \<subseteq> F \<union> fresh h h'"
  using assms unfolding merges_def by blast

text \<open>A map whose entry under a key is replaced by a copy.\<close>

lemma copy_to_rep:
  assumes "heap_ok h" and "hp_cells h dst = Some (MapCell ed)" and "rep_entries (hp_cells h) ed F d"
    and "dst \<notin> F" and "rep (hp_cells h) g G v" and "copies cp v"
  shows "\<exists>h' F' ed'. copy_to cp dst k g h = Some h' \<and> changes {dst} h h' \<and>
    hp_cells h' dst = Some (MapCell ed') \<and> rep_entries (hp_cells h') ed' F' (gomap_put k v d) \<and>
    dst \<notin> F' \<and> F' \<subseteq> F \<union> fresh h h'"
proof -
  from copies_toE[OF assms(6,1,5)] obtain g' h1 N where cp: "cp g h = Some (g', h1)"
    and h1: "changes {} h h1" and g': "rep (hp_cells h1) g' N v" and N: "N \<subseteq> fresh h h1" .
  have dst: "hp_cells h1 dst = Some (MapCell ed)" "dst < hp_next h" "dst < hp_next h1"
    using changes_cell[OF h1 assms(1,2)] cell_below[OF assms(1,2)] h1 by (auto simp: changes_def)
  let ?h2 = "store dst (MapCell (gomap_put k g' ed)) h1"
  have h2: "changes {dst} h1 ?h2" by (rule changes_store[OF changes_ok[OF h1] dst(3)])
  have F: "rep_entries (hp_cells h1) ed F d"
    by (rule changes_rep(3)[OF h1 assms(1)]) (use assms(3) in auto)
  have FN: "F \<inter> N = {}" using rep_below(3)[OF assms(1,3)] N by force
  obtain F' where F': "F' \<subseteq> F \<union> N" "rep_entries (hp_cells h1) (gomap_put k g' ed) F' (gomap_put k v d)"
    using rep_entries_put[OF F g' FN, of k] by blast
  have dF: "dst \<notin> F'" using F'(1) assms(4) N dst(2) by auto
  have "rep_entries (hp_cells ?h2) (gomap_put k g' ed) F' (gomap_put k v d)"
    by (rule changes_rep(3)[OF h2 changes_ok[OF h1] _ F'(2)]) (use dF in auto)
  moreover have "changes {dst} h ?h2"
    by (rule changes_trans[OF changes_mono[OF h1] h2]) auto
  moreover have "copy_to cp dst k g h = Some ?h2"
    by (simp add: copy_to_def cp map_assign_def dst)
  moreover have "F' \<subseteq> F \<union> fresh h ?h2" using F'(1) N by auto
  ultimately show ?thesis using dF by fastforce
qed

text \<open>One round of the loop puts \<open>merge_entry\<close> in place.\<close>

lemma merge_one_rep:
  assumes "heap_ok h" and "hp_cells h dst = Some (MapCell ed)" and "rep_entries (hp_cells h) ed F d"
    and "dst \<notin> F" and "rep (hp_cells h) g G v" and "insert dst F \<inter> G = {}"
    and "copies cp v" and "\<And>s. v = Obj s \<Longrightarrow> merges mg s"
  shows "\<exists>h' F' ed'. merge_one cp mg dst k g h = Some h' \<and> changes (insert dst F) h h' \<and>
    hp_cells h' dst = Some (MapCell ed') \<and>
    rep_entries (hp_cells h') ed' F' (gomap_put k (merge_entry (map_of d k) v) d) \<and>
    dst \<notin> F' \<and> F' \<subseteq> F \<union> fresh h h'"
proof (cases "\<exists>e s. map_of ed k = Some (GMap e) \<and> g = GMap s")
  case False
  then have one: "merge_one cp mg dst k g h = copy_to cp dst k g h"
    by (auto simp: merge_one_def assms(2) split: option.split gval.split)
  have entry: "merge_entry (map_of d k) v = v"
  proof (rule ccontr)
    assume "merge_entry (map_of d k) v \<noteq> v"
    then obtain d' s where ds: "map_of d k = Some (Obj d')" "v = Obj s"
      by (auto simp: merge_entry_def split: option.splits any.splits)
    then obtain u where u: "map_of ed k = Some u" using rep_entries_None[OF assms(3), of k] by auto
    from rep_entries_focus[OF assms(3) u] obtain F1 w where "map_of d k = Some w" "rep (hp_cells h) u F1 w"
      by blast
    then have "\<exists>e. u = GMap e" using ds(1) by (auto elim: rep_ObjE)
    moreover have "\<exists>s. g = GMap s" using assms(5) ds(2) by (auto elim: rep_ObjE)
    ultimately show False using False u by auto
  qed
  obtain h' F' ed' where c: "copy_to cp dst k g h = Some h'" "changes {dst} h h'" "hp_cells h' dst = Some (MapCell ed')"
      "rep_entries (hp_cells h') ed' F' (gomap_put k v d)" "dst \<notin> F'" "F' \<subseteq> F \<union> fresh h h'"
    using copy_to_rep[OF assms(1-5,7), of k] by blast
  have "changes (insert dst F) h h'" by (rule changes_mono[OF c(2)]) simp
  with c show ?thesis unfolding one entry by blast
next
  case True
  then obtain e sa where u: "map_of ed k = Some (GMap e)" and g: "g = GMap sa" by blast
  obtain s where v: "v = Obj s" using assms(5) unfolding g by (auto elim: rep_GMapE)
  from rep_entries_focus[OF assms(3) u] obtain F1 F2 w where
    w: "map_of d k = Some w" "rep (hp_cells h) (GMap e) F1 w" "F1 \<union> F2 = F" "F1 \<inter> F2 = {}"
    and put: "\<And>h' g' F' v'. \<forall>a \<in> F2. h' a = hp_cells h a \<Longrightarrow> rep h' g' F' v' \<Longrightarrow> F' \<inter> F2 = {} \<Longrightarrow>
      rep_entries h' (gomap_put k g' ed) (F' \<union> F2) (gomap_put k v' d)"
    by blast
  obtain d' where d': "w = Obj d'" using w(2) by (auto elim: rep_GMapE)
  have "F1 \<inter> G = {}" using assms(6) w(3) by auto
  from mergesE[OF assms(8)[OF v] assms(1) w(2)[unfolded d'] assms(5)[unfolded g v] this]
  obtain h1 F' where mg: "mg e sa h = Some (e, h1)" and h1: "changes F1 h h1"
    and r: "rep (hp_cells h1) (GMap e) F' (Obj (merge_into d' s))" and F': "F' \<subseteq> F1 \<union> fresh h h1" .
  have dF1: "dst \<notin> F1" using assms(4) w(3) by auto
  have dst: "hp_cells h1 dst = Some (MapCell ed)" "dst < hp_next h" "dst < hp_next h1"
    using changes_cell[OF h1 assms(1,2) dF1] cell_below[OF assms(1,2)] h1 by (auto simp: changes_def)
  let ?h2 = "store dst (MapCell (gomap_put k (GMap e) ed)) h1"
  have h2: "changes {dst} h1 ?h2" by (rule changes_store[OF changes_ok[OF h1] dst(3)])
  have below: "a < hp_next h" if "a \<in> F" for a using rep_below(3)[OF assms(1,3)] that .
  have dF: "dst \<notin> F' \<union> F2" using F' assms(4) w(3) dst(2) by auto
  have "F' \<inter> F2 = {}" using F' w(3,4) below by fastforce
  moreover have "hp_cells h1 a = hp_cells h a" if "a \<in> F2" for a
    using h1 that w(3,4) below by (auto simp: changes_def)
  ultimately have "rep_entries (hp_cells h1) (gomap_put k (GMap e) ed) (F' \<union> F2)
      (gomap_put k (Obj (merge_into d' s)) d)"
    by (intro put r) auto
  then have "rep_entries (hp_cells ?h2) (gomap_put k (GMap e) ed) (F' \<union> F2)
      (gomap_put k (Obj (merge_into d' s)) d)"
    by (rule changes_rep(3)[OF h2 changes_ok[OF h1], rotated]) (use dF in auto)
  moreover have "changes (insert dst F) h ?h2"
    by (rule changes_trans[OF changes_mono[OF h1] h2]) (use w(3) in auto)
  moreover have "merge_one cp mg dst k g h = Some ?h2"
    by (simp add: merge_one_def assms(2) u g mg map_assign_def dst)
  moreover have "F' \<union> F2 \<subseteq> F \<union> fresh h ?h2" using F' w(3) by auto
  ultimately show ?thesis using dF by (fastforce simp: w(1) d' v)
qed

lemma merge_loop_rep:
  assumes "heap_ok h" and "hp_cells h dst = Some (MapCell ed)" and "rep_entries (hp_cells h) ed F d"
    and "dst \<notin> F" and "rep_entries (hp_cells h) es G s" and "insert dst F \<inter> G = {}" and "map_ok s"
    and "\<forall>e \<in> set s. copies cp (snd e) \<and> (\<forall>m. snd e = Obj m \<longrightarrow> merges mg m)"
  shows "\<exists>h' F' ed'. merge_loop cp mg dst es h = Some h' \<and> changes (insert dst F) h h' \<and>
    hp_cells h' dst = Some (MapCell ed') \<and> rep_entries (hp_cells h') ed' F' (merge_into d s) \<and>
    dst \<notin> F' \<and> F' \<subseteq> F \<union> fresh h h'"
  using assms
proof (induction es arbitrary: h ed F d s G)
  case Nil
  then show ?case by (auto simp: rep_entries_simps)
next
  case (Cons e es)
  obtain k g G1 G2 v s' where e: "e = (k, g)" "s = (k, v) # s'" "G = G1 \<union> G2"
    and g: "rep (hp_cells h) g G1 v" and es: "rep_entries (hp_cells h) es G2 s'"
    using Cons.prems(5) by (auto simp: rep_entries_simps)
  have v: "any_ok v" and s': "map_ok s'" using Cons.prems(7) by (simp_all add: e)
  have sub: "copies cp v" "\<And>m. v = Obj m \<Longrightarrow> merges mg m" using Cons.prems(8) by (simp_all add: e)
  have G1: "insert dst F \<inter> G1 = {}" and G2: "insert dst F \<inter> G2 = {}" using Cons.prems(6) e(3) by auto
  obtain h1 F1 ed1 where one: "merge_one cp mg dst k g h = Some h1" "changes (insert dst F) h h1"
      "hp_cells h1 dst = Some (MapCell ed1)"
      "rep_entries (hp_cells h1) ed1 F1 (gomap_put k (merge_entry (map_of d k) v) d)" "dst \<notin> F1"
      "F1 \<subseteq> F \<union> fresh h h1"
    using merge_one_rep[OF Cons.prems(1-4) g G1 sub] by blast
  have es1: "rep_entries (hp_cells h1) es G2 s'"
    by (rule changes_rep(3)[OF one(2) Cons.prems(1) G2 es])
  have "a < hp_next h" if "a \<in> G2" for a using rep_below(3)[OF Cons.prems(1) es that] .
  then have sep: "insert dst F1 \<inter> G2 = {}" using one(6) G2 by fastforce
  have rest: "\<forall>e \<in> set s'. copies cp (snd e) \<and> (\<forall>m. snd e = Obj m \<longrightarrow> merges mg m)"
    using Cons.prems(8) by (simp add: e)
  obtain h' F' ed' where step: "merge_loop cp mg dst es h1 = Some h'" "changes (insert dst F1) h1 h'"
      "hp_cells h' dst = Some (MapCell ed')"
      "rep_entries (hp_cells h') ed' F' (merge_into (gomap_put k (merge_entry (map_of d k) v) d) s')"
      "dst \<notin> F'" "F' \<subseteq> F1 \<union> fresh h1 h'"
    using Cons.IH[OF changes_ok[OF one(2)] one(3,4,5) es1 sep s' rest] by blast
  have "changes (insert dst F) h h'"
    by (rule changes_trans[OF one(2) step(2)]) (use one(6) in auto)
  moreover have "F' \<subseteq> F \<union> fresh h h'"
    by (rule fresh_trans[OF step(6) one(6) subset_refl]) (use one(2) step(2) in \<open>simp_all add: changes_def\<close>)
  moreover have "merge_loop cp mg dst (e # es) h = Some h'" by (simp add: e(1) one(1) step(1))
  moreover have "merge_into d s = merge_into (gomap_put k (merge_entry (map_of d k) v) d) s'"
    by (simp add: e(2) merge_into_Cons[OF v])
  ultimately show ?case using step(3,4,5) by auto
qed

text \<open>\<open>DeepMerge\<close> in memory computes \<open>merge_into\<close>, with fuel greater than the size of the source.\<close>

lemma merge_heap_merges: "map_ok s \<Longrightarrow> size (Obj s) < n \<Longrightarrow> merges (merge_heap n) s"
proof (induction n arbitrary: s)
  case (Suc n)
  show ?case
    unfolding merges_def
  proof (intro allI impI)
    fix h dst src F G d
    assume h: "heap_ok h" and d: "rep (hp_cells h) (GMap dst) F (Obj d)"
      and s: "rep (hp_cells h) (GMap src) G (Obj s)" and FG: "F \<inter> G = {}"
    obtain ed F0 where D: "hp_cells h dst = Some (MapCell ed)" "rep_entries (hp_cells h) ed F0 d" "dst \<notin> F0"
        "F = insert dst F0"
      using d by (auto elim: rep_ObjE)
    obtain es G0 where S: "hp_cells h src = Some (MapCell es)" "rep_entries (hp_cells h) es G0 s"
        "G = insert src G0"
      using s by (auto elim: rep_ObjE)
    have sub: "\<forall>e \<in> set s. copies (deepCopy_heap n) (snd e) \<and> (\<forall>m. snd e = Obj m \<longrightarrow> merges (merge_heap n) m)"
    proof
      fix e
      assume e: "e \<in> set s"
      have "any_ok (snd e)" by (rule map_ok_memD[OF Suc.prems(1) e])
      moreover have "size (snd e) < n" using size_entry[of "fst e" "snd e" s] e Suc.prems(2) by simp
      ultimately show "copies (deepCopy_heap n) (snd e) \<and> (\<forall>m. snd e = Obj m \<longrightarrow> merges (merge_heap n) m)"
        using deepCopy_heap_copies Suc.IH by auto
    qed
    have sep: "insert dst F0 \<inter> G0 = {}" using FG by (auto simp: D S)
    obtain h' F' ed' where L: "merge_loop (deepCopy_heap n) (merge_heap n) dst es h = Some h'"
        "changes (insert dst F0) h h'" "hp_cells h' dst = Some (MapCell ed')"
        "rep_entries (hp_cells h') ed' F' (merge_into d s)" "dst \<notin> F'" "F' \<subseteq> F0 \<union> fresh h h'"
      using merge_loop_rep[OF h D(1-3) S(2) sep Suc.prems(1) sub] by blast
    have "rep (hp_cells h') (GMap dst) (insert dst F') (Obj (merge_into d s))"
      by (rule rep_Obj[OF L(3-5)])
    then show "\<exists>h' F'. merge_heap (Suc n) dst src h = Some (dst, h') \<and> changes F h h' \<and>
        rep (hp_cells h') (GMap dst) F' (Obj (merge_into d s)) \<and> F' \<subseteq> F \<union> fresh h h'"
      using L(1,2,6) by (intro exI[of _ h'] exI[of _ "insert dst F'"]) (auto simp: S(1) D(4))
  qed
qed simp

section \<open>The merge of a tenant's contributions in memory\<close>

text \<open>
  What \<open>TrackingMerge\<close> does with \<open>merged\<close>: a new map, into which the overrides of one contribution
  after the other are merged.
\<close>

primrec merge_rounds :: "nat \<Rightarrow> addr \<Rightarrow> addr list \<Rightarrow> any_heap \<Rightarrow> (addr \<times> any_heap) option" where
  "merge_rounds n merged [] h = Some (merged, h)"
| "merge_rounds n merged (src # srcs) h =
     (case DeepMerge_heap n (Some merged) src h of
        None \<Rightarrow> None | Some (merged', h1) \<Rightarrow> merge_rounds n merged' srcs h1)"

definition merged_heap :: "nat \<Rightarrow> addr list \<Rightarrow> any_heap \<Rightarrow> (addr \<times> any_heap) option" where
  "merged_heap n srcs h = (let (merged, h1) = alloc (MapCell []) h in merge_rounds n merged srcs h1)"

text \<open>The contributions: an address, the cells it owns, and the map it stands for.\<close>

definition sources_ok :: "nat \<Rightarrow> any_heap \<Rightarrow> addr set \<Rightarrow> (addr \<times> addr set \<times> anymap) list \<Rightarrow> bool" where
  "sources_ok n h F cs \<longleftrightarrow> (\<forall>(a, G, s) \<in> set cs.
     rep (hp_cells h) (GMap a) G (Obj s) \<and> map_ok s \<and> size (Obj s) < n \<and> F \<inter> G = {})"

lemma sources_ok_changes:
  assumes "sources_ok n h F cs" and "changes F h h'" and "heap_ok h" and "F' \<subseteq> F \<union> fresh h h'"
  shows "sources_ok n h' F' cs"
proof -
  have "rep (hp_cells h') (GMap a) G (Obj s) \<and> F' \<inter> G = {}"
    if r: "rep (hp_cells h) (GMap a) G (Obj s)" "F \<inter> G = {}" for a G s
  proof -
    have "b < hp_next h" if "b \<in> G" for b using rep_below(1)[OF assms(3) r(1) that] .
    then show ?thesis using changes_rep(1)[OF assms(2,3) r(2) r(1)] assms(4) r(2) by fastforce
  qed
  then show ?thesis using assms(1) unfolding sources_ok_def by blast
qed

lemma merge_rounds_rep:
  assumes "heap_ok h" and "rep (hp_cells h) (GMap dst) F (Obj d)" and "sources_ok n h F (cs @ cs')"
  shows "\<exists>h' F'. merge_rounds n dst (map fst cs) h = Some (dst, h') \<and> changes F h h' \<and>
    rep (hp_cells h') (GMap dst) F' (Obj (foldl merge_into d (map (\<lambda>c. snd (snd c)) cs))) \<and>
    F' \<subseteq> F \<union> fresh h h' \<and> sources_ok n h' F' (cs @ cs')"
  using assms
proof (induction cs arbitrary: h F d cs')
  case (Cons c cs)
  obtain a G s where c: "c = (a, G, s)" by (cases c)
  have src: "rep (hp_cells h) (GMap a) G (Obj s)" "map_ok s" "size (Obj s) < n" "F \<inter> G = {}"
    using Cons.prems(3) by (auto simp: c sources_ok_def)
  obtain h1 F1 where m: "merge_heap n dst a h = Some (dst, h1)" "changes F h h1"
      "rep (hp_cells h1) (GMap dst) F1 (Obj (merge_into d s))" "F1 \<subseteq> F \<union> fresh h h1"
    by (rule mergesE[OF merge_heap_merges[OF src(2,3)] Cons.prems(1,2) src(1,4)])
  have "sources_ok n h1 F1 (c # cs @ cs')"
    using sources_ok_changes[OF Cons.prems(3) m(2) Cons.prems(1) m(4)] by simp
  then have "sources_ok n h1 F1 (cs @ c # cs')" by (auto simp: sources_ok_def)
  from Cons.IH[OF changes_ok[OF m(2)] m(3) this] obtain h' F' where
    step: "merge_rounds n dst (map fst cs) h1 = Some (dst, h')" "changes F1 h1 h'"
      "rep (hp_cells h') (GMap dst) F' (Obj (foldl merge_into (merge_into d s) (map (\<lambda>c. snd (snd c)) cs)))"
      "F' \<subseteq> F1 \<union> fresh h1 h'" "sources_ok n h' F' (cs @ c # cs')" by blast
  have "changes F h h'" by (rule changes_trans[OF m(2) step(2) m(4)])
  moreover have "F' \<subseteq> F \<union> fresh h h'"
    by (rule fresh_trans[OF step(4) m(4) subset_refl]) (use m(2) step(2) in \<open>simp_all add: changes_def\<close>)
  moreover have "sources_ok n h' F' ((c # cs) @ cs')" using step(5) by (auto simp: sources_ok_def)
  ultimately show ?case
    using step(1,3) by (intro exI[of _ h'] exI[of _ F']) (simp add: c DeepMerge_heap_def m(1))
qed (auto simp: DeepMerge_heap_def)

lemma merged_heap_rep:
  assumes "heap_ok h" and "sources_ok n h {} cs"
  shows "\<exists>a h' F. merged_heap n (map fst cs) h = Some (a, h') \<and> changes {} h h' \<and>
    rep (hp_cells h') (GMap a) F (Obj (foldl merge_into [] (map (\<lambda>c. snd (snd c)) cs))) \<and>
    F \<subseteq> fresh h h' \<and> sources_ok n h' F cs"
proof -
  obtain a h1 where al: "alloc (MapCell []) h = (a, h1)" by fastforce
  note A = changes_alloc[OF assms(1) al]
  have "rep (hp_cells h1) (GMap a) {a} (Obj [])"
    by (rule rep_Obj[OF _ rep_entries_Nil]) (use A in auto)
  moreover have "sources_ok n h1 {a} (cs @ [])"
    using sources_ok_changes[OF assms(2) conjunct1[OF A] assms(1), of "{a}"] A by simp
  ultimately obtain h' F where R: "merge_rounds n a (map fst cs) h1 = Some (a, h')" "changes {a} h1 h'"
      "rep (hp_cells h') (GMap a) F (Obj (foldl merge_into [] (map (\<lambda>c. snd (snd c)) cs)))"
      "F \<subseteq> {a} \<union> fresh h1 h'" "sources_ok n h' F (cs @ [])"
    using merge_rounds_rep[of h1 a "{a}" "[]" n cs "[]"] changes_ok[OF conjunct1[OF A]] by blast
  have "changes {} h h'" by (rule changes_trans[OF conjunct1[OF A] R(2)]) (use A in auto)
  moreover have "F \<subseteq> fresh h h'" using R(2,4) A by (auto simp: changes_def)
  ultimately show ?thesis using R(1,3,5) by (auto simp: merged_heap_def al)
qed

end
