(* ===== verification/Object_Memory.thy ===== *)
theory Object_Memory
  imports Go_Memory Reconcile_Base
begin

text \<open>
  API objects in memory: the structs of \<open>api/v1alpha1\<close> with the pointers and slices they hold, and
  \<open>upsertCondition\<close> of \<open>internal/controller/status.go\<close> on slices. A struct is a record whose pointer and slice fields are
  addresses; a pointer to a struct of the API package, as in the receivers of \<open>DeepCopy\<close>, is an
  option, \<open>None\<close> being nil.

  The representation relations (\<open>spec_rep\<close>, \<open>status_rep\<close>, \<open>object_rep\<close>) say which value of \<open>Api_Types\<close>
  a struct stands for, and which cells it owns.
\<close>

section \<open>Structs\<close>

text \<open>A slice of length \<open>sl_len\<close> from the start of a backing array, whose size is the capacity.\<close>

record slice =
  sl_arr :: addr
  sl_len :: nat

text \<open>\<open>runtime.RawExtension\<close>: its \<open>Raw\<close> bytes; its \<open>Object\<close> field is nil in decoded objects.\<close>

type_synonym raw_extension = "slice option"

record mem_Spec =
  ms_TenantId :: string
  ms_Weight :: int32
  ms_Overrides :: "addr option"

record mem_Status =
  mt_ObservedGeneration :: int64
  mt_EffectiveTenantId :: string
  mt_Conditions :: "slice option"
  mt_ContributingPeers :: "slice option"

record TypeMeta =
  tm_Kind :: string
  tm_APIVersion :: string

text \<open>Of the metadata only the fields that the operator reads, which hold no pointers.\<close>

record ObjectMeta =
  om_Namespace :: string
  om_Name :: string
  om_Generation :: int64
  om_ResourceVersion :: string

record mem_Object =
  mo_TypeMeta :: TypeMeta
  mo_ObjectMeta :: ObjectMeta
  mo_Spec :: mem_Spec
  mo_Status :: mem_Status

text \<open>What a cell holds: a struct behind a pointer, or the backing array of a slice.\<close>

datatype obj_cell = RawCell raw_extension | ByteArr string | CondArr "Condition list"
  | PeerArr "ContributingPeer list" | ItemArr "mem_Object list"

type_synonym obj_heap = "obj_cell heap"
type_synonym obj_cells = "addr \<rightharpoonup> obj_cell"

section \<open>Third-party deep copies\<close>

text \<open>
  \<open>DeepCopyInto\<close> of \<open>metav1.ObjectMeta\<close> and \<open>metav1.Condition\<close>, whose fields here hold no pointers,
  and of \<open>runtime.RawExtension\<close>, from one address to another.
\<close>

record k8s_copies =
  kc_ObjectMeta :: "ObjectMeta \<Rightarrow> ObjectMeta"
  kc_Condition :: "Condition \<Rightarrow> Condition"
  kc_RawExtension :: "addr \<Rightarrow> addr \<Rightarrow> obj_heap \<Rightarrow> obj_heap"

text \<open>A \<open>RawExtension\<close> at an address, the cells it owns and its bytes.\<close>

definition raw_rep :: "obj_cells \<Rightarrow> addr \<Rightarrow> addr set \<Rightarrow> string \<Rightarrow> bool" where
  "raw_rep h p F b \<longleftrightarrow>
     (h p = Some (RawCell None) \<and> b = [] \<and> F = {p}) \<or>
     (\<exists>sl bs. h p = Some (RawCell (Some sl)) \<and> h (sl_arr sl) = Some (ByteArr bs) \<and> sl_len sl \<le> length bs \<and>
        b = take (sl_len sl) bs \<and> F = {p, sl_arr sl} \<and> p \<noteq> sl_arr sl)"

text \<open>What a deep copy promises: the same value, in cells of its own.\<close>

definition copies_deeply :: "k8s_copies \<Rightarrow> bool" where
  "copies_deeply k \<longleftrightarrow> (\<forall>m. kc_ObjectMeta k m = m) \<and> (\<forall>c. kc_Condition k c = c) \<and>
     (\<forall>h p q F b. heap_ok h \<longrightarrow> raw_rep (hp_cells h) p F b \<longrightarrow> hp_cells h q = Some (RawCell None) \<longrightarrow> q \<notin> F \<longrightarrow>
        changes {q} h (kc_RawExtension k p q h) \<and>
        (\<exists>F'. raw_rep (hp_cells (kc_RawExtension k p q h)) q F' b \<and>
           F' \<subseteq> insert q (fresh h (kc_RawExtension k p q h))))"

section \<open>Slices\<close>

definition conds_at :: "obj_heap \<Rightarrow> slice \<Rightarrow> Condition list" where
  "conds_at h sl = (case hp_cells h (sl_arr sl) of Some (CondArr cs) \<Rightarrow> take (sl_len sl) cs | _ \<Rightarrow> [])"

definition peers_at :: "obj_heap \<Rightarrow> slice \<Rightarrow> ContributingPeer list" where
  "peers_at h sl = (case hp_cells h (sl_arr sl) of Some (PeerArr ps) \<Rightarrow> take (sl_len sl) ps | _ \<Rightarrow> [])"

definition zero_Condition :: Condition where
  "zero_Condition = \<lparr>cond_Type = [], cond_Status = [], cond_ObservedGeneration = 0,
     cond_LastTransitionTime = zero_time, cond_Reason = [], cond_Message = []\<rparr>"

definition zero_Peer :: ContributingPeer where
  "zero_Peer = \<lparr>peer_Namespace = [], peer_Name = [], peer_Weight = 0\<rparr>"

text \<open>\<open>make([]metav1.Condition, n, c)\<close> and \<open>make([]ContributingPeer, n)\<close>.\<close>

definition make_Conditions :: "nat \<Rightarrow> nat \<Rightarrow> obj_heap \<Rightarrow> slice \<times> obj_heap" where
  "make_Conditions n c h = (let (a, h1) = alloc (CondArr (replicate c zero_Condition)) h in
     (\<lparr>sl_arr = a, sl_len = n\<rparr>, h1))"

definition make_Peers :: "nat \<Rightarrow> obj_heap \<Rightarrow> slice \<times> obj_heap" where
  "make_Peers n h = (let (a, h1) = alloc (PeerArr (replicate n zero_Peer)) h in
     (\<lparr>sl_arr = a, sl_len = n\<rparr>, h1))"

text \<open>\<open>s[i] = c\<close>, and \<open>copy(dst, src)\<close> of the built-in functions.\<close>

definition cond_assign :: "slice \<Rightarrow> nat \<Rightarrow> Condition \<Rightarrow> obj_heap \<Rightarrow> obj_heap" where
  "cond_assign sl i c h =
     (case hp_cells h (sl_arr sl) of Some (CondArr cs) \<Rightarrow> store (sl_arr sl) (CondArr (cs[i := c])) h | _ \<Rightarrow> h)"

definition copy_Conditions :: "slice \<Rightarrow> slice \<Rightarrow> obj_heap \<Rightarrow> obj_heap" where
  "copy_Conditions dst src h =
     (let xs = take (sl_len dst) (conds_at h src) in
      case hp_cells h (sl_arr dst) of
        Some (CondArr cs) \<Rightarrow> store (sl_arr dst) (CondArr (xs @ drop (length xs) cs)) h | _ \<Rightarrow> h)"

definition copy_Peers :: "slice \<Rightarrow> slice \<Rightarrow> obj_heap \<Rightarrow> obj_heap" where
  "copy_Peers dst src h =
     (let xs = take (sl_len dst) (peers_at h src) in
      case hp_cells h (sl_arr dst) of
        Some (PeerArr ps) \<Rightarrow> store (sl_arr dst) (PeerArr (xs @ drop (length xs) ps)) h | _ \<Rightarrow> h)"

text \<open>\<open>append(s, c)\<close>: in place when the capacity allows it, else into a new array.\<close>

definition append_Condition :: "slice \<Rightarrow> Condition \<Rightarrow> obj_heap \<Rightarrow> slice \<times> obj_heap" where
  "append_Condition sl c h =
     (case hp_cells h (sl_arr sl) of
        Some (CondArr cs) \<Rightarrow>
          if sl_len sl < length cs
          then (sl\<lparr>sl_len := Suc (sl_len sl)\<rparr>, store (sl_arr sl) (CondArr (cs[sl_len sl := c])) h)
          else (let (a, h1) = alloc (CondArr (take (sl_len sl) cs @ [c])) h in
            (\<lparr>sl_arr = a, sl_len = Suc (sl_len sl)\<rparr>, h1))
      | _ \<Rightarrow> (sl, h))"

section \<open>What structs stand for\<close>

text \<open>A representation relation depends only on the cells it owns, which exist.\<close>

locale representation =
  fixes R :: "(addr \<rightharpoonup> 'c) \<Rightarrow> 'x \<Rightarrow> addr set \<Rightarrow> 'v \<Rightarrow> bool"
  assumes owned: "R h x F v \<Longrightarrow> F \<subseteq> dom h"
    and frame: "R h x F v \<Longrightarrow> (\<And>a. a \<in> F \<Longrightarrow> h' a = h a) \<Longrightarrow> R h' x F v"
begin

lemma below: "heap_ok h \<Longrightarrow> R (hp_cells h) x F v \<Longrightarrow> a \<in> F \<Longrightarrow> a < hp_next h"
  using owned[of "hp_cells h" x F v] cell_below[of h a] by blast

lemma unchanged:
  assumes "changes A h h'" and "heap_ok h" and "A \<inter> F = {}" and "R (hp_cells h) x F v"
  shows "R (hp_cells h') x F v"
proof (rule frame[OF assms(4)])
  fix a assume a: "a \<in> F"
  show "hp_cells h' a = hp_cells h a"
    using below[OF assms(2,4) a] assms(1,3) a unfolding changes_def by blast
qed

lemma apart_of_fresh: "heap_ok h \<Longrightarrow> R (hp_cells h) x F v \<Longrightarrow> G \<subseteq> fresh h h' \<Longrightarrow> F \<inter> G = {}"
  using below[of h x F v] by fastforce

end

definition spec_rep :: "obj_cells \<Rightarrow> mem_Spec \<Rightarrow> addr set \<Rightarrow> TenantOverrideSpec \<Rightarrow> bool" where
  "spec_rep h ms F spec \<longleftrightarrow> ms_TenantId ms = spec_TenantId spec \<and> ms_Weight ms = spec_Weight spec \<and>
     (case ms_Overrides ms of
        None \<Rightarrow> spec_Overrides spec = None \<and> F = {}
      | Some p \<Rightarrow> \<exists>b. raw_rep h p F b \<and> spec_Overrides spec = Some b)"

definition conds_rep :: "obj_cells \<Rightarrow> slice option \<Rightarrow> addr set \<Rightarrow> Condition list \<Rightarrow> bool" where
  "conds_rep h s F cs \<longleftrightarrow>
     (case s of
        None \<Rightarrow> cs = [] \<and> F = {}
      | Some sl \<Rightarrow> \<exists>xs. h (sl_arr sl) = Some (CondArr xs) \<and> sl_len sl \<le> length xs \<and>
          cs = take (sl_len sl) xs \<and> F = {sl_arr sl})"

definition peers_rep :: "obj_cells \<Rightarrow> slice option \<Rightarrow> addr set \<Rightarrow> ContributingPeer list \<Rightarrow> bool" where
  "peers_rep h s F ps \<longleftrightarrow>
     (case s of
        None \<Rightarrow> ps = [] \<and> F = {}
      | Some sl \<Rightarrow> \<exists>xs. h (sl_arr sl) = Some (PeerArr xs) \<and> sl_len sl \<le> length xs \<and>
          ps = take (sl_len sl) xs \<and> F = {sl_arr sl})"

definition status_rep :: "obj_cells \<Rightarrow> mem_Status \<Rightarrow> addr set \<Rightarrow> TenantOverrideStatus \<Rightarrow> bool" where
  "status_rep h mt F st \<longleftrightarrow> mt_ObservedGeneration mt = st_ObservedGeneration st \<and>
     mt_EffectiveTenantId mt = st_EffectiveTenantId st \<and>
     (\<exists>F1 F2. conds_rep h (mt_Conditions mt) F1 (st_Conditions st) \<and>
        peers_rep h (mt_ContributingPeers mt) F2 (st_ContributingPeers st) \<and> F1 \<inter> F2 = {} \<and> F = F1 \<union> F2)"

definition object_rep :: "obj_cells \<Rightarrow> mem_Object \<Rightarrow> addr set \<Rightarrow> TenantOverride \<Rightarrow> bool" where
  "object_rep h mo F cr \<longleftrightarrow>
     om_Namespace (mo_ObjectMeta mo) = cr_Namespace cr \<and> om_Name (mo_ObjectMeta mo) = cr_Name cr \<and>
     om_Generation (mo_ObjectMeta mo) = cr_Generation cr \<and>
     om_ResourceVersion (mo_ObjectMeta mo) = cr_ResourceVersion cr \<and>
     (\<exists>F1 F2. spec_rep h (mo_Spec mo) F1 (cr_Spec cr) \<and> status_rep h (mo_Status mo) F2 (cr_Status cr) \<and>
        F1 \<inter> F2 = {} \<and> F = F1 \<union> F2)"

interpretation raw: representation raw_rep
  by unfold_locales (auto simp: raw_rep_def)

interpretation spec: representation spec_rep
proof
  fix h x F v
  assume "spec_rep h x F v"
  then show "F \<subseteq> dom h" using raw.owned by (fastforce simp: spec_rep_def split: option.splits)
next
  fix h x F v and h' :: obj_cells
  assume "spec_rep h x F v" "\<And>a. a \<in> F \<Longrightarrow> h' a = h a"
  then show "spec_rep h' x F v"
    using raw.frame by (fastforce simp: spec_rep_def split: option.splits)
qed

interpretation conds: representation conds_rep
  by unfold_locales (auto simp: conds_rep_def split: option.splits)

interpretation peers: representation peers_rep
  by unfold_locales (auto simp: peers_rep_def split: option.splits)

interpretation status: representation status_rep
proof
  fix h x F v
  assume "status_rep h x F v"
  then show "F \<subseteq> dom h" using conds.owned peers.owned unfolding status_rep_def by blast
next
  fix h x F v and h' :: obj_cells
  assume "status_rep h x F v" and same: "\<And>a. a \<in> F \<Longrightarrow> h' a = h a"
  then obtain F1 F2 where "conds_rep h (mt_Conditions x) F1 (st_Conditions v)"
      "peers_rep h (mt_ContributingPeers x) F2 (st_ContributingPeers v)" "F1 \<inter> F2 = {}" "F = F1 \<union> F2"
      "mt_ObservedGeneration x = st_ObservedGeneration v" "mt_EffectiveTenantId x = st_EffectiveTenantId v"
    unfolding status_rep_def by blast
  moreover from this same have "conds_rep h' (mt_Conditions x) F1 (st_Conditions v)"
      "peers_rep h' (mt_ContributingPeers x) F2 (st_ContributingPeers v)"
    by (auto intro: conds.frame peers.frame)
  ultimately show "status_rep h' x F v" unfolding status_rep_def by blast
qed

interpretation object: representation object_rep
proof
  fix h x F v
  assume "object_rep h x F v"
  then show "F \<subseteq> dom h" using spec.owned status.owned unfolding object_rep_def by blast
next
  fix h x F v and h' :: obj_cells
  assume "object_rep h x F v" and same: "\<And>a. a \<in> F \<Longrightarrow> h' a = h a"
  then obtain F1 F2 where "spec_rep h (mo_Spec x) F1 (cr_Spec v)" "status_rep h (mo_Status x) F2 (cr_Status v)"
      "F1 \<inter> F2 = {}" "F = F1 \<union> F2"
    and meta: "om_Namespace (mo_ObjectMeta x) = cr_Namespace v" "om_Name (mo_ObjectMeta x) = cr_Name v"
      "om_Generation (mo_ObjectMeta x) = cr_Generation v" "om_ResourceVersion (mo_ObjectMeta x) = cr_ResourceVersion v"
    unfolding object_rep_def by blast
  moreover from this same have "spec_rep h' (mo_Spec x) F1 (cr_Spec v)" "status_rep h' (mo_Status x) F2 (cr_Status v)"
    by (auto intro: spec.frame status.frame)
  ultimately show "object_rep h' x F v" unfolding object_rep_def by blast
qed

section \<open>The upsert on slices\<close>

text \<open>The loop \<open>for i := range out\<close> of \<open>upsertCondition\<close> and the append behind it.\<close>

primrec upsert_loop :: "slice \<Rightarrow> Condition \<Rightarrow> nat list \<Rightarrow> obj_heap \<Rightarrow> 'w op \<Rightarrow> slice \<times> obj_heap \<times> 'w op" where
  "upsert_loop out desired [] h s =
     (let (now, s') = Now s; (out', h') = append_Condition out (desired\<lparr>cond_LastTransitionTime := now\<rparr>) h
      in (out', h', s'))"
| "upsert_loop out desired (i # is) h s =
     (let c = conds_at h out ! i in
      if cond_Type c \<noteq> cond_Type desired then upsert_loop out desired is h s
      else if conditionsEquivalent c desired
      then (out, cond_assign out i (c\<lparr>cond_ObservedGeneration := cond_ObservedGeneration desired\<rparr>) h, s)
      else (let (now, s') = Now s
        in (out, cond_assign out i (desired\<lparr>cond_LastTransitionTime := now\<rparr>) h, s')))"

definition upsertCondition_mem ::
  "slice option \<Rightarrow> Condition \<Rightarrow> obj_heap \<Rightarrow> 'w op \<Rightarrow> slice \<times> obj_heap \<times> 'w op" where
  "upsertCondition_mem existing desired h s =
     (let n = (case existing of None \<Rightarrow> 0 | Some sl \<Rightarrow> sl_len sl);
          (out, h1) = make_Conditions n (n + 1) h;
          h2 = (case existing of None \<Rightarrow> h1 | Some sl \<Rightarrow> copy_Conditions out sl h1)
      in upsert_loop out desired [0..<n] h2 s)"

lemma store_same: "hp_cells h a = Some c \<Longrightarrow> store a c h = h"
  by (simp add: store_def fun_upd_idem)

lemma conds_at_arr: "hp_cells h (sl_arr sl) = Some (CondArr xs) \<Longrightarrow> conds_at h sl = take (sl_len sl) xs"
  by (simp add: conds_at_def)

lemma op_upsert_Cons:
  "cond_Type c \<noteq> cond_Type d \<Longrightarrow> op_upsert (c # cs) d s = (let (cs', s') = op_upsert cs d s in (c # cs', s'))"
  by (simp add: op_upsert_def split: prod.split)

lemma upsert_loop_rep:
  assumes "hp_cells h (sl_arr out) = Some (CondArr (pre @ suf @ [z]))" and "sl_len out = length pre + length suf"
    and "upsert_loop out desired [length pre..<sl_len out] h s = (out', h', s')"
  shows "\<exists>ys. h' = store (sl_arr out) (CondArr ys) h \<and> sl_arr out' = sl_arr out \<and> sl_len out' \<le> length ys \<and>
    op_upsert suf desired s = (drop (length pre) (take (sl_len out') ys), s') \<and> take (length pre) ys = pre \<and>
    length pre \<le> sl_len out'"
  using assms
proof (induction suf arbitrary: pre)
  case Nil
  obtain now s1 where now: "Now s = (now, s1)" by fastforce
  have "append_Condition out (desired\<lparr>cond_LastTransitionTime := now\<rparr>) h =
      (out\<lparr>sl_len := Suc (length pre)\<rparr>,
       store (sl_arr out) (CondArr (pre @ [desired\<lparr>cond_LastTransitionTime := now\<rparr>])) h)"
    using Nil.prems(1,2) by (simp add: append_Condition_def)
  then have r: "out' = out\<lparr>sl_len := Suc (length pre)\<rparr>" "s' = s1"
      "h' = store (sl_arr out) (CondArr (pre @ [desired\<lparr>cond_LastTransitionTime := now\<rparr>])) h"
    using Nil.prems(2,3) by (simp_all add: now)
  then show ?case
    by (intro exI[of _ "pre @ [desired\<lparr>cond_LastTransitionTime := now\<rparr>]"]) (simp add: op_upsert_def now)
next
  case (Cons c suf)
  have idx: "[length pre..<sl_len out] = length pre # [length (pre @ [c])..<sl_len out]"
    using upt_conv_Cons[of "length pre" "sl_len out"] Cons.prems(2) by simp
  have c: "conds_at h out ! length pre = c"
    using Cons.prems(1,2) by (simp add: conds_at_arr nth_append)
  have put: "cond_assign out (length pre) x h = store (sl_arr out) (CondArr (pre @ x # suf @ [z])) h" for x
    using Cons.prems(1) by (simp add: cond_assign_def)
  note L = Cons.prems(3)[unfolded idx upsert_loop.simps(2) Let_def c put]
  show ?case
  proof (cases "cond_Type c = cond_Type desired")
    case False
    then have "upsert_loop out desired [length (pre @ [c])..<sl_len out] h s = (out', h', s')" using L by simp
    from Cons.IH[OF _ _ this] Cons.prems(1,2) obtain ys where ys: "h' = store (sl_arr out) (CondArr ys) h"
        "sl_arr out' = sl_arr out" "sl_len out' \<le> length ys"
        "op_upsert suf desired s = (drop (Suc (length pre)) (take (sl_len out') ys), s')"
        "take (Suc (length pre)) ys = pre @ [c]" "Suc (length pre) \<le> sl_len out'"
      by auto
    have "length pre < length ys" using ys(3,6) by simp
    then have "take (length pre) ys = pre" "ys ! length pre = c"
      using ys(5) by (simp_all add: take_Suc_conv_app_nth)
    then have "drop (length pre) (take (sl_len out') ys) = c # drop (Suc (length pre)) (take (sl_len out') ys)"
      using ys(3,6) by (subst Cons_nth_drop_Suc[symmetric]) simp_all
    with ys \<open>take (length pre) ys = pre\<close> show ?thesis
      by (intro exI[of _ ys]) (simp add: op_upsert_Cons[OF False])
  next
    case True
    show ?thesis
    proof (cases "conditionsEquivalent c desired")
      case eq: True
      let ?x = "c\<lparr>cond_ObservedGeneration := cond_ObservedGeneration desired\<rparr>"
      have "out' = out" "s' = s" "h' = store (sl_arr out) (CondArr (pre @ ?x # suf @ [z])) h"
        using L True eq by auto
      then show ?thesis
        using True eq Cons.prems(2) by (intro exI[of _ "pre @ ?x # suf @ [z]"]) (simp add: op_upsert_def)
    next
      case ne: False
      obtain now s1 where now: "Now s = (now, s1)" by fastforce
      let ?x = "desired\<lparr>cond_LastTransitionTime := now\<rparr>"
      have "out' = out" "s' = s1" "h' = store (sl_arr out) (CondArr (pre @ ?x # suf @ [z])) h"
        using L True ne by (auto simp: now)
      then show ?thesis
        using True ne Cons.prems(2) by (intro exI[of _ "pre @ ?x # suf @ [z]"]) (simp add: op_upsert_def now)
    qed
  qed
qed

text \<open>The upsert in memory: one new array, which holds the upserted conditions; nothing else changes.\<close>

lemma upsertCondition_mem_rep:
  assumes "heap_ok h" and "conds_rep (hp_cells h) existing F cs"
    and "upsertCondition_mem existing desired h s = (out, h', s')"
  shows "changes {} h h' \<and> hp_next h' = Suc (hp_next h) \<and> sl_arr out = hp_next h \<and>
    (\<exists>cs'. op_upsert cs desired s = (cs', s') \<and> conds_rep (hp_cells h') (Some out) {hp_next h} cs')"
proof -
  define n where "n = (case existing of None \<Rightarrow> 0 | Some sl \<Rightarrow> sl_len sl)"
  have n: "n = length cs" using assms(2) by (auto simp: n_def conds_rep_def split: option.splits)
  obtain a h1 where al: "alloc (CondArr (replicate (n + 1) zero_Condition)) h = (a, h1)" by fastforce
  note A = changes_alloc[OF assms(1) al]
  let ?out = "\<lparr>sl_arr = a, sl_len = n\<rparr>"
  let ?h2 = "case existing of None \<Rightarrow> h1 | Some sl \<Rightarrow> copy_Conditions ?out sl h1"
  have h2: "?h2 = store a (CondArr (cs @ [zero_Condition])) h1"
  proof (cases existing)
    case None
    then have "cs = []" using assms(2) by (simp add: conds_rep_def)
    then have "hp_cells h1 a = Some (CondArr (cs @ [zero_Condition]))" using A n by auto
    from store_same[OF this] show ?thesis using None by simp
  next
    case (Some sl)
    then obtain xs where xs: "hp_cells h (sl_arr sl) = Some (CondArr xs)" "sl_len sl \<le> length xs"
        "cs = take (sl_len sl) xs"
      using assms(2) by (auto simp: conds_rep_def)
    have "hp_cells h1 (sl_arr sl) = Some (CondArr xs)"
      by (rule changes_cell[OF conjunct1[OF A] assms(1) xs(1)]) simp
    then have "conds_at h1 sl = cs" by (simp add: conds_at_arr xs(3))
    moreover have "hp_cells h1 a = Some (CondArr (replicate (n + 1) zero_Condition))" using A by blast
    moreover have "drop (length cs) (replicate (n + 1) zero_Condition) = [zero_Condition]" by (simp add: n del: replicate_Suc) simp
    ultimately show ?thesis
      using n by (simp add: Some copy_Conditions_def Let_def del: replicate_Suc)
  qed
  have c2: "changes {} h ?h2"
  proof -
    have "changes {a} h1 ?h2" unfolding h2 by (rule changes_store[OF changes_ok[OF conjunct1[OF A]]]) (use A in simp)
    then show ?thesis by (rule changes_trans[OF conjunct1[OF A]]) (use A in auto)
  qed
  have "upsert_loop ?out desired [0..<n] ?h2 s = (out, h', s')"
    using assms(3) unfolding upsertCondition_mem_def make_Conditions_def Let_def n_def[symmetric] al by simp
  then have L: "upsert_loop ?out desired [length []..<sl_len ?out] ?h2 s = (out, h', s')" by simp
  have arr: "hp_cells ?h2 (sl_arr ?out) = Some (CondArr ([] @ cs @ [zero_Condition]))" by (simp add: h2)
  obtain ys where ys: "h' = store a (CondArr ys) ?h2" "sl_arr out = a" "sl_len out \<le> length ys"
      "op_upsert cs desired s = (take (sl_len out) ys, s')"
    using upsert_loop_rep[OF arr _ L] n by auto
  have nx: "hp_next ?h2 = Suc a" using A by (simp add: h2)
  have "changes {a} ?h2 h'" unfolding ys(1) by (rule changes_store[OF changes_ok[OF c2]]) (simp add: nx)
  then have "changes {} h h'" by (rule changes_trans[OF c2]) (use A nx in auto)
  then show ?thesis using ys A nx by (auto simp: conds_rep_def)
qed

end
