(* ===== verification/Deep_Copies.thy ===== *)
theory Deep_Copies
  imports Object_Memory
begin

text \<open>
  The generated deep copies of \<open>api/v1alpha1/zz_generated.deepcopy.go\<close>, on the structs of
  \<open>Object_Memory\<close>. \<open>DeepCopyInto\<close> returns the struct written to \<open>*out\<close>, the old value of which is lost
  in \<open>*out = *in\<close>; the receiver of \<open>DeepCopy\<close> is a pointer, \<open>None\<close> being nil. Deep copies of
  \<open>k8s.io/apimachinery\<close> types are parameters.
\<close>

section \<open>Lists of objects\<close>

text \<open>Of the list metadata the two strings that the API server sets.\<close>

record ListMeta =
  lm_ResourceVersion :: string
  lm_Continue :: string

record mem_List =
  ml_TypeMeta :: TypeMeta
  ml_ListMeta :: ListMeta
  ml_Items :: "slice option"

type_synonym LokiTenantOverrideList = mem_List
type_synonym MimirTenantOverrideList = mem_List

text \<open>The objects that a \<open>runtime.Object\<close> of this package can hold.\<close>

datatype api_object = RLoki mem_Object | RLokiList mem_List | RMimir mem_Object | RMimirList mem_List

definition zero_Object :: mem_Object where
  "zero_Object = \<lparr>mo_TypeMeta = \<lparr>tm_Kind = [], tm_APIVersion = []\<rparr>,
     mo_ObjectMeta = \<lparr>om_Namespace = [], om_Name = [], om_Generation = 0, om_ResourceVersion = []\<rparr>,
     mo_Spec = \<lparr>ms_TenantId = [], ms_Weight = 0, ms_Overrides = None\<rparr>,
     mo_Status = \<lparr>mt_ObservedGeneration = 0, mt_EffectiveTenantId = [], mt_Conditions = None,
       mt_ContributingPeers = None\<rparr>\<rparr>"

definition items_at :: "obj_heap \<Rightarrow> slice \<Rightarrow> mem_Object list" where
  "items_at h sl = (case hp_cells h (sl_arr sl) of Some (ItemArr xs) \<Rightarrow> take (sl_len sl) xs | _ \<Rightarrow> [])"

definition make_Items :: "nat \<Rightarrow> obj_heap \<Rightarrow> slice \<times> obj_heap" where
  "make_Items n h = (let (a, h1) = alloc (ItemArr (replicate n zero_Object)) h in
     (\<lparr>sl_arr = a, sl_len = n\<rparr>, h1))"

definition item_assign :: "slice \<Rightarrow> nat \<Rightarrow> mem_Object \<Rightarrow> obj_heap \<Rightarrow> obj_heap" where
  "item_assign sl i x h =
     (case hp_cells h (sl_arr sl) of Some (ItemArr xs) \<Rightarrow> store (sl_arr sl) (ItemArr (xs[i := x])) h | _ \<Rightarrow> h)"

section \<open>Shared types\<close>

definition ContributingPeer_DeepCopyInto :: "ContributingPeer \<Rightarrow> ContributingPeer" where
  "ContributingPeer_DeepCopyInto in1 = in1"

definition ContributingPeer_DeepCopy :: "ContributingPeer option \<Rightarrow> ContributingPeer option" where
  "ContributingPeer_DeepCopy in1 =
     (case in1 of None \<Rightarrow> None | Some x \<Rightarrow> Some (ContributingPeer_DeepCopyInto x))"

text \<open>\<open>for i := range *in { (*in)[i].DeepCopyInto(&(*out)[i]) }\<close>, on conditions and on objects.\<close>

primrec copy_each_Condition :: "k8s_copies \<Rightarrow> slice \<Rightarrow> slice \<Rightarrow> nat list \<Rightarrow> obj_heap \<Rightarrow> obj_heap" where
  "copy_each_Condition k src dst [] h = h"
| "copy_each_Condition k src dst (i # is) h =
     copy_each_Condition k src dst is (cond_assign dst i (kc_Condition k (conds_at h src ! i)) h)"

primrec copy_each_item ::
  "(mem_Object \<Rightarrow> obj_heap \<Rightarrow> mem_Object \<times> obj_heap) \<Rightarrow> slice \<Rightarrow> slice \<Rightarrow> nat list \<Rightarrow> obj_heap \<Rightarrow> obj_heap" where
  "copy_each_item cp src dst [] h = h"
| "copy_each_item cp src dst (i # is) h =
     (let (x, h1) = cp (items_at h src ! i) h in
      copy_each_item cp src dst is (item_assign dst i x h1))"

section \<open>Loki\<close>

definition LokiTenantOverrideSpec_DeepCopyInto :: "k8s_copies \<Rightarrow> mem_Spec \<Rightarrow> obj_heap \<Rightarrow> mem_Spec \<times> obj_heap" where
  "LokiTenantOverrideSpec_DeepCopyInto k in1 h =
     (case ms_Overrides in1 of
        None \<Rightarrow> (in1, h)
      | Some p \<Rightarrow>
          (let (q, h1) = alloc (RawCell None) h in
           (in1\<lparr>ms_Overrides := Some q\<rparr>, kc_RawExtension k p q h1)))"

definition LokiTenantOverrideSpec_DeepCopy ::
  "k8s_copies \<Rightarrow> mem_Spec option \<Rightarrow> obj_heap \<Rightarrow> mem_Spec option \<times> obj_heap" where
  "LokiTenantOverrideSpec_DeepCopy k in1 h =
     (case in1 of
        None \<Rightarrow> (None, h)
      | Some x \<Rightarrow> (let (out, h1) = LokiTenantOverrideSpec_DeepCopyInto k x h in (Some out, h1)))"

definition LokiTenantOverrideStatus_DeepCopyInto ::
  "k8s_copies \<Rightarrow> mem_Status \<Rightarrow> obj_heap \<Rightarrow> mem_Status \<times> obj_heap" where
  "LokiTenantOverrideStatus_DeepCopyInto k in1 h =
     (let (out1, h1) =
        (case mt_Conditions in1 of
           None \<Rightarrow> (in1, h)
         | Some sl \<Rightarrow>
             (let (dst, h') = make_Conditions (sl_len sl) (sl_len sl) h in
              (in1\<lparr>mt_Conditions := Some dst\<rparr>, copy_each_Condition k sl dst [0..<sl_len sl] h')))
      in case mt_ContributingPeers in1 of
           None \<Rightarrow> (out1, h1)
         | Some sl \<Rightarrow>
             (let (dst, h') = make_Peers (sl_len sl) h1 in
              (out1\<lparr>mt_ContributingPeers := Some dst\<rparr>, copy_Peers dst sl h')))"

definition LokiTenantOverrideStatus_DeepCopy ::
  "k8s_copies \<Rightarrow> mem_Status option \<Rightarrow> obj_heap \<Rightarrow> mem_Status option \<times> obj_heap" where
  "LokiTenantOverrideStatus_DeepCopy k in1 h =
     (case in1 of
        None \<Rightarrow> (None, h)
      | Some x \<Rightarrow> (let (out, h1) = LokiTenantOverrideStatus_DeepCopyInto k x h in (Some out, h1)))"

definition LokiTenantOverride_DeepCopyInto :: "k8s_copies \<Rightarrow> mem_Object \<Rightarrow> obj_heap \<Rightarrow> mem_Object \<times> obj_heap" where
  "LokiTenantOverride_DeepCopyInto k in1 h =
     (let out1 = in1\<lparr>mo_TypeMeta := mo_TypeMeta in1, mo_ObjectMeta := kc_ObjectMeta k (mo_ObjectMeta in1)\<rparr>;
          (spec, h1) = LokiTenantOverrideSpec_DeepCopyInto k (mo_Spec in1) h;
          (status, h2) = LokiTenantOverrideStatus_DeepCopyInto k (mo_Status in1) h1
      in (out1\<lparr>mo_Spec := spec, mo_Status := status\<rparr>, h2))"

definition LokiTenantOverride_DeepCopy ::
  "k8s_copies \<Rightarrow> mem_Object option \<Rightarrow> obj_heap \<Rightarrow> mem_Object option \<times> obj_heap" where
  "LokiTenantOverride_DeepCopy k in1 h =
     (case in1 of
        None \<Rightarrow> (None, h)
      | Some x \<Rightarrow> (let (out, h1) = LokiTenantOverride_DeepCopyInto k x h in (Some out, h1)))"

definition LokiTenantOverride_DeepCopyObject ::
  "k8s_copies \<Rightarrow> mem_Object option \<Rightarrow> obj_heap \<Rightarrow> api_object option \<times> obj_heap" where
  "LokiTenantOverride_DeepCopyObject k in1 h =
     (let (c, h1) = LokiTenantOverride_DeepCopy k in1 h in
      case c of Some x \<Rightarrow> (Some (RLoki x), h1) | None \<Rightarrow> (None, h1))"

definition LokiTenantOverrideList_DeepCopyInto ::
  "k8s_copies \<Rightarrow> (ListMeta \<Rightarrow> ListMeta) \<Rightarrow> mem_List \<Rightarrow> obj_heap \<Rightarrow> mem_List \<times> obj_heap" where
  "LokiTenantOverrideList_DeepCopyInto k lm in1 h =
     (let out1 = in1\<lparr>ml_TypeMeta := ml_TypeMeta in1, ml_ListMeta := lm (ml_ListMeta in1)\<rparr> in
      case ml_Items in1 of
        None \<Rightarrow> (out1, h)
      | Some sl \<Rightarrow>
          (let (dst, h1) = make_Items (sl_len sl) h in
           (out1\<lparr>ml_Items := Some dst\<rparr>,
            copy_each_item (LokiTenantOverride_DeepCopyInto k) sl dst [0..<sl_len sl] h1)))"

definition LokiTenantOverrideList_DeepCopy ::
  "k8s_copies \<Rightarrow> (ListMeta \<Rightarrow> ListMeta) \<Rightarrow> mem_List option \<Rightarrow> obj_heap \<Rightarrow> mem_List option \<times> obj_heap" where
  "LokiTenantOverrideList_DeepCopy k lm in1 h =
     (case in1 of
        None \<Rightarrow> (None, h)
      | Some x \<Rightarrow> (let (out, h1) = LokiTenantOverrideList_DeepCopyInto k lm x h in (Some out, h1)))"

definition LokiTenantOverrideList_DeepCopyObject ::
  "k8s_copies \<Rightarrow> (ListMeta \<Rightarrow> ListMeta) \<Rightarrow> mem_List option \<Rightarrow> obj_heap \<Rightarrow> api_object option \<times> obj_heap" where
  "LokiTenantOverrideList_DeepCopyObject k lm in1 h =
     (let (c, h1) = LokiTenantOverrideList_DeepCopy k lm in1 h in
      case c of Some x \<Rightarrow> (Some (RLokiList x), h1) | None \<Rightarrow> (None, h1))"

section \<open>Mimir\<close>

definition MimirTenantOverrideSpec_DeepCopyInto :: "k8s_copies \<Rightarrow> mem_Spec \<Rightarrow> obj_heap \<Rightarrow> mem_Spec \<times> obj_heap" where
  "MimirTenantOverrideSpec_DeepCopyInto k in1 h =
     (case ms_Overrides in1 of
        None \<Rightarrow> (in1, h)
      | Some p \<Rightarrow>
          (let (q, h1) = alloc (RawCell None) h in
           (in1\<lparr>ms_Overrides := Some q\<rparr>, kc_RawExtension k p q h1)))"

definition MimirTenantOverrideSpec_DeepCopy ::
  "k8s_copies \<Rightarrow> mem_Spec option \<Rightarrow> obj_heap \<Rightarrow> mem_Spec option \<times> obj_heap" where
  "MimirTenantOverrideSpec_DeepCopy k in1 h =
     (case in1 of
        None \<Rightarrow> (None, h)
      | Some x \<Rightarrow> (let (out, h1) = MimirTenantOverrideSpec_DeepCopyInto k x h in (Some out, h1)))"

definition MimirTenantOverrideStatus_DeepCopyInto ::
  "k8s_copies \<Rightarrow> mem_Status \<Rightarrow> obj_heap \<Rightarrow> mem_Status \<times> obj_heap" where
  "MimirTenantOverrideStatus_DeepCopyInto k in1 h =
     (let (out1, h1) =
        (case mt_Conditions in1 of
           None \<Rightarrow> (in1, h)
         | Some sl \<Rightarrow>
             (let (dst, h') = make_Conditions (sl_len sl) (sl_len sl) h in
              (in1\<lparr>mt_Conditions := Some dst\<rparr>, copy_each_Condition k sl dst [0..<sl_len sl] h')))
      in case mt_ContributingPeers in1 of
           None \<Rightarrow> (out1, h1)
         | Some sl \<Rightarrow>
             (let (dst, h') = make_Peers (sl_len sl) h1 in
              (out1\<lparr>mt_ContributingPeers := Some dst\<rparr>, copy_Peers dst sl h')))"

definition MimirTenantOverrideStatus_DeepCopy ::
  "k8s_copies \<Rightarrow> mem_Status option \<Rightarrow> obj_heap \<Rightarrow> mem_Status option \<times> obj_heap" where
  "MimirTenantOverrideStatus_DeepCopy k in1 h =
     (case in1 of
        None \<Rightarrow> (None, h)
      | Some x \<Rightarrow> (let (out, h1) = MimirTenantOverrideStatus_DeepCopyInto k x h in (Some out, h1)))"

definition MimirTenantOverride_DeepCopyInto :: "k8s_copies \<Rightarrow> mem_Object \<Rightarrow> obj_heap \<Rightarrow> mem_Object \<times> obj_heap" where
  "MimirTenantOverride_DeepCopyInto k in1 h =
     (let out1 = in1\<lparr>mo_TypeMeta := mo_TypeMeta in1, mo_ObjectMeta := kc_ObjectMeta k (mo_ObjectMeta in1)\<rparr>;
          (spec, h1) = MimirTenantOverrideSpec_DeepCopyInto k (mo_Spec in1) h;
          (status, h2) = MimirTenantOverrideStatus_DeepCopyInto k (mo_Status in1) h1
      in (out1\<lparr>mo_Spec := spec, mo_Status := status\<rparr>, h2))"

definition MimirTenantOverride_DeepCopy ::
  "k8s_copies \<Rightarrow> mem_Object option \<Rightarrow> obj_heap \<Rightarrow> mem_Object option \<times> obj_heap" where
  "MimirTenantOverride_DeepCopy k in1 h =
     (case in1 of
        None \<Rightarrow> (None, h)
      | Some x \<Rightarrow> (let (out, h1) = MimirTenantOverride_DeepCopyInto k x h in (Some out, h1)))"

definition MimirTenantOverride_DeepCopyObject ::
  "k8s_copies \<Rightarrow> mem_Object option \<Rightarrow> obj_heap \<Rightarrow> api_object option \<times> obj_heap" where
  "MimirTenantOverride_DeepCopyObject k in1 h =
     (let (c, h1) = MimirTenantOverride_DeepCopy k in1 h in
      case c of Some x \<Rightarrow> (Some (RMimir x), h1) | None \<Rightarrow> (None, h1))"

definition MimirTenantOverrideList_DeepCopyInto ::
  "k8s_copies \<Rightarrow> (ListMeta \<Rightarrow> ListMeta) \<Rightarrow> mem_List \<Rightarrow> obj_heap \<Rightarrow> mem_List \<times> obj_heap" where
  "MimirTenantOverrideList_DeepCopyInto k lm in1 h =
     (let out1 = in1\<lparr>ml_TypeMeta := ml_TypeMeta in1, ml_ListMeta := lm (ml_ListMeta in1)\<rparr> in
      case ml_Items in1 of
        None \<Rightarrow> (out1, h)
      | Some sl \<Rightarrow>
          (let (dst, h1) = make_Items (sl_len sl) h in
           (out1\<lparr>ml_Items := Some dst\<rparr>,
            copy_each_item (MimirTenantOverride_DeepCopyInto k) sl dst [0..<sl_len sl] h1)))"

definition MimirTenantOverrideList_DeepCopy ::
  "k8s_copies \<Rightarrow> (ListMeta \<Rightarrow> ListMeta) \<Rightarrow> mem_List option \<Rightarrow> obj_heap \<Rightarrow> mem_List option \<times> obj_heap" where
  "MimirTenantOverrideList_DeepCopy k lm in1 h =
     (case in1 of
        None \<Rightarrow> (None, h)
      | Some x \<Rightarrow> (let (out, h1) = MimirTenantOverrideList_DeepCopyInto k lm x h in (Some out, h1)))"

definition MimirTenantOverrideList_DeepCopyObject ::
  "k8s_copies \<Rightarrow> (ListMeta \<Rightarrow> ListMeta) \<Rightarrow> mem_List option \<Rightarrow> obj_heap \<Rightarrow> api_object option \<times> obj_heap" where
  "MimirTenantOverrideList_DeepCopyObject k lm in1 h =
     (let (c, h1) = MimirTenantOverrideList_DeepCopy k lm in1 h in
      case c of Some x \<Rightarrow> (Some (RMimirList x), h1) | None \<Rightarrow> (None, h1))"

section \<open>The status update on a copy\<close>

text \<open>\<open>updateStatuses\<close> from \<open>e.CR.DeepCopy()\<close> to the last upsert: the copy whose status is then sent.\<close>

primrec upsert_each :: "Condition list \<Rightarrow> slice option \<Rightarrow> obj_heap \<Rightarrow> 'w op \<Rightarrow> slice option \<times> obj_heap \<times> 'w op" where
  "upsert_each [] conds h s = (conds, h, s)"
| "upsert_each (c # cs) conds h s =
     (let (out, h1, s1) = upsertCondition_mem conds c h s in upsert_each cs (Some out) h1 s1)"

definition loki_updated_mem ::
  "k8s_copies \<Rightarrow> mem_Object \<Rightarrow> mem_Status \<Rightarrow> obj_heap \<Rightarrow> 'w op \<Rightarrow> (mem_Object \<times> obj_heap \<times> 'w op) option" where
  "loki_updated_mem k cr desired h s =
     (let (c, h1) = LokiTenantOverride_DeepCopy k (Some cr) h in
      case c of
        None \<Rightarrow> None
      | Some updated \<Rightarrow>
          (let st = (mo_Status updated)\<lparr>mt_ObservedGeneration := mt_ObservedGeneration desired,
                 mt_EffectiveTenantId := mt_EffectiveTenantId desired,
                 mt_ContributingPeers := mt_ContributingPeers desired\<rparr>;
               range = (case mt_Conditions desired of None \<Rightarrow> [] | Some sl \<Rightarrow> conds_at h1 sl);
               (conds, h2, s') = upsert_each range (mt_Conditions st) h1 s
           in Some (updated\<lparr>mo_Status := st\<lparr>mt_Conditions := conds\<rparr>\<rparr>, h2, s')))"

definition mimir_updated_mem ::
  "k8s_copies \<Rightarrow> mem_Object \<Rightarrow> mem_Status \<Rightarrow> obj_heap \<Rightarrow> 'w op \<Rightarrow> (mem_Object \<times> obj_heap \<times> 'w op) option" where
  "mimir_updated_mem k cr desired h s =
     (let (c, h1) = MimirTenantOverride_DeepCopy k (Some cr) h in
      case c of
        None \<Rightarrow> None
      | Some updated \<Rightarrow>
          (let st = (mo_Status updated)\<lparr>mt_ObservedGeneration := mt_ObservedGeneration desired,
                 mt_EffectiveTenantId := mt_EffectiveTenantId desired,
                 mt_ContributingPeers := mt_ContributingPeers desired\<rparr>;
               range = (case mt_Conditions desired of None \<Rightarrow> [] | Some sl \<Rightarrow> conds_at h1 sl);
               (conds, h2, s') = upsert_each range (mt_Conditions st) h1 s
           in Some (updated\<lparr>mo_Status := st\<lparr>mt_Conditions := conds\<rparr>\<rparr>, h2, s')))"

section \<open>The two kinds copy alike\<close>

lemma Mimir_Spec_copies: "MimirTenantOverrideSpec_DeepCopyInto = LokiTenantOverrideSpec_DeepCopyInto"
  unfolding MimirTenantOverrideSpec_DeepCopyInto_def[abs_def] LokiTenantOverrideSpec_DeepCopyInto_def[abs_def]
  by (rule refl)

lemma Mimir_Status_copies: "MimirTenantOverrideStatus_DeepCopyInto = LokiTenantOverrideStatus_DeepCopyInto"
  unfolding MimirTenantOverrideStatus_DeepCopyInto_def[abs_def] LokiTenantOverrideStatus_DeepCopyInto_def[abs_def]
  by (rule refl)

lemma Mimir_copies: "MimirTenantOverride_DeepCopyInto = LokiTenantOverride_DeepCopyInto"
  unfolding MimirTenantOverride_DeepCopyInto_def[abs_def] LokiTenantOverride_DeepCopyInto_def[abs_def]
    Mimir_Spec_copies Mimir_Status_copies by (rule refl)

lemma Mimir_List_copies: "MimirTenantOverrideList_DeepCopyInto = LokiTenantOverrideList_DeepCopyInto"
  unfolding MimirTenantOverrideList_DeepCopyInto_def[abs_def] LokiTenantOverrideList_DeepCopyInto_def[abs_def]
    Mimir_copies by (rule refl)

lemma mimir_updated_mem_loki: "mimir_updated_mem = loki_updated_mem"
  unfolding mimir_updated_mem_def[abs_def] loki_updated_mem_def[abs_def]
    MimirTenantOverride_DeepCopy_def[abs_def] LokiTenantOverride_DeepCopy_def[abs_def] Mimir_copies by (rule refl)

section \<open>The contract of a deep copy\<close>

text \<open>The copy stands for the same value in new cells, and no cell that existed before is written.\<close>

locale deep_copy = representation R for R :: "(addr \<rightharpoonup> 'c) \<Rightarrow> 'x \<Rightarrow> addr set \<Rightarrow> 'v \<Rightarrow> bool" +
  fixes law :: "'k \<Rightarrow> bool" and cp :: "'k \<Rightarrow> 'x \<Rightarrow> 'c heap \<Rightarrow> 'x \<times> 'c heap"
  assumes copies: "law k \<Longrightarrow> heap_ok h \<Longrightarrow> R (hp_cells h) x F v \<Longrightarrow> cp k x h = (y, h') \<Longrightarrow>
    changes {} h h' \<and> (\<exists>F'. R (hp_cells h') y F' v \<and> F' \<subseteq> fresh h h')"
begin

lemma copiesE:
  assumes "law k" and "heap_ok h" and "R (hp_cells h) x F v" and "cp k x h = (y, h')"
  obtains F' where "changes {} h h'" and "R (hp_cells h') y F' v" and "F' \<subseteq> fresh h h'"
    and "R (hp_cells h') x F v" and "F \<inter> F' = {}"
proof -
  obtain F' where C: "changes {} h h'" "R (hp_cells h') y F' v" "F' \<subseteq> fresh h h'"
    using copies[OF assms] by blast
  from unchanged[OF C(1) assms(2) _ assms(3)] apart_of_fresh[OF assms(2,3) C(3)] show ?thesis
    using that[OF C] by simp
qed

text \<open>Writing to the copy leaves the original as it is.\<close>

lemma original_kept:
  assumes "law k" and "heap_ok h" and "R (hp_cells h) x F v" and "cp k x h = (y, h')"
    and "changes (fresh h h') h' h''"
  shows "R (hp_cells h'') x F v"
proof -
  obtain F' where C: "changes {} h h'" "R (hp_cells h') x F v" by (rule copiesE[OF assms(1-4)])
  have "fresh h h' \<inter> F = {}" using apart_of_fresh[OF assms(2,3), of "fresh h h'" h'] by blast
  then show ?thesis by (rule unchanged[OF assms(5) changes_ok[OF C(1)] _ C(2)])
qed

end

lemma successive_disjoint: "G1 \<subseteq> fresh h h1 \<Longrightarrow> G2 \<subseteq> fresh h1 h2 \<Longrightarrow> G1 \<inter> G2 = {}"
  by (fastforce dest: subsetD)

lemma successive_fresh:
  "G1 \<subseteq> fresh h h1 \<Longrightarrow> G2 \<subseteq> fresh h1 h2 \<Longrightarrow> changes A h h1 \<Longrightarrow> changes B h1 h2 \<Longrightarrow> G1 \<union> G2 \<subseteq> fresh h h2"
  using changes_next[of A h h1] changes_next[of B h1 h2] by fastforce

section \<open>Conditions and peers\<close>

lemma copy_each_Condition_stores:
  assumes "\<And>c. kc_Condition k c = c" and "sl_arr src \<noteq> sl_arr dst"
    and "hp_cells h (sl_arr src) = Some (CondArr (pre @ suf @ rest))" and "sl_len src = length pre + length suf"
    and "hp_cells h (sl_arr dst) = Some (CondArr (pre @ zs))" and "length zs = length suf"
  shows "copy_each_Condition k src dst [length pre..<sl_len src] h = store (sl_arr dst) (CondArr (pre @ suf)) h"
  using assms(3-)
proof (induction suf arbitrary: pre zs h)
  case Nil
  then show ?case by (simp add: store_same)
next
  case (Cons c suf)
  then obtain z zs' where zs: "zs = z # zs'" by (cases zs) auto
  have idx: "[length pre..<sl_len src] = length pre # [length (pre @ [c])..<sl_len src]"
    using upt_conv_Cons[of "length pre" "sl_len src"] Cons.prems(2) by simp
  have c: "conds_at h src ! length pre = c"
    using Cons.prems(1,2) by (simp add: conds_at_arr nth_append)
  let ?h = "store (sl_arr dst) (CondArr ((pre @ [c]) @ zs')) h"
  have put: "cond_assign dst (length pre) c h = ?h"
    using Cons.prems(3) by (simp add: cond_assign_def zs)
  have "copy_each_Condition k src dst [length (pre @ [c])..<sl_len src] ?h =
      store (sl_arr dst) (CondArr ((pre @ [c]) @ suf)) ?h"
    by (rule Cons.IH[of ?h "pre @ [c]" zs']) (use Cons.prems assms(2) zs in simp_all)
  then show ?case unfolding idx by (simp add: c assms(1) put) (simp add: store_def)
qed

lemma copy_Conditions_rep:
  assumes "\<And>c. kc_Condition k c = c" and "heap_ok h" and "conds_rep (hp_cells h) (Some sl) F cs"
    and "make_Conditions (sl_len sl) (sl_len sl) h = (dst, h1)"
    and "h' = copy_each_Condition k sl dst [0..<sl_len sl] h1"
  shows "changes {} h h' \<and> conds_rep (hp_cells h') (Some dst) {hp_next h} cs \<and> hp_next h' = Suc (hp_next h)"
proof -
  let ?a = "hp_next h" and ?n = "sl_len sl"
  obtain xs where xs: "hp_cells h (sl_arr sl) = Some (CondArr xs)" "?n \<le> length xs" "cs = take ?n xs"
    using assms(3) by (auto simp: conds_rep_def)
  have A: "changes {} h h1" "hp_next h1 = Suc ?a" "hp_cells h1 ?a = Some (CondArr (replicate ?n zero_Condition))"
    and dst: "dst = \<lparr>sl_arr = ?a, sl_len = ?n\<rparr>"
    using assms(4) changes_alloc[OF assms(2)] by (auto simp: make_Conditions_def split: prod.splits)
  have old: "hp_cells h1 (sl_arr sl) = Some (CondArr xs)" by (rule changes_cell[OF A(1) assms(2) xs(1)]) simp
  have "sl_arr sl \<noteq> ?a" using cell_below[OF assms(2) xs(1)] by simp
  then have "copy_each_Condition k sl dst [length ([] :: Condition list)..<?n] h1 =
      store (sl_arr dst) (CondArr ([] @ cs)) h1"
    using old A(3) xs(2,3) dst assms(1)
    by (intro copy_each_Condition_stores[where rest = "drop ?n xs" and zs = "replicate ?n zero_Condition"]) simp_all
  then have h': "h' = store ?a (CondArr cs) h1" by (simp add: assms(5) dst)
  have "changes {?a} h1 h'" unfolding h' by (rule changes_store[OF changes_ok[OF A(1)]]) (simp add: A(2))
  then have "changes {} h h'" by (rule changes_trans[OF A(1)]) (simp add: A(2))
  then show ?thesis using xs(2,3) by (simp add: conds_rep_def h' dst A(2))
qed

lemma copy_Peers_rep:
  assumes "heap_ok h" and "peers_rep (hp_cells h) (Some sl) F ps" and "make_Peers (sl_len sl) h = (dst, h1)"
    and "h' = copy_Peers dst sl h1"
  shows "changes {} h h' \<and> peers_rep (hp_cells h') (Some dst) {hp_next h} ps \<and> hp_next h' = Suc (hp_next h)"
proof -
  let ?a = "hp_next h" and ?n = "sl_len sl"
  obtain xs where xs: "hp_cells h (sl_arr sl) = Some (PeerArr xs)" "?n \<le> length xs" "ps = take ?n xs"
    using assms(2) by (auto simp: peers_rep_def)
  have A: "changes {} h h1" "hp_next h1 = Suc ?a" "hp_cells h1 ?a = Some (PeerArr (replicate ?n zero_Peer))"
    and dst: "dst = \<lparr>sl_arr = ?a, sl_len = ?n\<rparr>"
    using assms(3) changes_alloc[OF assms(1)] by (auto simp: make_Peers_def split: prod.splits)
  have old: "hp_cells h1 (sl_arr sl) = Some (PeerArr xs)" by (rule changes_cell[OF A(1) assms(1) xs(1)]) simp
  have h': "h' = store ?a (PeerArr ps) h1"
    using old A(3) xs(2,3) by (simp add: assms(4) dst copy_Peers_def peers_at_def)
  have "changes {?a} h1 h'" unfolding h' by (rule changes_store[OF changes_ok[OF A(1)]]) (simp add: A(2))
  then have "changes {} h h'" by (rule changes_trans[OF A(1)]) (simp add: A(2))
  then show ?thesis using xs(2,3) by (simp add: peers_rep_def h' dst A(2))
qed

section \<open>Specs, statuses and objects\<close>

lemma spec_copies:
  assumes "copies_deeply k" and "heap_ok h" and "spec_rep (hp_cells h) x F v"
    and "LokiTenantOverrideSpec_DeepCopyInto k x h = (y, h')"
  shows "changes {} h h' \<and> (\<exists>F'. spec_rep (hp_cells h') y F' v \<and> F' \<subseteq> fresh h h')"
proof (cases "ms_Overrides x")
  case None
  then have "y = x" "h' = h" "F = {}"
    using assms(3,4) by (simp_all add: LokiTenantOverrideSpec_DeepCopyInto_def spec_rep_def)
  with assms(2,3) show ?thesis by auto
next
  case (Some p)
  then obtain b where b: "raw_rep (hp_cells h) p F b" "spec_Overrides v = Some b"
    using assms(3) by (auto simp: spec_rep_def)
  obtain q h1 where al: "alloc (RawCell None) h = (q, h1)" by fastforce
  then have y: "y = x\<lparr>ms_Overrides := Some q\<rparr>" "h' = kc_RawExtension k p q h1"
    using assms(4) Some by (simp_all add: LokiTenantOverrideSpec_DeepCopyInto_def)
  have A: "changes {} h h1" "q = hp_next h" "hp_next h1 = Suc q" "hp_cells h1 q = Some (RawCell None)"
    using changes_alloc[OF assms(2) al] by auto
  have r1: "raw_rep (hp_cells h1) p F b" by (rule raw.unchanged[OF A(1) assms(2) _ b(1)]) simp
  have "q \<notin> F" using raw.below[OF assms(2) b(1), of q] A(2) by blast
  then obtain F' where C: "changes {q} h1 h'" "raw_rep (hp_cells h') q F' b" "F' \<subseteq> insert q (fresh h1 h')"
    using assms(1) changes_ok[OF A(1)] r1 A(4) unfolding copies_deeply_def y(2) by blast
  have "changes {} h h'" by (rule changes_trans[OF A(1) C(1)]) (simp add: A(2,3))
  moreover have "F' \<subseteq> fresh h h'"
    using C(3) changes_next[OF C(1)] A(2,3) by auto
  moreover have "spec_rep (hp_cells h') y F' v"
    using C(2) b(2) assms(3) by (simp add: spec_rep_def y(1))
  ultimately show ?thesis by blast
qed

lemma status_copies:
  assumes "copies_deeply k" and "heap_ok h" and "status_rep (hp_cells h) x F v"
    and "LokiTenantOverrideStatus_DeepCopyInto k x h = (y, h')"
  shows "changes {} h h' \<and> (\<exists>F'. status_rep (hp_cells h') y F' v \<and> F' \<subseteq> fresh h h')"
proof -
  have kc: "\<And>c. kc_Condition k c = c" using assms(1) by (simp add: copies_deeply_def)
  obtain F1 F2 where F: "conds_rep (hp_cells h) (mt_Conditions x) F1 (st_Conditions v)"
      "peers_rep (hp_cells h) (mt_ContributingPeers x) F2 (st_ContributingPeers v)"
    and scalars: "mt_ObservedGeneration x = st_ObservedGeneration v" "mt_EffectiveTenantId x = st_EffectiveTenantId v"
    using assms(3) by (auto simp: status_rep_def)
  obtain y1 h1 where one: "(case mt_Conditions x of None \<Rightarrow> (x, h) | Some sl \<Rightarrow>
      (let (dst, h') = make_Conditions (sl_len sl) (sl_len sl) h in
       (x\<lparr>mt_Conditions := Some dst\<rparr>, copy_each_Condition k sl dst [0..<sl_len sl] h'))) = (y1, h1)"
    by fastforce
  have two: "(case mt_ContributingPeers x of None \<Rightarrow> (y1, h1) | Some sl \<Rightarrow>
      (let (dst, h') = make_Peers (sl_len sl) h1 in
       (y1\<lparr>mt_ContributingPeers := Some dst\<rparr>, copy_Peers dst sl h'))) = (y, h')"
    using assms(4) unfolding LokiTenantOverrideStatus_DeepCopyInto_def one by simp
  have C: "changes {} h h1 \<and> (\<exists>G1. conds_rep (hp_cells h1) (mt_Conditions y1) G1 (st_Conditions v) \<and>
      G1 \<subseteq> fresh h h1) \<and> y1 = x\<lparr>mt_Conditions := mt_Conditions y1\<rparr>"
  proof (cases "mt_Conditions x")
    case None
    then show ?thesis using one F(1) assms(2) by (auto simp: conds_rep_def)
  next
    case (Some sl)
    obtain dst h0 where mk: "make_Conditions (sl_len sl) (sl_len sl) h = (dst, h0)" by fastforce
    then have r: "y1 = x\<lparr>mt_Conditions := Some dst\<rparr>" "h1 = copy_each_Condition k sl dst [0..<sl_len sl] h0"
      using one Some by simp_all
    from copy_Conditions_rep[OF kc assms(2) F(1)[unfolded Some] mk r(2)] r(1) show ?thesis by auto
  qed
  then obtain G1 where G1: "changes {} h h1" "conds_rep (hp_cells h1) (mt_Conditions y1) G1 (st_Conditions v)"
      "G1 \<subseteq> fresh h h1" and y1: "y1 = x\<lparr>mt_Conditions := mt_Conditions y1\<rparr>"
    by blast
  note ok1 = changes_ok[OF G1(1)]
  have p1: "peers_rep (hp_cells h1) (mt_ContributingPeers x) F2 (st_ContributingPeers v)"
    by (rule peers.unchanged[OF G1(1) assms(2) _ F(2)]) simp
  have P: "changes {} h1 h' \<and> (\<exists>G2. peers_rep (hp_cells h') (mt_ContributingPeers y) G2 (st_ContributingPeers v) \<and>
      G2 \<subseteq> fresh h1 h') \<and> y = y1\<lparr>mt_ContributingPeers := mt_ContributingPeers y\<rparr>"
  proof (cases "mt_ContributingPeers x")
    case None
    moreover have "mt_ContributingPeers y1 = mt_ContributingPeers x" by (subst y1) simp
    ultimately show ?thesis using two p1 ok1 by (auto simp: peers_rep_def)
  next
    case (Some sl)
    obtain dst h0 where mk: "make_Peers (sl_len sl) h1 = (dst, h0)" by fastforce
    then have r: "y = y1\<lparr>mt_ContributingPeers := Some dst\<rparr>" "h' = copy_Peers dst sl h0"
      using two Some by simp_all
    from copy_Peers_rep[OF ok1 p1[unfolded Some] mk r(2)] r(1) show ?thesis by auto
  qed
  then obtain G2 where G2: "changes {} h1 h'" "peers_rep (hp_cells h') (mt_ContributingPeers y) G2 (st_ContributingPeers v)"
      "G2 \<subseteq> fresh h1 h'" and y: "y = y1\<lparr>mt_ContributingPeers := mt_ContributingPeers y\<rparr>"
    by blast
  have c: "changes {} h h'" by (rule changes_trans[OF G1(1) G2(1)]) simp
  have "conds_rep (hp_cells h') (mt_Conditions y1) G1 (st_Conditions v)"
    by (rule conds.unchanged[OF G2(1) ok1 _ G1(2)]) simp
  moreover have "mt_Conditions y = mt_Conditions y1" "mt_ObservedGeneration y = mt_ObservedGeneration x"
      "mt_EffectiveTenantId y = mt_EffectiveTenantId x"
    by (subst y, subst y1, simp)+
  ultimately have "status_rep (hp_cells h') y (G1 \<union> G2) v"
    using G2(2) successive_disjoint[OF G1(3) G2(3)] scalars unfolding status_rep_def by metis
  moreover have "G1 \<union> G2 \<subseteq> fresh h h'" by (rule successive_fresh[OF G1(3) G2(3) G1(1) G2(1)])
  ultimately show ?thesis using c by blast
qed

lemma object_copies:
  assumes "copies_deeply k" and "heap_ok h" and "object_rep (hp_cells h) x F v"
    and "LokiTenantOverride_DeepCopyInto k x h = (y, h')"
  shows "changes {} h h' \<and> (\<exists>F'. object_rep (hp_cells h') y F' v \<and> F' \<subseteq> fresh h h')"
proof -
  obtain F1 F2 where F: "spec_rep (hp_cells h) (mo_Spec x) F1 (cr_Spec v)"
      "status_rep (hp_cells h) (mo_Status x) F2 (cr_Status v)"
    using assms(3) by (auto simp: object_rep_def)
  obtain sp h1 where sp: "LokiTenantOverrideSpec_DeepCopyInto k (mo_Spec x) h = (sp, h1)" by fastforce
  obtain st h2 where st: "LokiTenantOverrideStatus_DeepCopyInto k (mo_Status x) h1 = (st, h2)" by fastforce
  have y: "h' = h2" "mo_ObjectMeta y = mo_ObjectMeta x" "mo_Spec y = sp" "mo_Status y = st"
    using assms(1,4) by (auto simp: LokiTenantOverride_DeepCopyInto_def sp st copies_deeply_def)
  obtain G1 where G1: "changes {} h h1" "spec_rep (hp_cells h1) sp G1 (cr_Spec v)" "G1 \<subseteq> fresh h h1"
    using spec_copies[OF assms(1,2) F(1) sp] by blast
  note ok1 = changes_ok[OF G1(1)]
  have "status_rep (hp_cells h1) (mo_Status x) F2 (cr_Status v)"
    by (rule status.unchanged[OF G1(1) assms(2) _ F(2)]) simp
  from status_copies[OF assms(1) ok1 this st] obtain G2 where
    G2: "changes {} h1 h2" "status_rep (hp_cells h2) st G2 (cr_Status v)" "G2 \<subseteq> fresh h1 h2" by blast
  have "spec_rep (hp_cells h2) sp G1 (cr_Spec v)" by (rule spec.unchanged[OF G2(1) ok1 _ G1(2)]) simp
  moreover note successive_disjoint[OF G1(3) G2(3)]
  ultimately have "object_rep (hp_cells h') y (G1 \<union> G2) v"
    using G2(2) assms(3) y unfolding object_rep_def by auto
  moreover have "changes {} h h'" unfolding y(1) by (rule changes_trans[OF G1(1) G2(1)]) simp
  moreover have "G1 \<union> G2 \<subseteq> fresh h h'"
    unfolding y(1) by (rule successive_fresh[OF G1(3) G2(3) G1(1) G2(1)])
  ultimately show ?thesis by blast
qed

section \<open>Lists of objects\<close>

text \<open>The objects of an array: each has cells of its own.\<close>

fun items_rep :: "obj_cells \<Rightarrow> mem_Object list \<Rightarrow> addr set \<Rightarrow> TenantOverride list \<Rightarrow> bool" where
  "items_rep h [] F [] = (F = {})"
| "items_rep h (x # xs) F (v # vs) =
     (\<exists>F1 F2. object_rep h x F1 v \<and> items_rep h xs F2 vs \<and> F1 \<inter> F2 = {} \<and> F = F1 \<union> F2)"
| "items_rep h _ F _ = False"

definition list_rep :: "obj_cells \<Rightarrow> mem_List \<Rightarrow> addr set \<Rightarrow> TenantOverride list \<Rightarrow> bool" where
  "list_rep h ml F vs \<longleftrightarrow>
     (case ml_Items ml of
        None \<Rightarrow> vs = [] \<and> F = {}
      | Some sl \<Rightarrow> \<exists>xs G. h (sl_arr sl) = Some (ItemArr xs) \<and> sl_len sl \<le> length xs \<and>
          items_rep h (take (sl_len sl) xs) G vs \<and> sl_arr sl \<notin> G \<and> F = insert (sl_arr sl) G)"

interpretation items: representation items_rep
proof
  fix h x F v
  show "items_rep h x F v \<Longrightarrow> F \<subseteq> dom h"
  proof (induction h x F v rule: items_rep.induct)
    case (2 h x xs F v vs)
    then obtain F1 F2 where "object_rep h x F1 v" "items_rep h xs F2 vs" "F = F1 \<union> F2" by auto
    with 2(1) object.owned[of h x F1 v] show ?case by blast
  qed simp_all
next
  fix h x F v and h' :: obj_cells
  show "items_rep h x F v \<Longrightarrow> (\<And>a. a \<in> F \<Longrightarrow> h' a = h a) \<Longrightarrow> items_rep h' x F v"
  proof (induction h x F v rule: items_rep.induct)
    case (2 h x xs F v vs)
    then obtain F1 F2 where F: "object_rep h x F1 v" "items_rep h xs F2 vs" "F1 \<inter> F2 = {}" "F = F1 \<union> F2" by auto
    have "object_rep h' x F1 v" by (rule object.frame[OF F(1)]) (use 2(3) F(4) in blast)
    moreover have "items_rep h' xs F2 vs" by (rule 2(1)[OF F(2)]) (use 2(3) F(4) in blast)
    ultimately show ?case using F(3,4) by auto
  qed simp_all
qed

interpretation olist: representation list_rep
proof
  fix h x F v
  assume "list_rep h x F v"
  then show "F \<subseteq> dom h" using items.owned by (fastforce simp: list_rep_def split: option.splits)
next
  fix h x F v and h' :: obj_cells
  assume R: "list_rep h x F v" and same: "\<And>a. a \<in> F \<Longrightarrow> h' a = h a"
  show "list_rep h' x F v"
  proof (cases "ml_Items x")
    case None
    with R show ?thesis by (simp add: list_rep_def)
  next
    case (Some sl)
    then obtain xs G where X: "h (sl_arr sl) = Some (ItemArr xs)" "sl_len sl \<le> length xs"
        "items_rep h (take (sl_len sl) xs) G v" "sl_arr sl \<notin> G" "F = insert (sl_arr sl) G"
      using R by (auto simp: list_rep_def)
    have "items_rep h' (take (sl_len sl) xs) G v" by (rule items.frame[OF X(3)]) (use same X(5) in blast)
    moreover have "h' (sl_arr sl) = Some (ItemArr xs)" using same[of "sl_arr sl"] X(1,5) by simp
    ultimately show ?thesis using X(2,4,5) Some by (auto simp: list_rep_def)
  qed
qed

lemma items_rep_length: "items_rep h xs F vs \<Longrightarrow> length xs = length vs"
  by (induction h xs F vs rule: items_rep.induct) auto

lemma items_at_arr: "hp_cells h (sl_arr sl) = Some (ItemArr xs) \<Longrightarrow> items_at h sl = take (sl_len sl) xs"
  by (simp add: items_at_def)

lemma copy_each_item_copies:
  assumes k: "copies_deeply k" and ne: "sl_arr src \<noteq> sl_arr dst" and len: "sl_len src = length pre + length suf"
    and "heap_ok h" and "hp_cells h (sl_arr src) = Some (ItemArr (pre @ suf @ rest))"
    and "hp_cells h (sl_arr dst) = Some (ItemArr (ys @ zs))" and "length ys = length pre" and "length zs = length suf"
    and "items_rep (hp_cells h) suf F vs" and "sl_arr dst \<notin> F"
    and "h' = copy_each_item (LokiTenantOverride_DeepCopyInto k) src dst [length pre..<sl_len src] h"
  shows "changes {sl_arr dst} h h' \<and> (\<exists>ys' G. hp_cells h' (sl_arr dst) = Some (ItemArr (ys @ ys')) \<and>
    length ys' = length suf \<and> items_rep (hp_cells h') ys' G vs \<and> G \<subseteq> fresh h h')"
  using assms(3-)
proof (induction suf arbitrary: pre ys zs h F vs)
  case Nil
  then have "h' = h" "vs = []" using items_rep_length[OF Nil.prems(7)] by simp_all
  then show ?case using Nil.prems by simp
next
  case (Cons x suf)
  obtain z zs' where zs: "zs = z # zs'" using Cons.prems(6) by (cases zs) auto
  obtain v vs' where vs: "vs = v # vs'" using items_rep_length[OF Cons.prems(7)] by (cases vs) auto
  obtain F1 F2 where F: "object_rep (hp_cells h) x F1 v" "items_rep (hp_cells h) suf F2 vs'" "F = F1 \<union> F2"
    using Cons.prems(7) vs by auto
  have idx: "[length pre..<sl_len src] = length pre # [length (pre @ [x])..<sl_len src]"
    using upt_conv_Cons[of "length pre" "sl_len src"] Cons.prems(1) by simp
  have x: "items_at h src ! length pre = x"
    using Cons.prems(1,3) by (simp add: items_at_arr nth_append)
  obtain y h1 where y: "LokiTenantOverride_DeepCopyInto k x h = (y, h1)" by fastforce
  obtain G1 where G1: "changes {} h h1" "object_rep (hp_cells h1) y G1 v" "G1 \<subseteq> fresh h h1"
    using object_copies[OF k Cons.prems(2) F(1) y] by blast
  note ok1 = changes_ok[OF G1(1)]
  have dst1: "hp_cells h1 (sl_arr dst) = Some (ItemArr (ys @ zs))"
    by (rule changes_cell[OF G1(1) Cons.prems(2,4)]) simp
  have src1: "hp_cells h1 (sl_arr src) = Some (ItemArr (pre @ (x # suf) @ rest))"
    by (rule changes_cell[OF G1(1) Cons.prems(2,3)]) simp
  let ?h2 = "store (sl_arr dst) (ItemArr ((ys @ [y]) @ zs')) h1"
  have put: "item_assign dst (length pre) y h1 = ?h2"
    using dst1 Cons.prems(5) by (simp add: item_assign_def zs list_update_append)
  have C2: "changes {sl_arr dst} h1 ?h2" by (rule changes_store[OF ok1 cell_below[OF ok1 dst1]])
  note ok2 = changes_ok[OF C2]
  have "items_rep (hp_cells h1) suf F2 vs'" by (rule items.unchanged[OF G1(1) Cons.prems(2) _ F(2)]) simp
  then have F2: "items_rep (hp_cells ?h2) suf F2 vs'"
    by (rule items.unchanged[OF C2 ok1, rotated]) (use Cons.prems(8) F(3) in blast)
  have h': "h' = copy_each_item (LokiTenantOverride_DeepCopyInto k) src dst [length (pre @ [x])..<sl_len src] ?h2"
    using Cons.prems(9) unfolding idx by (simp add: x y put del: append.simps append_assoc)
  have "changes {sl_arr dst} ?h2 h' \<and> (\<exists>ys' G. hp_cells h' (sl_arr dst) = Some (ItemArr ((ys @ [y]) @ ys')) \<and>
      length ys' = length suf \<and> items_rep (hp_cells h') ys' G vs' \<and> G \<subseteq> fresh ?h2 h')"
    by (rule Cons.IH[where zs = zs', OF _ ok2 _ _ _ _ F2 _ h']) (use Cons.prems src1 ne F(3) zs in simp_all)
  then obtain ys' G2 where I: "changes {sl_arr dst} ?h2 h'" "hp_cells h' (sl_arr dst) = Some (ItemArr ((ys @ [y]) @ ys'))"
      "length ys' = length suf" "items_rep (hp_cells h') ys' G2 vs'" "G2 \<subseteq> fresh h1 h'"
    by auto
  have C3: "changes {sl_arr dst} h1 h'" by (rule changes_trans[OF C2 I(1)]) simp
  have "sl_arr dst \<notin> G1" using G1(3) cell_below[OF Cons.prems(2,4)] by auto
  then have "object_rep (hp_cells h') y G1 v" by (intro object.unchanged[OF C3 ok1 _ G1(2)]) simp
  then have "items_rep (hp_cells h') (y # ys') (G1 \<union> G2) vs"
    using I(4) successive_disjoint[OF G1(3) I(5)] vs by auto
  moreover have "changes {sl_arr dst} h h'" by (rule changes_trans[OF changes_mono[OF G1(1)] C3]) simp_all
  moreover have "G1 \<union> G2 \<subseteq> fresh h h'" by (rule successive_fresh[OF G1(3) I(5) G1(1) C3])
  ultimately show ?case using I(2,3) by (intro conjI exI[of _ "y # ys'"] exI[of _ "G1 \<union> G2"]) simp_all
qed

lemma list_copies:
  assumes "copies_deeply k" and "heap_ok h" and "list_rep (hp_cells h) x F vs"
    and "LokiTenantOverrideList_DeepCopyInto k lm x h = (y, h')"
  shows "changes {} h h' \<and> (\<exists>F'. list_rep (hp_cells h') y F' vs \<and> F' \<subseteq> fresh h h')"
proof (cases "ml_Items x")
  case None
  then have "ml_Items y = None" "h' = h" "vs = []"
    using assms(3,4) by (auto simp: LokiTenantOverrideList_DeepCopyInto_def list_rep_def)
  with assms(2) show ?thesis by (auto simp: list_rep_def)
next
  case (Some sl)
  let ?a = "hp_next h" and ?n = "sl_len sl"
  obtain xs G where X: "hp_cells h (sl_arr sl) = Some (ItemArr xs)" "?n \<le> length xs"
      "items_rep (hp_cells h) (take ?n xs) G vs" "F = insert (sl_arr sl) G"
    using assms(3) Some by (auto simp: list_rep_def)
  obtain dst h1 where mk: "make_Items ?n h = (dst, h1)" by fastforce
  have A: "changes {} h h1" "hp_next h1 = Suc ?a" "hp_cells h1 ?a = Some (ItemArr (replicate ?n zero_Object))"
    and dst: "dst = \<lparr>sl_arr = ?a, sl_len = ?n\<rparr>"
    using mk changes_alloc[OF assms(2)] by (auto simp: make_Items_def split: prod.splits)
  have y: "ml_Items y = Some dst" "h' = copy_each_item (LokiTenantOverride_DeepCopyInto k) sl dst [0..<?n] h1"
    using assms(4) Some mk by (auto simp: LokiTenantOverrideList_DeepCopyInto_def Let_def)
  have ne: "sl_arr sl \<noteq> sl_arr dst" using cell_below[OF assms(2) X(1)] by (simp add: dst)
  have "hp_cells h1 (sl_arr sl) = Some (ItemArr xs)" by (rule changes_cell[OF A(1) assms(2) X(1)]) simp
  then have src: "hp_cells h1 (sl_arr sl) = Some (ItemArr ([] @ take ?n xs @ drop ?n xs))" by simp
  have F1: "items_rep (hp_cells h1) (take ?n xs) G vs" by (rule items.unchanged[OF A(1) assms(2) _ X(3)]) simp
  have apart: "sl_arr dst \<notin> G" using items.below[OF assms(2) X(3), of ?a] by (auto simp: dst)
  have "changes {sl_arr dst} h1 h' \<and> (\<exists>ys' G'. hp_cells h' (sl_arr dst) = Some (ItemArr ([] @ ys')) \<and>
      length ys' = length (take ?n xs) \<and> items_rep (hp_cells h') ys' G' vs \<and> G' \<subseteq> fresh h1 h')"
    by (rule copy_each_item_copies[OF assms(1) ne _ changes_ok[OF A(1)] src _ _ _ F1 apart,
        where zs = "replicate ?n zero_Object"])
      (use X(2) A(3) dst y(2) in simp_all)
  then obtain ys G' where C: "changes {?a} h1 h'" "hp_cells h' ?a = Some (ItemArr ys)" "length ys = ?n"
      "items_rep (hp_cells h') ys G' vs" "G' \<subseteq> fresh h1 h'"
    using X(2) by (auto simp: dst)
  have "changes {} h h'" by (rule changes_trans[OF A(1) C(1)]) (simp add: A(2))
  moreover have "?a \<notin> G'" using C(5) A(2) by auto
  then have "list_rep (hp_cells h') y (insert ?a G') vs"
    using C(2-4) y(1) by (auto simp: list_rep_def dst)
  moreover have "insert ?a G' \<subseteq> fresh h h'" using C(5) A(2) changes_next[OF C(1)] by auto
  ultimately show ?thesis by blast
qed

section \<open>The copies of the package keep the contract\<close>

interpretation loki_spec: deep_copy spec_rep copies_deeply LokiTenantOverrideSpec_DeepCopyInto
  by unfold_locales (rule spec_copies)

interpretation loki_status: deep_copy status_rep copies_deeply LokiTenantOverrideStatus_DeepCopyInto
  by unfold_locales (rule status_copies)

interpretation loki_object: deep_copy object_rep copies_deeply LokiTenantOverride_DeepCopyInto
  by unfold_locales (rule object_copies)

interpretation loki_list: deep_copy list_rep copies_deeply "\<lambda>k. LokiTenantOverrideList_DeepCopyInto k lm" for lm
  by unfold_locales (rule list_copies)

interpretation mimir_object: deep_copy object_rep copies_deeply MimirTenantOverride_DeepCopyInto
  unfolding Mimir_copies by (rule loki_object.deep_copy_axioms)

interpretation mimir_list: deep_copy list_rep copies_deeply "\<lambda>k. MimirTenantOverrideList_DeepCopyInto k lm" for lm
  unfolding Mimir_List_copies by (rule loki_list.deep_copy_axioms)

section \<open>Status updates\<close>

lemma upsert_each_rep:
  assumes "heap_ok h" and "conds_rep (hp_cells h) conds F cs" and "upsert_each ds conds h s = (conds', h', s')"
  shows "changes {} h h' \<and> (\<exists>F' cs'. op_upserts cs ds s = (cs', s') \<and> conds_rep (hp_cells h') conds' F' cs' \<and>
    F' \<subseteq> F \<union> fresh h h')"
  using assms
proof (induction ds arbitrary: conds h s F cs)
  case Nil
  then show ?case by auto
next
  case (Cons d ds)
  obtain out h1 s1 where one: "upsertCondition_mem conds d h s = (out, h1, s1)" by (metis prod_cases3)
  from upsertCondition_mem_rep[OF Cons.prems(1,2) one] obtain cs1 where U: "changes {} h h1"
      "hp_next h1 = Suc (hp_next h)" "op_upsert cs d s = (cs1, s1)"
      "conds_rep (hp_cells h1) (Some out) {hp_next h} cs1"
    by blast
  have "upsert_each ds (Some out) h1 s1 = (conds', h', s')" using Cons.prems(3) by (simp add: one)
  from Cons.IH[OF changes_ok[OF U(1)] U(4) this] obtain F' cs' where I: "changes {} h1 h'"
      "op_upserts cs1 ds s1 = (cs', s')" "conds_rep (hp_cells h') conds' F' cs'"
      "F' \<subseteq> {hp_next h} \<union> fresh h1 h'"
    by blast
  have "changes {} h h'" by (rule changes_trans[OF U(1) I(1)]) simp
  moreover have "F' \<subseteq> F \<union> fresh h h'" using I(4) U(2) changes_next[OF I(1)] by auto
  ultimately show ?case using I(2,3) U(3) by auto
qed

lemma loki_updated_mem_runs:
  obtains updated h' s' where "loki_updated_mem k cr desired h s = Some (updated, h', s')"
proof -
  obtain c h1 where c: "LokiTenantOverride_DeepCopyInto k cr h = (c, h1)" by fastforce
  let ?range = "case mt_Conditions desired of None \<Rightarrow> [] | Some sl \<Rightarrow> conds_at h1 sl"
  obtain conds h2 s2 where "upsert_each ?range (mt_Conditions (mo_Status c)) h1 s = (conds, h2, s2)"
    by (metis prod_cases3)
  then show ?thesis
    by (intro that) (simp add: loki_updated_mem_def LokiTenantOverride_DeepCopy_def c Let_def)
qed

lemma loki_updated_mem_rep:
  assumes "copies_deeply k" and "heap_ok h" and "object_rep (hp_cells h) cr F v"
    and "status_rep (hp_cells h) desired G d" and "loki_updated_mem k cr desired h s = Some (updated, h', s')"
  shows "changes {} h h' \<and> (\<exists>F' st. updated_status (cr_Status v) d s = (st, s') \<and>
    object_rep (hp_cells h') updated F' (v\<lparr>cr_Status := st\<rparr>) \<and> F' \<subseteq> G \<union> fresh h h')"
proof -
  obtain c h1 where c: "LokiTenantOverride_DeepCopyInto k cr h = (c, h1)" by fastforce
  obtain F' where C: "changes {} h h1" "object_rep (hp_cells h1) c F' v" "F' \<subseteq> fresh h h1"
    by (rule loki_object.copiesE[OF assms(1-3) c])
  note ok1 = changes_ok[OF C(1)]
  obtain G1 G2 where G: "conds_rep (hp_cells h1) (mt_Conditions desired) G1 (st_Conditions d)"
      "peers_rep (hp_cells h1) (mt_ContributingPeers desired) G2 (st_ContributingPeers d)" "G2 \<subseteq> G"
      "mt_ObservedGeneration desired = st_ObservedGeneration d" "mt_EffectiveTenantId desired = st_EffectiveTenantId d"
    using status.unchanged[OF C(1) assms(2) _ assms(4)] by (auto simp: status_rep_def)
  have G2: "a < hp_next h" if "a \<in> G2" for a using status.below[OF assms(2,4)] G(3) that by blast
  have range: "(case mt_Conditions desired of None \<Rightarrow> [] | Some sl \<Rightarrow> conds_at h1 sl) = st_Conditions d"
    using G(1) by (auto simp: conds_rep_def conds_at_arr split: option.splits)
  obtain P1 P2 where P: "spec_rep (hp_cells h1) (mo_Spec c) P1 (cr_Spec v)"
      "status_rep (hp_cells h1) (mo_Status c) P2 (cr_Status v)" "P1 \<inter> P2 = {}" "F' = P1 \<union> P2"
    using C(2) by (auto simp: object_rep_def)
  obtain Q1 where Q: "conds_rep (hp_cells h1) (mt_Conditions (mo_Status c)) Q1 (st_Conditions (cr_Status v))" "Q1 \<subseteq> P2"
    using P(2) by (auto simp: status_rep_def)
  obtain conds h2 s2 where up: "upsert_each (st_Conditions d) (mt_Conditions (mo_Status c)) h1 s = (conds, h2, s2)"
    by (metis prod_cases3)
  have u: "updated = c\<lparr>mo_Status := (mo_Status c)\<lparr>mt_ObservedGeneration := mt_ObservedGeneration desired,
      mt_EffectiveTenantId := mt_EffectiveTenantId desired, mt_ContributingPeers := mt_ContributingPeers desired,
      mt_Conditions := conds\<rparr>\<rparr>" "h' = h2" "s' = s2"
    using assms(5) by (auto simp: loki_updated_mem_def LokiTenantOverride_DeepCopy_def c range up Let_def)
  from upsert_each_rep[OF ok1 Q(1) up] obtain Q2 cs where U: "changes {} h1 h2"
      "op_upserts (st_Conditions (cr_Status v)) (st_Conditions d) s = (cs, s2)"
      "conds_rep (hp_cells h2) conds Q2 cs" "Q2 \<subseteq> Q1 \<union> fresh h1 h2"
    by blast
  let ?st = "(cr_Status v)\<lparr>st_ObservedGeneration := st_ObservedGeneration d,
    st_EffectiveTenantId := st_EffectiveTenantId d, st_ContributingPeers := st_ContributingPeers d,
    st_Conditions := cs\<rparr>"
  have fr: "Q2 \<subseteq> fresh h h2" "P1 \<subseteq> fresh h h1"
    using U(4) Q(2) P(4) C(3) changes_next[OF C(1)] changes_next[OF U(1)] by fastforce+
  have "peers_rep (hp_cells h2) (mt_ContributingPeers desired) G2 (st_ContributingPeers d)"
    by (rule peers.unchanged[OF U(1) ok1 _ G(2)]) simp
  moreover have "Q2 \<inter> G2 = {}" using fr(1) G2 by fastforce
  ultimately have st: "status_rep (hp_cells h2) (mo_Status updated) (Q2 \<union> G2) ?st"
    using U(3) G(4,5) by (auto simp: status_rep_def u(1))
  have sp: "spec_rep (hp_cells h2) (mo_Spec c) P1 (cr_Spec v)" by (rule spec.unchanged[OF U(1) ok1 _ P(1)]) simp
  have "P1 \<inter> Q2 = {}"
    using U(4) Q(2) P(3) fr(2) by fastforce
  moreover have "P1 \<inter> G2 = {}" using fr(2) G2 by fastforce
  ultimately have "object_rep (hp_cells h2) updated (P1 \<union> (Q2 \<union> G2)) (v\<lparr>cr_Status := ?st\<rparr>)"
    using st sp C(2) u(1) by (auto simp: object_rep_def)
  moreover have "updated_status (cr_Status v) d s = (?st, s')" by (simp add: updated_status_def U(2) u(3))
  moreover have "P1 \<union> (Q2 \<union> G2) \<subseteq> G \<union> fresh h h2"
    using fr G(3) changes_next[OF U(1)] by fastforce
  moreover have "changes {} h h'" unfolding u(2) by (rule changes_trans[OF C(1) U(1)]) simp
  ultimately show ?thesis unfolding u(2) by blast
qed

end
