(* ===== verification/Memory_Properties.thy ===== *)
theory Memory_Properties
  imports Merge_Heap Deep_Copies Samples
begin

text \<open>
  The properties of the code that works on shared memory: the merge of maps in place, and the deep
  copies of API objects on which status updates work.
\<close>

section \<open>The merge in memory\<close>

definition sample_cells :: cells where
  "sample_cells = [0 \<mapsto> MapCell [(''limits'', GMap 1)], 1 \<mapsto> MapCell [(''rate'', GNum 8)],
     2 \<mapsto> MapCell [(''limits'', GMap 3)], 3 \<mapsto> MapCell [(''tags'', GSlice 4)], 4 \<mapsto> SliceCell [GStr ''a'']]"

definition sample_heap :: any_heap where
  "sample_heap = \<lparr>hp_next = 5, hp_cells = sample_cells\<rparr>"

lemma sample_heap_ok: "heap_ok sample_heap"
  by (simp add: heap_ok_def sample_heap_def sample_cells_def)

lemma rep_single: "rep h g F v \<Longrightarrow> rep_entries h [(k, g)] F [(k, v)]"
  using rep_entries_Cons[OF _ rep_entries_Nil, of h g F v k] by simp

lemma sample_rep:
  "rep sample_cells (GMap 0) {0, 1} (Obj [(''limits'', Obj [(''rate'', Num 8)])])"
  "rep sample_cells (GMap 2) {2, 3, 4} (Obj [(''limits'', Obj [(''tags'', Arr [Str ''a''])])])"
proof -
  note obj = rep_Obj[where h = sample_cells] and arr = rep_Arr[where h = sample_cells]
    and single = rep_single[where h = sample_cells]
  have cells: "sample_cells 0 = Some (MapCell [(''limits'', GMap 1)])" "sample_cells 1 = Some (MapCell [(''rate'', GNum 8)])"
      "sample_cells 2 = Some (MapCell [(''limits'', GMap 3)])" "sample_cells 3 = Some (MapCell [(''tags'', GSlice 4)])"
      "sample_cells 4 = Some (SliceCell [GStr ''a''])"
    by (simp_all add: sample_cells_def)
  have "rep sample_cells (GMap 1) {1} (Obj [(''rate'', Num 8)])"
    by (rule obj[OF cells(2) single[OF rep_Num]]) simp
  from obj[OF cells(1) single[OF this]]
  show "rep sample_cells (GMap 0) {0, 1} (Obj [(''limits'', Obj [(''rate'', Num 8)])])" by simp
  have "rep_elems sample_cells [GStr ''a''] {} [Str ''a'']"
    using rep_elems_Cons[OF rep_Str rep_elems_Nil] by simp
  from arr[OF cells(5) this] have "rep sample_cells (GSlice 4) {4} (Arr [Str ''a''])" by simp
  from obj[OF cells(4) single[OF this]]
  have "rep sample_cells (GMap 3) {3, 4} (Obj [(''tags'', Arr [Str ''a''])])" by simp
  from obj[OF cells(3) single[OF this]]
  show "rep sample_cells (GMap 2) {2, 3, 4} (Obj [(''limits'', Obj [(''tags'', Arr [Str ''a''])])])" by simp
qed

text \<open>C17. \<open>DeepMerge\<close> in memory implements the functional merge: run on a destination and a source that
  share no cell, it returns the destination's own address, which now stands for \<open>DeepMerge\<close> of the
  two values; every cell that is neither new nor the destination's is as before, so the source still
  stands for its value; and the result shares no cell with the source.\<close>

theorem DeepMerge_heap_refines:
  assumes "heap_ok h" and "rep (hp_cells h) (GMap dst) F (Obj d)" and "rep (hp_cells h) (GMap src) G (Obj s)"
    and "F \<inter> G = {}" and "map_ok s" and "size (Obj s) < n"
  shows "\<exists>h' F'. DeepMerge_heap n (Some dst) src h = Some (dst, h') \<and>
    rep (hp_cells h') (GMap dst) F' (Obj (DeepMerge (Some d) s)) \<and>
    rep (hp_cells h') (GMap src) G (Obj s) \<and> F' \<inter> G = {} \<and>
    (\<forall>a < hp_next h. a \<notin> F \<longrightarrow> hp_cells h' a = hp_cells h a)"
proof -
  obtain h' F' where m: "merge_heap n dst src h = Some (dst, h')" "changes F h h'"
      "rep (hp_cells h') (GMap dst) F' (Obj (merge_into d s))" "F' \<subseteq> F \<union> fresh h h'"
    by (rule mergesE[OF merge_heap_merges[OF assms(5,6)] assms(1-4)])
  have "sources_ok n h F [(src, G, s)]" using assms by (simp add: sources_ok_def)
  from sources_ok_changes[OF this m(2) assms(1) m(4)] show ?thesis
    using m by (auto simp: DeepMerge_heap_def DeepMerge_def sources_ok_def changes_def)
qed

theorem DeepMerge_heap_refines_witness:
  "\<exists>h' F'. DeepMerge_heap 100 (Some 0) 2 sample_heap = Some (0, h') \<and>
     rep (hp_cells h') (GMap 0) F' (Obj [(''limits'', Obj [(''rate'', Num 8), (''tags'', Arr [Str ''a''])])]) \<and>
     F' \<inter> {2, 3, 4} = {}"
proof -
  have r: "rep (hp_cells sample_heap) (GMap 0) {0, 1} (Obj [(''limits'', Obj [(''rate'', Num 8)])])"
      "rep (hp_cells sample_heap) (GMap 2) {2, 3, 4} (Obj [(''limits'', Obj [(''tags'', Arr [Str ''a''])])])"
    using sample_rep by (simp_all add: sample_heap_def)
  have "DeepMerge (Some [(''limits'', Obj [(''rate'', Num 8)])]) [(''limits'', Obj [(''tags'', Arr [Str ''a''])])] =
      [(''limits'', Obj [(''rate'', Num 8), (''tags'', Arr [Str ''a''])])]"
    by (simp add: DeepMerge_def merge_into_Cons)
  then show ?thesis
    using DeepMerge_heap_refines[OF sample_heap_ok r, of 100] by auto
qed

text \<open>C18. The merge of a tenant's contributions in memory: started on a new map and run over any list of
  contributions, whether or not these share cells among themselves, it returns a map that stands for
  the functional merge in the same order, made of new cells only; no cell that existed before is
  written, so each contribution still stands for its value.\<close>

theorem merged_heap_refines:
  assumes "heap_ok h"
    and "\<And>a G s. (a, G, s) \<in> set cs \<Longrightarrow>
      rep (hp_cells h) (GMap a) G (Obj s) \<and> map_ok s \<and> size (Obj s) < n"
  shows "\<exists>a h' F. merged_heap n (map fst cs) h = Some (a, h') \<and>
    rep (hp_cells h') (GMap a) F (Obj (foldl (\<lambda>m s. DeepMerge (Some m) s) [] (map (\<lambda>c. snd (snd c)) cs))) \<and>
    (\<forall>b \<in> F. hp_next h \<le> b) \<and> (\<forall>b < hp_next h. hp_cells h' b = hp_cells h b) \<and>
    (\<forall>(b, G, s) \<in> set cs. rep (hp_cells h') (GMap b) G (Obj s))"
proof -
  have "sources_ok n h {} cs" using assms(2) by (auto simp: sources_ok_def)
  from merged_heap_rep[OF assms(1) this] obtain a h' F where R: "merged_heap n (map fst cs) h = Some (a, h')"
      "changes {} h h'" "F \<subseteq> fresh h h'" "sources_ok n h' F cs"
      "rep (hp_cells h') (GMap a) F (Obj (foldl merge_into [] (map (\<lambda>c. snd (snd c)) cs)))"
    by blast
  have "(\<lambda>m s. DeepMerge (Some m) s) = merge_into" by (simp add: DeepMerge_def fun_eq_iff)
  then show ?thesis
    using R by (intro exI[of _ a] exI[of _ h'] exI[of _ F]) (auto simp: changes_def sources_ok_def)
qed

definition sample_sources :: "(addr \<times> addr set \<times> anymap) list" where
  "sample_sources = [(0, {0, 1}, [(''limits'', Obj [(''rate'', Num 8)])]),
     (2, {2, 3, 4}, [(''limits'', Obj [(''tags'', Arr [Str ''a''])])]),
     (0, {0, 1}, [(''limits'', Obj [(''rate'', Num 8)])])]"

theorem merged_heap_refines_witness:
  "\<exists>a h' F. merged_heap 100 [0, 2, 0] sample_heap = Some (a, h') \<and>
     rep (hp_cells h') (GMap a) F (Obj [(''limits'', Obj [(''rate'', Num 8), (''tags'', Arr [Str ''a''])])]) \<and>
     (\<forall>b \<in> F. 5 \<le> b)"
proof -
  have src: "rep (hp_cells sample_heap) (GMap a) G (Obj s) \<and> map_ok s \<and> size (Obj s) < 100"
    if "(a, G, s) \<in> set sample_sources" for a G s
    using that sample_rep by (auto simp: sample_sources_def sample_heap_def)
  have "foldl (\<lambda>m s. DeepMerge (Some m) s) [] (map (\<lambda>c. snd (snd c)) sample_sources) =
      [(''limits'', Obj [(''rate'', Num 8), (''tags'', Arr [Str ''a''])])]"
    by (simp add: sample_sources_def DeepMerge_def merge_into_Cons)
  moreover have "map fst sample_sources = [0, 2, 0]" by (simp add: sample_sources_def)
  moreover have "hp_next sample_heap = 5" by (simp add: sample_heap_def)
  moreover from merged_heap_refines[OF sample_heap_ok src] obtain a h' F where
    "merged_heap 100 (map fst sample_sources) sample_heap = Some (a, h')"
    "rep (hp_cells h') (GMap a) F
      (Obj (foldl (\<lambda>m s. DeepMerge (Some m) s) [] (map (\<lambda>c. snd (snd c)) sample_sources)))"
    "\<forall>b \<in> F. hp_next sample_heap \<le> b" by blast
  ultimately show ?thesis by (intro exI[of _ a] exI[of _ h'] exI[of _ F]) simp
qed

section \<open>Deep copies\<close>

text \<open>C23. The deep copies of lists of objects, the same for both kinds: the copy stands for the same objects, in
  cells that did not exist before; no cell that existed is written; and whatever is later written to
  the new cells, the list that was copied still stands for the same objects.\<close>

theorem List_DeepCopy_isolates:
  assumes "copies_deeply k" and "heap_ok h" and "list_rep (hp_cells h) x F vs"
  shows "\<exists>y h' F'. LokiTenantOverrideList_DeepCopy k lm (Some x) h = (Some y, h') \<and>
    MimirTenantOverrideList_DeepCopy k lm (Some x) h = (Some y, h') \<and>
    list_rep (hp_cells h') y F' vs \<and> (\<forall>a \<in> F'. hp_next h \<le> a) \<and>
    (\<forall>a < hp_next h. hp_cells h' a = hp_cells h a) \<and>
    (\<forall>h''. changes {hp_next h..<hp_next h'} h' h'' \<longrightarrow> list_rep (hp_cells h'') x F vs)"
proof -
  obtain y h' where copy: "LokiTenantOverrideList_DeepCopyInto k lm x h = (y, h')" by fastforce
  then have "LokiTenantOverrideList_DeepCopy k lm (Some x) h = (Some y, h')"
      "MimirTenantOverrideList_DeepCopy k lm (Some x) h = (Some y, h')"
    by (simp_all add: LokiTenantOverrideList_DeepCopy_def MimirTenantOverrideList_DeepCopy_def Mimir_List_copies)
  moreover obtain F' where "changes {} h h'" "list_rep (hp_cells h') y F' vs" "F' \<subseteq> fresh h h'"
    by (rule loki_list.copiesE[OF assms copy])
  moreover have "list_rep (hp_cells h'') x F vs" if "changes (fresh h h') h' h''" for h''
    by (rule loki_list.original_kept[OF assms copy that])
  ultimately show ?thesis by (intro exI[of _ y] exI[of _ h'] exI[of _ F']) (auto simp: changes_def)
qed

text \<open>A concrete deep copy of a \<open>RawExtension\<close>, and a list of one object.\<close>

definition sample_copies :: k8s_copies where
  "sample_copies = \<lparr>kc_ObjectMeta = (\<lambda>m. m), kc_Condition = (\<lambda>c. c),
     kc_RawExtension = (\<lambda>p q h. case hp_cells h p of
       Some (RawCell (Some sl)) \<Rightarrow>
         (case hp_cells h (sl_arr sl) of
            Some (ByteArr bs) \<Rightarrow>
              (let (a, h1) = alloc (ByteArr (take (sl_len sl) bs)) h in
               store q (RawCell (Some \<lparr>sl_arr = a, sl_len = sl_len sl\<rparr>)) h1)
          | _ \<Rightarrow> h)
     | _ \<Rightarrow> h)\<rparr>"

lemma sample_copies_deep: "copies_deeply sample_copies"
proof -
  have "changes {q} h (kc_RawExtension sample_copies p q h) \<and>
      (\<exists>F'. raw_rep (hp_cells (kc_RawExtension sample_copies p q h)) q F' b \<and>
        F' \<subseteq> insert q (fresh h (kc_RawExtension sample_copies p q h)))"
    if ok: "heap_ok h" and r: "raw_rep (hp_cells h) p F b" and q: "hp_cells h q = Some (RawCell None)" and "q \<notin> F"
    for h p q F b
  proof (cases "hp_cells h p = Some (RawCell None)")
    case True
    then have "kc_RawExtension sample_copies p q h = h" by (simp add: sample_copies_def)
    moreover have "raw_rep (hp_cells h) q {q} b" using r q True by (auto simp: raw_rep_def)
    ultimately show ?thesis using ok by auto
  next
    case False
    then obtain sl bs where R: "hp_cells h p = Some (RawCell (Some sl))" "hp_cells h (sl_arr sl) = Some (ByteArr bs)"
        "sl_len sl \<le> length bs" "b = take (sl_len sl) bs"
      using r by (auto simp: raw_rep_def)
    obtain a h1 where al: "alloc (ByteArr b) h = (a, h1)" by fastforce
    have A: "changes {} h h1" "a = hp_next h" "hp_next h1 = Suc a" "hp_cells h1 a = Some (ByteArr b)"
      using changes_alloc[OF ok al] by auto
    let ?h2 = "store q (RawCell (Some \<lparr>sl_arr = a, sl_len = sl_len sl\<rparr>)) h1"
    have k: "kc_RawExtension sample_copies p q h = ?h2"
      using R al by (simp add: sample_copies_def)
    have lt: "q < hp_next h" by (rule cell_below[OF ok q])
    have C2: "changes {q} h1 ?h2" by (rule changes_store[OF changes_ok[OF A(1)]]) (use lt A(2,3) in simp)
    have "changes {q} h ?h2" by (rule changes_trans[OF changes_mono[OF A(1)] C2]) simp_all
    moreover have "raw_rep (hp_cells ?h2) q {q, a} b"
      using R(3,4) A(2,4) lt by (auto simp: raw_rep_def)
    ultimately show ?thesis unfolding k using A(2,3) by (intro conjI exI[of _ "{q, a}"]) auto
  qed
  then show ?thesis by (auto simp: copies_deeply_def sample_copies_def)
qed

definition mem_sample_object :: mem_Object where
  "mem_sample_object = zero_Object\<lparr>mo_Spec := \<lparr>ms_TenantId = ''t'', ms_Weight = 1, ms_Overrides = Some 0\<rparr>,
     mo_Status := \<lparr>mt_ObservedGeneration = 0, mt_EffectiveTenantId = ''t'',
       mt_Conditions = Some \<lparr>sl_arr = 2, sl_len = 1\<rparr>, mt_ContributingPeers = None\<rparr>\<rparr>"

definition sample_Condition :: Condition where
  "sample_Condition = zero_Condition\<lparr>cond_Type := ConditionValidated, cond_Status := ConditionTrue\<rparr>"

definition mem_sample_list :: mem_List where
  "mem_sample_list = \<lparr>ml_TypeMeta = \<lparr>tm_Kind = [], tm_APIVersion = []\<rparr>,
     ml_ListMeta = \<lparr>lm_ResourceVersion = ''7'', lm_Continue = []\<rparr>,
     ml_Items = Some \<lparr>sl_arr = 3, sl_len = 1\<rparr>\<rparr>"

definition mem_sample_heap :: obj_heap where
  "mem_sample_heap = \<lparr>hp_next = 5,
     hp_cells = [0 \<mapsto> RawCell (Some \<lparr>sl_arr = 1, sl_len = 2\<rparr>), 1 \<mapsto> ByteArr ''{}x'',
       2 \<mapsto> CondArr [sample_Condition, zero_Condition], 3 \<mapsto> ItemArr [mem_sample_object],
       4 \<mapsto> CondArr [sample_Condition\<lparr>cond_Status := ConditionFalse\<rparr>]]\<rparr>"

definition sample_value :: TenantOverride where
  "sample_value = \<lparr>cr_Namespace = [], cr_Name = [], cr_Generation = 0, cr_ResourceVersion = [],
     cr_Spec = \<lparr>spec_TenantId = ''t'', spec_Weight = 1, spec_Overrides = Some ''{}''\<rparr>,
     cr_Status = \<lparr>st_ObservedGeneration = 0, st_EffectiveTenantId = ''t'',
       st_Conditions = [sample_Condition], st_ContributingPeers = []\<rparr>\<rparr>"

lemma mem_sample_ok: "heap_ok mem_sample_heap"
  by (simp add: heap_ok_def mem_sample_heap_def)

lemma mem_sample_object_rep: "object_rep (hp_cells mem_sample_heap) mem_sample_object {0, 1, 2} sample_value"
proof -
  have "spec_rep (hp_cells mem_sample_heap) (mo_Spec mem_sample_object) {0, 1} (cr_Spec sample_value)"
    by (auto simp: spec_rep_def raw_rep_def mem_sample_heap_def mem_sample_object_def sample_value_def)
  moreover have "status_rep (hp_cells mem_sample_heap) (mo_Status mem_sample_object) {2} (cr_Status sample_value)"
    by (simp add: status_rep_def conds_rep_def peers_rep_def mem_sample_heap_def mem_sample_object_def sample_value_def)
  ultimately show ?thesis
    unfolding object_rep_def
    by (intro conjI exI[of _ "{0, 1}"] exI[of _ "{2}"])
      (auto simp: mem_sample_object_def sample_value_def zero_Object_def)
qed

lemma mem_sample_list_rep: "list_rep (hp_cells mem_sample_heap) mem_sample_list {0, 1, 2, 3} [sample_value]"
proof -
  have i: "items_rep (hp_cells mem_sample_heap) [mem_sample_object] {0, 1, 2} [sample_value]"
    using mem_sample_object_rep by simp
  have c: "hp_cells mem_sample_heap 3 = Some (ItemArr [mem_sample_object])" by (simp add: mem_sample_heap_def)
  have "sl_arr \<lparr>sl_arr = 3, sl_len = 1\<rparr> = 3" "ml_Items mem_sample_list = Some \<lparr>sl_arr = 3, sl_len = 1\<rparr>"
    by (simp_all add: mem_sample_list_def)
  with i c show ?thesis unfolding list_rep_def by (auto simp del: items_rep.simps intro!: exI[of _ "{0, 1, 2}"])
qed

theorem List_DeepCopy_isolates_witness:
  "\<exists>y h' F'. LokiTenantOverrideList_DeepCopy sample_copies (\<lambda>m. m) (Some mem_sample_list) mem_sample_heap =
       (Some y, h') \<and> list_rep (hp_cells h') y F' [sample_value] \<and> (\<forall>a \<in> F'. 5 \<le> a)"
proof -
  have "hp_next mem_sample_heap = 5" by (simp add: mem_sample_heap_def)
  with List_DeepCopy_isolates[OF sample_copies_deep mem_sample_ok mem_sample_list_rep, of "\<lambda>m. m"]
  show ?thesis by auto
qed

text \<open>C22. The status update of a listed object: the reconcilers deep-copy the object, assign the desired status
  to the copy and upsert the desired conditions one by one. Run in memory, this returns an object that
  stands for the listed one with \<open>updated_status\<close> as its status, the object that the list holds still
  stands for what it stood for, and the two share no cell.\<close>

theorem status_update_isolated:
  assumes "copies_deeply k" and "heap_ok h" and "object_rep (hp_cells h) cr F v"
    and "status_rep (hp_cells h) desired G d" and "F \<inter> G = {}"
  shows "\<exists>updated h' s' F' st. loki_updated_mem k cr desired h s = Some (updated, h', s') \<and>
    mimir_updated_mem k cr desired h s = Some (updated, h', s') \<and>
    updated_status (cr_Status v) d s = (st, s') \<and>
    object_rep (hp_cells h') updated F' (v\<lparr>cr_Status := st\<rparr>) \<and>
    object_rep (hp_cells h') cr F v \<and> F \<inter> F' = {} \<and>
    (\<forall>a < hp_next h. hp_cells h' a = hp_cells h a)"
proof -
  obtain updated h' s' where run: "loki_updated_mem k cr desired h s = Some (updated, h', s')"
    by (rule loki_updated_mem_runs)
  then have "mimir_updated_mem k cr desired h s = Some (updated, h', s')" by (simp add: mimir_updated_mem_loki)
  moreover from loki_updated_mem_rep[OF assms(1-4) run] obtain F' st where U: "changes {} h h'"
      "updated_status (cr_Status v) d s = (st, s')" "object_rep (hp_cells h') updated F' (v\<lparr>cr_Status := st\<rparr>)"
      "F' \<subseteq> G \<union> fresh h h'"
    by blast
  moreover have "object_rep (hp_cells h') cr F v" by (rule object.unchanged[OF U(1) assms(2) _ assms(3)]) simp
  moreover have "F \<inter> fresh h h' = {}" by (rule object.apart_of_fresh[OF assms(2,3) subset_refl])
  then have "F \<inter> F' = {}" using U(4) assms(5) by blast
  moreover have "\<forall>a < hp_next h. hp_cells h' a = hp_cells h a" using U(1) by (simp add: changes_def)
  ultimately show ?thesis using run by blast
qed

definition mem_sample_desired :: mem_Status where
  "mem_sample_desired = \<lparr>mt_ObservedGeneration = 1, mt_EffectiveTenantId = ''t'',
     mt_Conditions = Some \<lparr>sl_arr = 4, sl_len = 1\<rparr>, mt_ContributingPeers = None\<rparr>"

definition mem_sample_desired_value :: TenantOverrideStatus where
  "mem_sample_desired_value = \<lparr>st_ObservedGeneration = 1, st_EffectiveTenantId = ''t'',
     st_Conditions = [sample_Condition\<lparr>cond_Status := ConditionFalse\<rparr>], st_ContributingPeers = []\<rparr>"

theorem status_update_isolated_witness:
  "\<exists>updated h' s' F' st. loki_updated_mem sample_copies mem_sample_object mem_sample_desired mem_sample_heap sample_op =
       Some (updated, h', s') \<and>
     updated_status (cr_Status sample_value) mem_sample_desired_value sample_op = (st, s') \<and>
     object_rep (hp_cells h') updated F' (sample_value\<lparr>cr_Status := st\<rparr>) \<and>
     object_rep (hp_cells h') mem_sample_object {0, 1, 2} sample_value"
proof -
  have d: "status_rep (hp_cells mem_sample_heap) mem_sample_desired {4} mem_sample_desired_value"
    by (simp add: status_rep_def conds_rep_def peers_rep_def mem_sample_heap_def mem_sample_desired_def
        mem_sample_desired_value_def)
  show ?thesis
    using status_update_isolated[OF sample_copies_deep mem_sample_ok mem_sample_object_rep d, of sample_op] by auto
qed

end
