(* ===== verification/Api_Programs.thy ===== *)
theory Api_Programs
  imports Kinds Bootstrap
begin

text \<open>
  The handlers as programs: trees of calls to the API server, each with one branch per answer, and
  of local steps on the operator's own state (\<open>unit op\<close>, the state without a cluster). Run without
  interruption a program does what the handler does; but between any two of its calls others can now
  act.
\<close>

section \<open>Programs\<close>

datatype 'a prog = Return 'a
  | GetConfigMap NamespacedName "go_error + ConfigMap \<Rightarrow> 'a prog"
  | ApplyConfigMap ConfigMap string bool "go_error option \<Rightarrow> 'a prog"
  | ListObjects cr_kind "go_error + TenantOverride list \<Rightarrow> 'a prog"
  | GetObject cr_kind NamespacedName "go_error + TenantOverride \<Rightarrow> 'a prog"
  | UpdateStatus cr_kind TenantOverride "go_error option \<Rightarrow> 'a prog"
  | Local "unit op \<Rightarrow> unit op" "unit op \<Rightarrow> 'a prog"

text \<open>
  \<open>Local g f\<close> changes the own state by \<open>g\<close> and goes on with what \<open>f\<close> reads off the state before,
  in one step. Run to the end:
\<close>

primrec run :: "'a prog \<Rightarrow> 'w client \<Rightarrow> 'w \<times> unit op \<Rightarrow> 'a \<times> ('w \<times> unit op)" where
  "run (Return a) = (\<lambda>c wl. (a, wl))"
| "run (GetConfigMap n f) = (\<lambda>c wl. run (f (cl_GetConfigMap c n (fst wl))) c wl)"
| "run (ApplyConfigMap cm owner force f) =
     (\<lambda>c wl. let (err, w) = cl_ApplyConfigMap c cm owner force (fst wl) in run (f err) c (w, snd wl))"
| "run (ListObjects k f) = (\<lambda>c wl. run (f (list_of k c (fst wl))) c wl)"
| "run (GetObject k n f) = (\<lambda>c wl. run (f (get_of k c n (fst wl))) c wl)"
| "run (UpdateStatus k cr f) =
     (\<lambda>c wl. let (err, w) = update_of k c cr (fst wl) in run (f err) c (w, snd wl))"
| "run (Local g f) = (\<lambda>c wl. run (f (snd wl)) c (fst wl, g (snd wl)))"

section \<open>The handlers\<close>

text \<open>Each part of a handler takes the rest of it as an argument. \<open>internal/apply/apply.go\<close>:\<close>

definition apply_write_prog :: "NamespacedName \<Rightarrow> string \<Rightarrow> (go_error + apply_result \<Rightarrow> 'a prog) \<Rightarrow> 'a prog" where
  "apply_write_prog name body rest =
     ApplyConfigMap (desired_ConfigMap name body) FieldManager True (\<lambda>err. case err of
       Some err \<Rightarrow> rest (Inl (ErrWrap (''ssa apply configmap '' @ nn_String name) err))
     | None \<Rightarrow> GetConfigMap name (\<lambda>after. case after of
         Inl err \<Rightarrow> rest (Inl (ErrWrap (''re-get configmap '' @ nn_String name @ '' after apply'') err))
       | Inr after \<Rightarrow> rest (Inr \<lparr>res_Hash = Hash body, res_Generation = cm_Generation after, res_Skipped = False\<rparr>)))"

definition apply_prog :: "NamespacedName \<Rightarrow> string \<Rightarrow> (go_error + apply_result \<Rightarrow> 'a prog) \<Rightarrow> 'a prog" where
  "apply_prog name body rest = GetConfigMap name (\<lambda>live. case live of
       Inr live \<Rightarrow>
         if (case map_of (cm_Data live) DataKey of None \<Rightarrow> False | Some liveBody \<Rightarrow> Hash liveBody = Hash body)
         then rest (Inr \<lparr>res_Hash = Hash body, res_Generation = cm_Generation live, res_Skipped = True\<rparr>)
         else apply_write_prog name body rest
     | Inl err \<Rightarrow>
         if IsNotFound err then apply_write_prog name body rest
         else rest (Inl (ErrWrap (''get configmap '' @ nn_String name) err)))"

text \<open>\<open>internal/controller/bootstrap.go\<close>:\<close>

fun bootstrap_prog :: "yaml_encoder \<Rightarrow> bool \<Rightarrow> BootstrapTarget list \<Rightarrow> go_error option prog" where
  "bootstrap_prog enc cached [] = Return None"
| "bootstrap_prog enc cached (t # ts) = GetConfigMap (bt_OutputCM t) (\<lambda>live. case live of
       Inr live \<Rightarrow> Local (\<lambda>l. if cached then op_SetHash (bt_Name t) (Hash (cm_body DataKey live)) l else l)
         (\<lambda>l. bootstrap_prog enc cached ts)
     | Inl err \<Rightarrow>
         if \<not> IsNotFound err
         then Return (Some (ErrWrap (''bootstrap get '' @ nn_String (bt_OutputCM t) @ '' for '' @ bt_Name t) err))
         else (case Render enc [] of
             Inl err \<Rightarrow> Return (Some (ErrWrap (''bootstrap render for '' @ bt_Name t) err))
           | Inr body \<Rightarrow> apply_prog (bt_OutputCM t) body (\<lambda>res. case res of
               Inl err \<Rightarrow> Return (Some (ErrWrap (''bootstrap apply for '' @ bt_Name t) err))
             | Inr res \<Rightarrow> Local (\<lambda>l. if cached then op_SetHash (bt_Name t) (res_Hash res) l else l)
                 (\<lambda>l. bootstrap_prog enc cached ts))))"

text \<open>\<open>internal/controller/loki_controller.go\<close> and \<open>mimir_controller.go\<close>, by the kind:\<close>

fun list_error :: "cr_kind \<Rightarrow> string" where
  "list_error KindLoki = ''list LokiTenantOverrides''"
| "list_error KindMimir = ''list MimirTenantOverrides''"

definition checkDrift_prog :: "cr_kind \<Rightarrow> 'w target_struct \<Rightarrow> (bool \<times> string \<Rightarrow> 'a prog) \<Rightarrow> 'a prog" where
  "checkDrift_prog k r rest =
     (if \<not> r_HashCache r then rest (False, [])
      else Local id (\<lambda>l. case HashCache_Get (op_hashes l) (label_of k) of
          None \<Rightarrow> rest (False, [])
        | Some h \<Rightarrow> GetConfigMap (r_OutputCM r) (\<lambda>live. case live of
            Inl err \<Rightarrow> rest (False, [])
          | Inr live \<Rightarrow>
              if Hash (cm_body DataKey live) = h then rest (False, [])
              else rest (True, extractConflictingFieldManager (Some live) FieldManager))))"

fun merge_prog :: "cr_kind \<Rightarrow> 'w target_struct \<Rightarrow> Override list gomap \<Rightarrow> Output \<Rightarrow> FieldConflict list gomap \<Rightarrow>
    ((Output \<times> FieldConflict list gomap) outcome \<Rightarrow> 'a prog) \<Rightarrow> 'a prog" where
  "merge_prog k r [] out cs rest = rest (Done (out, cs))"
| "merge_prog k r ((t, g) # gs) out cs rest = (case TrackingMerge t (SortGroup g) of
       Panic msg \<Rightarrow> rest (Panic msg)
     | Done (merged, conflicts) \<Rightarrow>
         (case v_Validate (r_Validator r) merged of
            Some err \<Rightarrow> Local (op_Inc ValidationErrorsTotal [label_of k, t, ''merged_result_invalid''])
              (\<lambda>l. merge_prog k r gs out cs rest)
          | None \<Rightarrow> merge_prog k r gs (gomap_put t merged out) (gomap_put t conflicts cs) rest))"

fun update_prog :: "cr_kind \<Rightarrow> 'w target_struct \<Rightarrow> crEnvelope list \<Rightarrow> Override list \<Rightarrow> apply_result \<Rightarrow> bool \<Rightarrow>
    reconcile_end prog" where
  "update_prog k r [] valid res hit = Return (Returned (if hit then statusConflictRequeueDelay else 0) None)"
| "update_prog k r (e # envs) valid res hit =
     (let desired = spec_status (r_OutputCM r) e valid res in
      if \<not> needsUpdate (cr_Status (env_CR e)) desired then update_prog k r envs valid res hit
      else Local (\<lambda>l. snd (updated_status (cr_Status (env_CR e)) desired l))
        (\<lambda>l. UpdateStatus k ((env_CR e)\<lparr>cr_Status := fst (updated_status (cr_Status (env_CR e)) desired l)\<rparr>)
          (\<lambda>err. update_prog k r envs valid res (hit \<or> (case err of None \<Rightarrow> False | Some err \<Rightarrow> IsConflict err)))))"

text \<open>The gauges, the time stamp and the events and counters of the conflicts, before the statuses.\<close>

definition report :: "cr_kind \<Rightarrow> schedule \<Rightarrow> 'w target_struct \<Rightarrow> crEnvelope list \<Rightarrow> Output \<Rightarrow> FieldConflict list gomap \<Rightarrow>
    'v op \<Rightarrow> 'v op" where
  "report k sch r envs out cs s =
     (let s4 = op_SetGauge ActiveCRs [label_of k] (int (length envs)) s;
          s5 = op_SetGauge ActiveTenants [label_of k] (int (length out)) s4;
          (now, s6) = Now s5;
          s7 = op_SetGauge LastReconcileTimestamp [label_of k] ((now - unix_epoch) div 1000000000) s6
      in s7\<lparr>op_metrics := conflict_metrics (label_of k) (sch_conflicts sch cs) (op_metrics s7),
            op_events := op_events s7 @ (if r_Recorder r then conflict_events envs (sch_conflicts sch cs) else [])\<rparr>)"

definition finish_prog :: "cr_kind \<Rightarrow> schedule \<Rightarrow> 'w target_struct \<Rightarrow> bool \<times> string \<Rightarrow> crEnvelope list \<Rightarrow> Override list \<Rightarrow>
    Output \<Rightarrow> FieldConflict list gomap \<Rightarrow> apply_result \<Rightarrow> reconcile_end prog" where
  "finish_prog k sch r drift envs valid out cs res =
     Local (\<lambda>l. let l1 = op_Inc ReconcileTotal [label_of k, result_label (if res_Skipped res then ResultNoop else ResultSuccess)] l
                in if r_HashCache r then op_SetHash (label_of k) (res_Hash res) l1 else l1)
       (\<lambda>l. let go_on = Local (report k sch r envs out cs) (\<lambda>l. update_prog k r envs valid res False) in
          if fst drift \<and> r_Recorder r
          then GetConfigMap (r_OutputCM r) (\<lambda>live. case live of
              Inr live \<Rightarrow> Local (op_Event (cm_id live) EventTypeWarning ''ConfigMapDrifted''
                (''third-party write reverted (field manager: '' @ snd drift @ '')'')) (\<lambda>l. go_on)
            | Inl err \<Rightarrow> go_on)
          else go_on)"

definition publish_prog :: "cr_kind \<Rightarrow> libs \<Rightarrow> schedule \<Rightarrow> 'w target_struct \<Rightarrow> bool \<times> string \<Rightarrow> crEnvelope list \<Rightarrow>
    Override list \<Rightarrow> Output \<Rightarrow> FieldConflict list gomap \<Rightarrow> reconcile_end prog" where
  "publish_prog k lib sch r drift envs valid out cs =
     (case Render (lib_Encoder lib) out of
        Inl err \<Rightarrow> Local (op_Inc ReconcileTotal [label_of k, result_label ResultWriteFailed])
          (\<lambda>l. Return (Returned 0 (Some (ErrWrap ''render'' err))))
      | Inr body \<Rightarrow> Local (op_SetGauge OutputSizeBytes [label_of k] (int (length body)))
          (\<lambda>l. apply_prog (r_OutputCM r) body (\<lambda>res. case res of
             Inl err \<Rightarrow> Local (op_Inc ReconcileTotal [label_of k, result_label ResultWriteFailed])
               (\<lambda>l. Return (Returned 0 (Some (ErrWrap ''apply'' err))))
           | Inr res \<Rightarrow> finish_prog k sch r drift envs valid out cs res)))"

definition reconcile_prog :: "cr_kind \<Rightarrow> libs \<Rightarrow> schedule \<Rightarrow> 'w target_struct \<Rightarrow> reconcile_end prog" where
  "reconcile_prog k lib sch r = checkDrift_prog k r (\<lambda>drift.
     Local (\<lambda>l. if fst drift then op_Inc OutputDriftTotal [label_of k, snd drift] l else l)
       (\<lambda>l. ListObjects k (\<lambda>listed. case listed of
          Inl err \<Rightarrow> Local (op_Inc ReconcileTotal [label_of k, result_label ResultWriteFailed])
            (\<lambda>l. Return (Returned 0 (Some (ErrWrap (list_error k) err))))
        | Inr items \<Rightarrow>
            (let envs = map (spec_envelope lib (v_Validate (r_Validator r))) items in
             Local (\<lambda>l. foldl (\<lambda>l cr. count_invalid (label_of k) lib (v_Validate (r_Validator r)) cr l) l items)
               (\<lambda>l. merge_prog k r (sch_groups sch (GroupByTenant (valid_overrides envs))) [] [] (\<lambda>merged. case merged of
                  Panic msg \<Rightarrow> Return (Panicked msg)
                | Done (out, cs) \<Rightarrow> publish_prog k lib sch r drift envs (valid_overrides envs) out cs))))))"

text \<open>\<open>internal/controller/disabled.go\<close>:\<close>

definition disabled_prog :: "cr_kind \<Rightarrow> bool \<Rightarrow> NamespacedName \<Rightarrow> disabled_result prog" where
  "disabled_prog k recorder req = GetObject k req (\<lambda>got. case got of
       Inl err \<Rightarrow> Return (0, IgnoreNotFound err)
     | Inr cr \<Rightarrow> Local (\<lambda>l. snd (applyDisabledStatus recorder cr (label_of k) l))
         (\<lambda>l. let (changed, cr') = fst (applyDisabledStatus recorder cr (label_of k) l) in
            if \<not> changed then Return (0, None)
            else UpdateStatus k cr' (\<lambda>err. case err of
                None \<Rightarrow> Return (0, None)
              | Some err \<Rightarrow>
                  if IsConflict err then Return (statusConflictRequeueDelay, None)
                  else Return (0, IgnoreNotFound (ErrWrap ''update status'' err)))))"

section \<open>Programs and handlers agree\<close>

text \<open>A cluster and an own state make a state of the operator.\<close>

definition on :: "'w \<Rightarrow> 'v op \<Rightarrow> 'w op" where
  "on w l = \<lparr>op_cluster = w, op_hashes = op_hashes l, op_metrics = op_metrics l, op_events = op_events l, op_clock = op_clock l\<rparr>"

definition own :: "'w op \<Rightarrow> unit op" where
  "own s = on () s"

lemma on_own: "on (op_cluster s) (own s) = s"
  by (simp add: own_def on_def)

lemma on_simps [simp]:
  "op_cluster (on w l) = w" "op_hashes (on w l) = op_hashes l" "op_metrics (on w l) = op_metrics l"
  "op_events (on w l) = op_events l" "op_clock (on w l) = op_clock l"
  "op_Inc c ls (on w l) = on w (op_Inc c ls l)"
  "op_SetGauge g ls v (on w l) = on w (op_SetGauge g ls v l)"
  "op_SetHash t h (on w l) = on w (op_SetHash t h l)"
  "op_Event obj ty re m (on w l) = on w (op_Event obj ty re m l)"
  "op_SetCluster w' (on w l) = on w' l"
  by (simp_all add: on_def op_Inc_def op_SetGauge_def op_SetHash_def op_Event_def op_SetCluster_def)

lemma on_Now: "Now (on w l) = (fst (Now l), on w (snd (Now l)))"
  by (simp add: Now_def on_def)

lemma on_if: "(if b then on w l else on w l') = on w (if b then l else l')"
  by simp

lemma on_counts:
  "foldl (\<lambda>s cr. count_invalid label lib v cr s) (on w l) crs = on w (foldl (\<lambda>l cr. count_invalid label lib v cr l) l crs)"
proof (induction crs arbitrary: l)
  case (Cons cr crs)
  have "count_invalid label lib v cr (on w l) = on w (count_invalid label lib v cr l)"
    by (simp add: count_invalid_def split: sum.split option.split)
  then show ?case by (simp add: Cons.IH)
qed simp

lemma on_upsert: "op_upsert cs d (on w l) = (fst (op_upsert cs d l), on w (snd (op_upsert cs d l)))"
  by (simp add: op_upsert_def on_Now case_prod_beta)

lemma on_applyDisabled:
  "applyDisabledStatus rec cr t (on w l) = (fst (applyDisabledStatus rec cr t l), on w (snd (applyDisabledStatus rec cr t l)))"
  by (simp add: applyDisabledStatus_def Let_def on_upsert case_prod_beta)

lemma on_updated_status:
  "updated_status old desired (on w l) = (fst (updated_status old desired l), on w (snd (updated_status old desired l)))"
proof -
  have "op_upserts cs ds (on w l) = (fst (op_upserts cs ds l), on w (snd (op_upserts cs ds l)))" for cs ds
  proof (induction ds arbitrary: cs l)
    case (Cons d ds)
    show ?case by (simp add: Cons.IH on_upsert case_prod_beta)
  qed simp
  then show ?thesis by (simp add: updated_status_def case_prod_beta)
qed

text \<open>The sequential behaviour of the parts.\<close>

lemma run_apply_write:
  "run (apply_write_prog n body rest) c (w, l) =
     (let (res, w') = apply_write c n body w in run (rest res) c (w', l))"
  by (auto simp: apply_write_prog_def apply_write_def split: prod.splits option.splits sum.splits)

lemma run_apply:
  "run (apply_prog n body rest) c (w, l) = (let (res, w') = apply_ConfigMap c n body w in run (rest res) c (w', l))"
  by (auto simp: apply_prog_def apply_ConfigMap_def run_apply_write split: sum.splits)

lemma run_checkDrift:
  "run (checkDrift_prog k r rest) (r_Client r) (w, l) = run (rest (checkDrift_of k r (on w l))) (r_Client r) (w, l)"
  by (simp add: checkDrift_prog_def checkDrift_of_eq split: option.split sum.split)

text \<open>How \<open>on\<close> splits a state, and the parts of the reconcilers.\<close>

lemma own_on [simp]: "own (on w l) = l"
  by (cases l) (simp add: own_def on_def)

context target_reconciler
begin

lemma emit_eq:
  "emit r envs cs s = s\<lparr>op_metrics := conflict_metrics label cs (op_metrics s),
     op_events := op_events s @ (if r_Recorder r then conflict_events envs cs else [])\<rparr>"
  by (rule op.equality) (simp_all add: emit_keeps emit_metrics emit_events)

lemma run_merge:
  assumes "label = label_of k"
  shows "run (merge_prog k r gs out cs rest) c (w, l) =
    (case merge_groups r gs out cs (on w l) of (merged, s) \<Rightarrow> run (rest merged) c (op_cluster s, own s))"
proof (induction gs arbitrary: out cs l)
  case Nil
  show ?case by (simp add: merge_groups_Nil)
next
  case (Cons tg gs)
  obtain t g where tg: "tg = (t, g)" by fastforce
  show ?case
    unfolding tg merge_prog.simps merge_groups_Cons
    by (simp add: Cons.IH assms split: outcome.split option.split)
qed

lemma run_update:
  assumes "update_cr = update_of k"
  shows "run (update_prog k r envs valid res hit) (r_Client r) (w, l) =
    (case update_all r envs valid res hit (on w l) of (hit', s) \<Rightarrow>
       (Returned (if hit' then statusConflictRequeueDelay else 0) None, (op_cluster s, own s)))"
proof (induction envs arbitrary: hit w l)
  case Nil
  show ?case by (simp add: update_all_Nil)
next
  case (Cons e envs)
  show ?case
    by (simp add: update_all_Cons update_one_eq Let_def on_updated_status Cons.IH assms case_prod_beta)
qed

lemma run_finish:
  assumes "label = label_of k" and "update_cr = update_of k"
  shows "run (finish_prog k sch r drift envs valid out cs res) (r_Client r) (w, l) =
    (case finish sch r drift envs valid out cs res (on w l) of (e, s) \<Rightarrow> (e, (op_cluster s, own s)))"
proof -
  let ?gauges = "\<lambda>s. op_SetGauge ActiveTenants [label_of k] (int (length out)) (op_SetGauge ActiveCRs [label_of k] (int (length envs)) s)"
  let ?stamp = "\<lambda>s. op_SetGauge LastReconcileTimestamp [label_of k] ((fst (Now (?gauges s)) - unix_epoch) div 1000000000) (snd (Now (?gauges s)))"
  have rep: "emit r envs (sch_conflicts sch cs) (on v (?stamp l)) = on v (report k sch r envs out cs l)" for v and l :: "unit op"
    by (rule op.equality) (simp_all add: emit_eq report_def Let_def assms(1) case_prod_beta)
  have tail: "run (update_prog k r envs valid res False) (r_Client r) (v, report k sch r envs out cs l) =
      (case update_all r envs valid res False (emit r envs (sch_conflicts sch cs) (on v (?stamp l))) of (hit, s) \<Rightarrow>
         (Returned (if hit then statusConflictRequeueDelay else 0) None, (op_cluster s, own s)))" for v and l :: "unit op"
    by (simp only: rep run_update[OF assms(2)])
  show ?thesis
    unfolding finish_prog_def finish_eq Let_def case_prod_beta
    by (cases "fst drift"; cases "r_Recorder r"; cases "r_HashCache r"; cases "cl_GetConfigMap (r_Client r) (r_OutputCM r) w")
      (simp_all add: tail on_Now assms(1) case_prod_beta)
qed

lemma run_publish:
  assumes "label = label_of k" and "update_cr = update_of k"
  shows "run (publish_prog k lib sch r drift envs valid out cs) (r_Client r) (w, l) =
    (case publish lib sch r drift envs valid out cs (on w l) of (e, s) \<Rightarrow> (e, (op_cluster s, own s)))"
  by (simp add: publish_prog_def publish_eq Let_def run_apply run_finish[OF assms] assms(1) case_prod_beta
      split: sum.split prod.split)

lemma run_Reconcile:
  assumes "label = label_of k" and "update_cr = update_of k" and "list_crs = list_of k" and "list_err = list_error k"
    and "\<And>r s. checkDrift r s = checkDrift_of k r s"
  shows "run (reconcile_prog k lib sch r) (r_Client r) (w, l) =
    (case Reconcile lib sch r (on w l) of (e, s) \<Rightarrow> (e, (op_cluster s, own s)))"
  unfolding reconcile_prog_def Reconcile_eq run_checkDrift Let_def
  by (simp add: gather_eq on_if on_own run_merge[OF assms(1)] run_publish[OF assms(1,2)] on_counts assms(1) assms(3-5)
      case_prod_beta split: sum.split outcome.split prod.split)

end

text \<open>Run without interruption, the programs are the handlers.\<close>

lemma run_reconcile:
  "run (reconcile_prog k lib sch r) (r_Client r) (w, l) =
     (case Reconcile_of k lib sch r (on w l) of (e, s) \<Rightarrow> (e, (op_cluster s, own s)))"
  by (cases k) (simp_all add: loki.run_Reconcile[where k = KindLoki] mimir.run_Reconcile[where k = KindMimir])

lemma run_bootstrap:
  "run (bootstrap_prog enc (b_HashCache b) ts) (b_Client b) (w, l) =
     (case bootstrap_targets enc b ts (on w l) of (err, s) \<Rightarrow> (err, (op_cluster s, own s)))"
proof (induction ts arbitrary: w l)
  case (Cons t ts)
  show ?case
    by (simp add: bootstrap_target_def run_apply on_if Cons.IH split: sum.split prod.split)
qed simp

lemma run_disabled:
  "run (disabled_prog k (d_Recorder d) req) (d_Client d) (w, l) =
     (case disabled_Reconcile_of k d req (on w l) of (res, s) \<Rightarrow> (res, (op_cluster s, own s)))"
  by (cases k) (simp_all add: disabled_prog_def loki_disabled_Reconcile_def mimir_disabled_Reconcile_def on_applyDisabled
      lokiTargetLabel_def mimirTargetLabel_def Let_def case_prod_beta split: sum.split option.split)

text \<open>Without interruption, whatever becomes of the result.\<close>

lemma run_map: "run (map_prog f p) c wl = (case run p c wl of (a, wl') \<Rightarrow> (f a, wl'))"
  by (induction p arbitrary: wl) (simp_all add: case_prod_beta)

end
