(* ===== verification/Interleaving.thy ===== *)
theory Interleaving
  imports Api_Programs Operator_Runs
begin

text \<open>
  The running operator call by call. In \<open>Operator_Runs\<close> a run of a handler is one step; here the
  handlers that \<open>main\<close> has registered run as threads, a step is one call to the API server or one
  local step of one thread, and others may act at any time. A controller runs one reconcile at a time
  (the default of controller-runtime, which the code does not change); the bootstrap runs beside them.
\<close>

section \<open>Steps\<close>

text \<open>One step of a program on a client.\<close>

fun next_step :: "'a prog \<Rightarrow> 'w client \<Rightarrow> 'w \<times> unit op \<Rightarrow> 'a prog \<times> ('w \<times> unit op)" where
  "next_step (Return a) c (w, l) = (Return a, (w, l))"
| "next_step (GetConfigMap n f) c (w, l) = (f (cl_GetConfigMap c n w), (w, l))"
| "next_step (ApplyConfigMap cm owner force f) c (w, l) =
     (let (err, w') = cl_ApplyConfigMap c cm owner force w in (f err, (w', l)))"
| "next_step (ListObjects k f) c (w, l) = (f (list_of k c w), (w, l))"
| "next_step (GetObject k n f) c (w, l) = (f (get_of k c n w), (w, l))"
| "next_step (UpdateStatus k cr f) c (w, l) = (let (err, w') = update_of k c cr w in (f err, (w', l)))"
| "next_step (Local g f) c (w, l) = (f l, (w, g l))"

fun returned :: "'a prog \<Rightarrow> bool" where
  "returned (Return a) = True"
| "returned _ = False"

datatype handler = Reconciles cr_kind | Disables cr_kind | Bootstraps

record 'w system =
  sy_cluster :: 'w
  sy_own :: "unit op"
  sy_threads :: "(handler \<times> op_action prog) list"

datatype sys_event = Begins handler | Goes handler | Ends handler op_action
  | NewProcess | Objects | Foreign NamespacedName

fun disabled_of :: "cr_kind \<Rightarrow> ('w, 'l, 'm, 'q) startup \<Rightarrow> 'w disabled_struct \<Rightarrow> bool" where
  "disabled_of KindLoki st d = (LokiDisabled d \<in> fst ` set (su_controllers st))"
| "disabled_of KindMimir st d = (MimirDisabled d \<in> fst ` set (su_controllers st))"

definition reconcile_thread :: "cr_kind \<Rightarrow> libs \<Rightarrow> schedule \<Rightarrow> 'w target_struct \<Rightarrow> op_action prog" where
  "reconcile_thread k lib sch r = map_prog (DidReconcile k) (reconcile_prog k lib sch r)"

definition disabled_thread :: "cr_kind \<Rightarrow> 'w disabled_struct \<Rightarrow> NamespacedName \<Rightarrow> op_action prog" where
  "disabled_thread k d req = map_prog (\<lambda>res. DidDisabled k) (disabled_prog k (d_Recorder d) req)"

text \<open>The threads of a new process: the bootstrap, if there is one.\<close>

definition first_threads :: "libs \<Rightarrow> ('w, 'l, 'm, 'q) startup \<Rightarrow> (handler \<times> op_action prog) list" where
  "first_threads lib st = (case su_bootstrap st of
       None \<Rightarrow> []
     | Some b \<Rightarrow> [(Bootstraps, map_prog DidBootstrap (bootstrap_prog (lib_Encoder lib) (b_HashCache b) (b_Targets b)))])"

text \<open>As in \<open>Operator_Runs\<close>, \<open>c0\<close> is the server, and each call may fail (\<open>failing_version c0 c\<close>).\<close>

inductive sys_step :: "libs \<Rightarrow> 'w client \<Rightarrow> ('w, 'l, 'm, 'q) startup \<Rightarrow> 'w system \<Rightarrow> sys_event \<Rightarrow> 'w system \<Rightarrow> bool"
  for lib :: libs and c0 :: "'w client" and st :: "('w, 'l, 'm, 'q) startup" where
  begin_reconcile: "active_of k st r \<Longrightarrow> fair sch \<Longrightarrow> Reconciles k \<notin> fst ` set (sy_threads \<sigma>) \<Longrightarrow>
    sys_step lib c0 st \<sigma> (Begins (Reconciles k))
      (\<sigma>\<lparr>sy_threads := sy_threads \<sigma> @ [(Reconciles k, reconcile_thread k lib sch r)]\<rparr>)"
| begin_disabled: "disabled_of k st d \<Longrightarrow> Disables k \<notin> fst ` set (sy_threads \<sigma>) \<Longrightarrow>
    sys_step lib c0 st \<sigma> (Begins (Disables k))
      (\<sigma>\<lparr>sy_threads := sy_threads \<sigma> @ [(Disables k, disabled_thread k d req)]\<rparr>)"
| thread_goes: "sy_threads \<sigma> = ts @ (h, p) # us \<Longrightarrow> \<not> returned p \<Longrightarrow> failing_version c0 c \<Longrightarrow>
    next_step p c (sy_cluster \<sigma>, sy_own \<sigma>) = (p', (w, l)) \<Longrightarrow>
    sys_step lib c0 st \<sigma> (Goes h) \<lparr>sy_cluster = w, sy_own = l, sy_threads = ts @ (h, p') # us\<rparr>"
| thread_ends: "sy_threads \<sigma> = ts @ (h, Return a) # us \<Longrightarrow>
    sys_step lib c0 st \<sigma> (Ends h a) (\<sigma>\<lparr>sy_threads := ts @ us\<rparr>)"
| new_process: "op_hashes l = NewHashCache \<Longrightarrow>
    sys_step lib c0 st \<sigma> NewProcess \<lparr>sy_cluster = sy_cluster \<sigma>, sy_own = l, sy_threads = first_threads lib st\<rparr>"
| objects_change: "\<forall>n. cl_GetConfigMap c0 n w = cl_GetConfigMap c0 n (sy_cluster \<sigma>) \<Longrightarrow>
    sys_step lib c0 st \<sigma> Objects (\<sigma>\<lparr>sy_cluster := w\<rparr>)"
| foreign_write: "\<forall>m. m \<noteq> n \<longrightarrow> cl_GetConfigMap c0 m w = cl_GetConfigMap c0 m (sy_cluster \<sigma>) \<Longrightarrow>
    sys_step lib c0 st \<sigma> (Foreign n) (\<sigma>\<lparr>sy_cluster := w\<rparr>)"

inductive sys_steps :: "libs \<Rightarrow> 'w client \<Rightarrow> ('w, 'l, 'm, 'q) startup \<Rightarrow> 'w system \<Rightarrow> sys_event list \<Rightarrow> 'w system \<Rightarrow> bool"
  for lib :: libs and c0 :: "'w client" and st :: "('w, 'l, 'm, 'q) startup" and \<sigma>0 :: "'w system" where
  sys_none: "sys_steps lib c0 st \<sigma>0 [] \<sigma>0"
| sys_snoc: "sys_steps lib c0 st \<sigma>0 evs \<sigma> \<Longrightarrow> sys_step lib c0 st \<sigma> ev \<sigma>' \<Longrightarrow> sys_steps lib c0 st \<sigma>0 (evs @ [ev]) \<sigma>'"

lemma sys_Cons:
  assumes "sys_step lib c0 st \<sigma>0 ev \<sigma>1"
  shows "sys_steps lib c0 st \<sigma>1 evs \<sigma> \<Longrightarrow> sys_steps lib c0 st \<sigma>0 (ev # evs) \<sigma>"
proof (induction rule: sys_steps.induct)
  case sys_none
  show ?case using sys_snoc[OF sys_steps.sys_none assms] by simp
next
  case (sys_snoc evs \<sigma> ev' \<sigma>')
  show ?case using sys_steps.sys_snoc[OF sys_snoc.IH sys_snoc.hyps(2)] by simp
qed

lemma sys_append:
  "sys_steps lib c0 st \<sigma>1 evs' \<sigma>2 \<Longrightarrow> sys_steps lib c0 st \<sigma>0 evs \<sigma>1 \<Longrightarrow> sys_steps lib c0 st \<sigma>0 (evs @ evs') \<sigma>2"
proof (induction rule: sys_steps.induct)
  case (sys_snoc evs' \<sigma> ev \<sigma>')
  then show ?case using sys_steps.sys_snoc[OF sys_snoc.IH[OF sys_snoc.prems] sys_snoc.hyps(2)] by simp
qed simp

text \<open>What a process can reach from its start.\<close>

definition process_reaches :: "libs \<Rightarrow> 'w client \<Rightarrow> ('w, 'l, 'm, 'q) startup \<Rightarrow> sys_event list \<Rightarrow> 'w system \<Rightarrow> bool" where
  "process_reaches lib c0 st evs \<sigma> \<longleftrightarrow> (\<exists>\<sigma>0. op_hashes (sy_own \<sigma>0) = NewHashCache \<and>
     sy_threads \<sigma>0 = first_threads lib st \<and> sys_steps lib c0 st \<sigma>0 evs \<sigma>)"

section \<open>Programs that leave a target alone\<close>

text \<open>The program neither applies the config map \<open>n\<close> nor changes the hash under the label \<open>lb\<close>.\<close>

primrec harmless :: "string \<Rightarrow> NamespacedName \<Rightarrow> 'a prog \<Rightarrow> bool" where
  "harmless lb n (Return a) = True"
| "harmless lb n (GetConfigMap m f) = (\<forall>x. harmless lb n (f x))"
| "harmless lb n (ApplyConfigMap cm owner force f) = (cm_id cm \<noteq> n \<and> (\<forall>x. harmless lb n (f x)))"
| "harmless lb n (ListObjects k f) = (\<forall>x. harmless lb n (f x))"
| "harmless lb n (GetObject k m f) = (\<forall>x. harmless lb n (f x))"
| "harmless lb n (UpdateStatus k cr f) = (\<forall>x. harmless lb n (f x))"
| "harmless lb n (Local g f) =
     ((\<forall>l. HashCache_Get (op_hashes (g l)) lb = HashCache_Get (op_hashes l) lb) \<and> (\<forall>l. harmless lb n (f l)))"

lemma harmless_map: "harmless lb n (map_prog f p) = harmless lb n p"
  by (induction p) simp_all

text \<open>What a program can see of a target: its config map and its hash in the cache.\<close>

definition view :: "'w client \<Rightarrow> string \<Rightarrow> NamespacedName \<Rightarrow> 'w \<times> unit op \<Rightarrow> (go_error + ConfigMap) \<times> string option" where
  "view c0 lb n wl = (cl_GetConfigMap c0 n (fst wl), HashCache_Get (op_hashes (snd wl)) lb)"

lemma apply_elsewhere:
  assumes "orderly c0" and "failing_version c0 c" and "cl_ApplyConfigMap c cm owner force w = (err, w')" and "n \<noteq> cm_id cm"
  shows "cl_GetConfigMap c0 n w' = cl_GetConfigMap c0 n w"
proof -
  obtain e0 w0 where w0: "cl_ApplyConfigMap c0 cm owner force w = (e0, w0)" by fastforce
  then have "cl_GetConfigMap c0 n w0 = cl_GetConfigMap c0 n w"
    using orderlyD(2)[OF assms(1)] assms(4) unfolding apply_local_def by blast
  then show ?thesis
    using may_fail_state[OF flakyD(3)[OF failing_versionD(1)[OF assms(2), of KindLoki], of w cm owner force, unfolded assms(3)]] w0
    by auto
qed

lemma status_elsewhere:
  assumes "orderly c0" and "failing_version c0 c" and "update_of k c cr w = (err, w')"
  shows "cl_GetConfigMap c0 n w' = cl_GetConfigMap c0 n w"
  using status_local_flaky[OF failing_versionD(1)[OF assms(2)] orderlyD(3)[OF assms(1)]] assms(3)
  unfolding status_local_def by blast

lemma harmless_step:
  assumes "harmless lb n p" and "orderly c0" and "failing_version c0 c" and "next_step p c (w, l) = (p', (w', l'))"
  shows "harmless lb n p'" and "view c0 lb n (w', l') = view c0 lb n (w, l)"
proof -
  have "harmless lb n p' \<and> view c0 lb n (w', l') = view c0 lb n (w, l)"
    using assms(1,4)
  proof (cases p)
    case (ApplyConfigMap cm owner force f)
    then show ?thesis using assms(1,4) apply_elsewhere[OF assms(2,3), of cm owner force w] by (auto simp: view_def split: prod.splits)
  next
    case (UpdateStatus k cr f)
    then show ?thesis using assms(1,4) status_elsewhere[OF assms(2,3), of k cr w] by (auto simp: view_def split: prod.splits)
  qed (auto simp: view_def)
  then show "harmless lb n p'" and "view c0 lb n (w', l') = view c0 lb n (w, l)" by simp_all
qed

text \<open>The handlers of other targets are harmless.\<close>

lemma harmless_apply:
  "(\<And>res. harmless lb n (rest res)) \<Longrightarrow> m \<noteq> n \<Longrightarrow> harmless lb n (apply_prog m body rest)"
  by (auto simp: apply_prog_def apply_write_prog_def split: sum.split option.split)

lemma harmless_merge: "(\<And>o1. harmless lb n (rest o1)) \<Longrightarrow> harmless lb n (merge_prog k r gs out cs rest)"
  by (induction k r gs out cs rest rule: merge_prog.induct) (auto split: outcome.split option.split)

lemma updated_status_hashes: "op_hashes (snd (updated_status old desired l)) = op_hashes l"
proof -
  have "same_but_clock l (snd (op_upserts (st_Conditions old) (st_Conditions desired) l))"
    using op_upserts_clock by (metis prod.collapse)
  then show ?thesis by (simp add: updated_status_def case_prod_beta same_but_clock_def)
qed

lemma harmless_update: "harmless lb n (update_prog k r envs valid res hit)"
  by (induction k r envs valid res hit rule: update_prog.induct) (auto simp: Let_def updated_status_hashes)

lemma report_hashes: "op_hashes (report k sch r envs out cs l) = op_hashes l"
  by (simp add: report_def Let_def Now_def)

lemma counts_hashes: "op_hashes (foldl (\<lambda>l cr. count_invalid lb lib v cr l) l crs) = op_hashes l"
  using only_metrics_counts[OF only_metrics_refl, of l lb lib v crs] by (simp add: only_metrics_def)

lemma harmless_reconcile:
  assumes "label_of k \<noteq> lb" and "r_OutputCM r \<noteq> n"
  shows "harmless lb n (reconcile_prog k lib sch r)"
proof -
  have fin: "harmless lb n (finish_prog k sch r drift envs valid out cs res)" for drift envs valid out cs res
    using assms(1) by (auto simp: finish_prog_def Let_def harmless_update report_hashes hashes.lookup_put split: sum.split)
  have "harmless lb n (publish_prog k lib sch r drift envs valid out cs)" for drift envs valid out cs
    unfolding publish_prog_def using assms(2) fin[of drift envs valid out cs]
    by (auto split: sum.split intro!: harmless_apply)
  then show ?thesis
    by (auto simp: reconcile_prog_def checkDrift_prog_def Let_def counts_hashes split: option.split sum.split outcome.split
        intro!: harmless_merge)
qed

lemma harmless_disabled: "harmless lb n (disabled_prog k recorder req)"
proof -
  have "op_hashes (snd (applyDisabledStatus recorder cr (label_of k) l)) = op_hashes l" for cr and l :: "unit op"
    using applyDisabled_result(8) by (metis prod.collapse)
  then show ?thesis by (auto simp: disabled_prog_def case_prod_beta split: sum.split option.split)
qed

section \<open>What a reconcile brings about while others act\<close>

type_synonym target_view = "(go_error + ConfigMap) \<times> string option"

text \<open>
  The program brings about \<open>post\<close> from the view \<open>v\<close> of its target on, if only its own steps change
  the view. Nothing else of the cluster is relied on, so whatever it reads there is arbitrary. \<open>g\<close> are
  the objects it has listed.
\<close>

primrec brings :: "cr_kind \<Rightarrow> string \<Rightarrow> NamespacedName \<Rightarrow> ('a \<Rightarrow> target_view \<Rightarrow> TenantOverride list option \<Rightarrow> bool) \<Rightarrow>
    'a prog \<Rightarrow> target_view \<Rightarrow> TenantOverride list option \<Rightarrow> bool" where
  "brings k lb n post (Return a) = (\<lambda>v g. post a v g)"
| "brings k lb n post (GetConfigMap m f) = (\<lambda>v g.
     \<forall>x. (m = n \<longrightarrow> x = fst v \<or> (\<exists>e. x = Inl e \<and> \<not> IsNotFound e)) \<longrightarrow> brings k lb n post (f x) v g)"
| "brings k lb n post (ApplyConfigMap cm owner force f) = (\<lambda>v g.
     \<forall>err x. (cm_id cm \<noteq> n \<longrightarrow> x = fst v) \<longrightarrow>
       (cm_id cm = n \<and> force \<and> err = None \<longrightarrow> (\<exists>live. x = Inr live \<and>
          (\<forall>key b. map_of (cm_Data cm) key = Some b \<longrightarrow> map_of (cm_Data live) key = Some b))) \<longrightarrow>
       brings k lb n post (f err) (x, snd v) g)"
| "brings k lb n post (ListObjects k' f) = (\<lambda>v g.
     \<forall>x. brings k lb n post (f x) v (if k' = k then (case x of Inl e \<Rightarrow> g | Inr items \<Rightarrow> Some items) else g))"
| "brings k lb n post (GetObject k' m f) = (\<lambda>v g. \<forall>x. brings k lb n post (f x) v g)"
| "brings k lb n post (UpdateStatus k' cr f) = (\<lambda>v g. \<forall>x. brings k lb n post (f x) v g)"
| "brings k lb n post (Local u f) = (\<lambda>v g. \<forall>l. HashCache_Get (op_hashes l) lb = snd v \<longrightarrow>
     brings k lb n post (f l) (fst v, HashCache_Get (op_hashes (u l)) lb) g)"

lemma brings_map: "brings k lb n post (map_prog f p) = brings k lb n (\<lambda>a. post (f a)) p"
  by (induction p) simp_all

lemma apply_here:
  assumes "orderly c0" and "failing_version c0 c" and "cl_ApplyConfigMap c cm owner True w = (None, w')"
  shows "\<exists>live. cl_GetConfigMap c0 (cm_id cm) w' = Inr live \<and>
    (\<forall>key b. map_of (cm_Data cm) key = Some b \<longrightarrow> map_of (cm_Data live) key = Some b)"
proof -
  have "cl_ApplyConfigMap c0 cm owner True w = (None, w')"
    using flakyD(3)[OF failing_versionD(1)[OF assms(2), of KindLoki], of w cm owner True] assms(3) by (auto simp: may_fail_def)
  then show ?thesis using orderlyD(1)[OF assms(1)] unfolding apply_visible_def by blast
qed

lemma brings_step:
  assumes "brings k lb n post p (view c0 lb n (w, l)) g" and "orderly c0" and "failing_version c0 c"
    and "next_step p c (w, l) = (p', (w', l'))"
  shows "\<exists>g'. brings k lb n post p' (view c0 lb n (w', l')) g' \<and> (g' = g \<or> (\<exists>items. g' = Some items \<and> list_of k c0 w = Inr items))"
proof (cases p)
  case (GetConfigMap m f)
  then have "brings k lb n post p' (view c0 lb n (w', l')) g"
    using assms(1,4) flakyD(1)[OF failing_versionD(1)[OF assms(3), of KindLoki], of m w]
    by (auto simp: view_def)
  then show ?thesis by blast
next
  case (ApplyConfigMap cm owner force f)
  obtain err w1 where ap: "cl_ApplyConfigMap c cm owner force w = (err, w1)" by fastforce
  then have p': "p' = f err" "w' = w1" "l' = l" using assms(4) ApplyConfigMap by auto
  have "cm_id cm \<noteq> n \<longrightarrow> cl_GetConfigMap c0 n w1 = cl_GetConfigMap c0 n w"
    using apply_elsewhere[OF assms(2,3) ap, of n] by auto
  moreover have "cm_id cm = n \<and> force \<and> err = None \<longrightarrow> (\<exists>live. cl_GetConfigMap c0 n w1 = Inr live \<and>
      (\<forall>key b. map_of (cm_Data cm) key = Some b \<longrightarrow> map_of (cm_Data live) key = Some b))"
    using apply_here[OF assms(2,3), of cm owner w w1] ap by auto
  ultimately show ?thesis using assms(1) by (auto simp: ApplyConfigMap p' view_def)
next
  case (ListObjects k' f)
  have "list_of k c w = list_of k c0 w \<or> (\<exists>e. list_of k c w = Inl e)"
    by (rule flakyD(2)[OF failing_versionD(1)[OF assms(3)]])
  moreover have "brings k lb n post p' (view c0 lb n (w', l'))
      (if k' = k then (case list_of k' c w of Inl e \<Rightarrow> g | Inr items \<Rightarrow> Some items) else g)"
    using assms(1,4) by (auto simp: ListObjects)
  ultimately show ?thesis
    by (cases "list_of k' c w"; cases "k' = k"; cases "list_of k c0 w") (auto intro: exI[of _ g] split: if_splits)
next
  case (UpdateStatus k' cr f)
  obtain err w1 where up: "update_of k' c cr w = (err, w1)" by fastforce
  then show ?thesis using assms(1,4) status_elsewhere[OF assms(2,3) up] by (auto simp: UpdateStatus view_def)
qed (use assms(1,4) in \<open>auto simp: view_def\<close>)

text \<open>The parts of a reconcile.\<close>

lemma brings_apply:
  assumes "\<And>err x. brings k lb n post (rest (Inl err)) (x, snd v) g"
    and "\<And>res live b. res_Hash res = Hash body \<Longrightarrow> map_of (cm_Data live) DataKey = Some b \<Longrightarrow> Hash b = Hash body \<Longrightarrow>
      brings k lb n post (rest (Inr res)) (Inr live, snd v) g"
  shows "brings k lb n post (apply_prog n body rest) v g"
proof -
  have failed: "brings k lb n post (rest (Inl err)) v g" for err
    using assms(1)[of err "fst v"] by simp
  have "brings k lb n post (apply_write_prog n body rest) v g"
    by (auto simp: apply_write_prog_def intro!: assms split: option.split sum.split)
  moreover have "brings k lb n post (rest (Inr res)) v g"
    if "fst v = Inr live" "map_of (cm_Data live) DataKey = Some b" "Hash b = Hash body" "res_Hash res = Hash body" for live b res
    using assms(2)[OF that(4,2,3)] that(1) by (metis prod.collapse)
  ultimately show ?thesis
    by (auto simp: apply_prog_def failed split: sum.split option.splits)
qed

lemma brings_update:
  assumes "\<And>q. post (Returned q None) v g"
  shows "brings k lb n post (update_prog k' r envs valid res hit) v g"
  by (induction k' r envs valid res hit rule: update_prog.induct) (auto simp: Let_def assms updated_status_hashes)

text \<open>The body that the objects define is in place, and so is its hash.\<close>

definition published :: "libs \<Rightarrow> 'w target_struct \<Rightarrow> TenantOverride list \<Rightarrow> target_view \<Rightarrow> bool" where
  "published lib r items v \<longleftrightarrow> (\<exists>body live b. spec_body lib (v_Validate (r_Validator r)) items = Inr body \<and>
     fst v = Inr live \<and> map_of (cm_Data live) DataKey = Some b \<and> Hash b = Hash body \<and> snd v = Some (Hash body))"

definition success :: "libs \<Rightarrow> 'w target_struct \<Rightarrow> reconcile_end \<Rightarrow> target_view \<Rightarrow> TenantOverride list option \<Rightarrow> bool" where
  "success lib r e v g \<longleftrightarrow> (\<forall>q. e = Returned q None \<longrightarrow> (\<exists>items. g = Some items \<and> published lib r items v))"

lemma brings_finish:
  assumes "r_HashCache r" and "\<And>q. post (Returned q None) (fst v, Some (res_Hash res)) g"
  shows "brings k (label_of k) n post (finish_prog k sch r drift envs valid out cs res) v g"
proof -
  have "brings k (label_of k) n post (update_prog k r envs valid res False) (fst v, Some (res_Hash res)) g"
    by (rule brings_update[where post = post, OF assms(2)])
  then show ?thesis
    by (auto simp: finish_prog_def Let_def assms(1) hashes.lookup_put report_hashes split: sum.split)
qed

lemma brings_publish:
  assumes "r_HashCache r" and "spec_body lib (v_Validate (r_Validator r)) items = Render (lib_Encoder lib) out"
  shows "brings k (label_of k) (r_OutputCM r) (success lib r) (publish_prog k lib sch r drift envs valid out cs) v (Some items)"
proof (cases "Render (lib_Encoder lib) out")
  case (Inl err)
  then show ?thesis by (simp add: publish_prog_def success_def)
next
  case (Inr body)
  have fin: "brings k (label_of k) (r_OutputCM r) (success lib r) (finish_prog k sch r drift envs valid out cs res) (Inr live, x) (Some items)"
    if "res_Hash res = Hash body" "map_of (cm_Data live) DataKey = Some b" "Hash b = Hash body" for res live b x
    by (rule brings_finish[OF assms(1)]) (use assms(2) Inr that in \<open>simp add: success_def published_def\<close>)
  show ?thesis
    by (auto simp: publish_prog_def Inr success_def[of lib r "Returned 0 (Some e)" for e] intro!: brings_apply fin)
qed

context target_reconciler
begin

lemma merge_groups_result: "fst (merge_groups r gs out cs s) = fst (merge_groups r gs out cs s')"
proof (induction gs arbitrary: out cs s s')
  case (Cons tg gs)
  obtain t g where tg: "tg = (t, g)" by fastforce
  show ?case
    unfolding tg merge_groups_Cons by (auto split: outcome.split option.split intro: Cons.IH)
qed (simp add: merge_groups_Nil)

lemma brings_merge:
  assumes "\<And>merged s s'. merge_groups r gs out cs s = (merged, s') \<Longrightarrow> brings k lb n post (rest merged) v g"
  shows "brings k lb n post (merge_prog k' r gs out cs rest) v g"
  using assms
proof (induction gs arbitrary: out cs)
  case Nil
  then show ?case by (simp add: merge_groups_Nil)
next
  case (Cons tg gs)
  obtain t grp where tg: "tg = (t, grp)" by fastforce
  show ?case
  proof (cases "TrackingMerge t (SortGroup grp)")
    case (Panic msg)
    then show ?thesis using Cons.prems by (simp add: tg merge_groups_Cons)
  next
    case (Done mc)
    obtain m conflicts where mc: "mc = (m, conflicts)" by fastforce
    show ?thesis
    proof (cases "v_Validate (r_Validator r) m")
      case None
      have "brings k lb n post (merge_prog k' r gs (gomap_put t m out) (gomap_put t conflicts cs) rest) v g"
        by (rule Cons.IH) (rule Cons.prems, simp add: tg merge_groups_Cons Done mc None)
      then show ?thesis by (simp add: tg Done mc None)
    next
      case (Some err)
      have "brings k lb n post (merge_prog k' r gs out cs rest) v g"
      proof (rule Cons.IH)
        fix merged s s'
        assume "merge_groups r gs out cs s = (merged, s')"
        then show "brings k lb n post (rest merged) v g"
          using Cons.prems[of s merged "snd (merge_groups r ((t, grp) # gs) out cs s)"]
            merge_groups_result[of r gs out cs "op_Inc ValidationErrorsTotal [label, t, ''merged_result_invalid''] s" s]
          by (simp add: tg merge_groups_Cons Done mc Some) (metis fst_conv prod.collapse)
      qed
      then show ?thesis by (simp add: tg Done mc Some)
    qed
  qed
qed

lemma brings_reconcile:
  fixes r :: "'w target_struct"
  assumes "label = label_of k" and "fair sch" and "r_HashCache r"
  shows "brings k (label_of k) (r_OutputCM r) (success lib r) (reconcile_prog k lib sch r) v None"
proof -
  have merged: "brings k (label_of k) (r_OutputCM r) (success lib r)
      (merge_prog k r (sch_groups sch (GroupByTenant (valid_overrides (map (spec_envelope lib (verdict r)) items)))) [] []
        (\<lambda>merged. case merged of
            Panic msg \<Rightarrow> Return (Panicked msg)
          | Done (out, cs) \<Rightarrow> publish_prog k lib sch r drift (map (spec_envelope lib (verdict r)) items)
              (valid_overrides (map (spec_envelope lib (verdict r)) items)) out cs)) v (Some items)" for items drift v
  proof (rule brings_merge)
    fix merged s s'
    assume m: "merge_groups r (sch_groups sch (GroupByTenant (valid_overrides (map (spec_envelope lib (verdict r)) items)))) [] [] s
      = (merged, s')"
    show "brings k (label_of k) (r_OutputCM r) (success lib r) (case merged of
          Panic msg \<Rightarrow> Return (Panicked msg)
        | Done (out, cs) \<Rightarrow> publish_prog k lib sch r drift (map (spec_envelope lib (verdict r)) items)
            (valid_overrides (map (spec_envelope lib (verdict r)) items)) out cs) v (Some items)"
    proof (cases merged)
      case (Done oc)
      obtain out cs where oc: "oc = (out, cs)" by fastforce
      have "Render (lib_Encoder lib) out = spec_body lib (verdict r) items"
        by (rule output_body[OF assms(2)]) (use m in \<open>simp add: Done oc spec_valid_def\<close>)
      then show ?thesis using brings_publish[OF assms(3)] by (simp add: Done oc)
    qed (simp add: success_def)
  qed
  show ?thesis
    using merged by (auto simp: reconcile_prog_def checkDrift_prog_def Let_def counts_hashes success_def[of lib r "Returned 0 (Some e)" for e]
        split: option.split sum.split)
qed

end

lemma brings_reconcile_of:
  "fair sch \<Longrightarrow> r_HashCache r \<Longrightarrow>
     brings k (label_of k) (r_OutputCM r) (success lib r) (reconcile_prog k lib sch r) v None"
  using loki.brings_reconcile[of KindLoki sch r lib v] mimir.brings_reconcile[of KindMimir sch r lib v]
  by (cases k) simp_all

section \<open>Threads of a process\<close>

text \<open>
  Every thread but the reconcile of the target \<open>k\<close> and the bootstrap leaves the target alone, and
  there is at most one thread of each handler.
\<close>

definition threads_ok :: "cr_kind \<Rightarrow> flags \<Rightarrow> (handler \<times> op_action prog) list \<Rightarrow> bool" where
  "threads_ok k fl ts \<longleftrightarrow> distinct (map fst ts) \<and>
     (\<forall>(h, p) \<in> set ts. h \<noteq> Reconciles k \<longrightarrow> h \<noteq> Bootstraps \<longrightarrow> harmless (label_of k) (output_of k fl) p)"

lemma threads_ok_first: "threads_ok k fl (first_threads lib st)"
  by (simp add: threads_ok_def first_threads_def split: option.split)

lemma threads_ok_add:
  "threads_ok k fl ts \<Longrightarrow> h \<notin> fst ` set ts \<Longrightarrow>
     (h \<noteq> Reconciles k \<Longrightarrow> h \<noteq> Bootstraps \<Longrightarrow> harmless (label_of k) (output_of k fl) p) \<Longrightarrow> threads_ok k fl (ts @ [(h, p)])"
  by (auto simp: threads_ok_def)

lemma threads_ok_change:
  "threads_ok k fl (ts @ (h, p) # us) \<Longrightarrow>
     (h \<noteq> Reconciles k \<Longrightarrow> h \<noteq> Bootstraps \<Longrightarrow> harmless (label_of k) (output_of k fl) p \<Longrightarrow> harmless (label_of k) (output_of k fl) p') \<Longrightarrow>
     threads_ok k fl (ts @ (h, p') # us)"
  by (auto simp: threads_ok_def)

lemma threads_ok_drop: "threads_ok k fl (ts @ (h, p) # us) \<Longrightarrow> threads_ok k fl (ts @ us)"
  by (auto simp: threads_ok_def)

lemma step_threads_ok:
  assumes run: "running en fl st k" and "sys_step lib (en_Client en) st \<sigma> ev \<sigma>'"
    and "threads_ok k fl (sy_threads \<sigma>)"
  shows "threads_ok k fl (sy_threads \<sigma>')"
  using assms(2,3)
proof cases
  case (begin_reconcile k' r sch)
  have "harmless (label_of k) (output_of k fl) (reconcile_thread k' lib sch r)" if "k' \<noteq> k"
    using started_active[OF runningD(1)[OF run] begin_reconcile(3)] outputs_distinct_kinds[OF runningD(2,3)[OF run] _ that] that
    unfolding reconcile_thread_def harmless_map by (intro harmless_reconcile) (simp_all add: label_of_inj)
  then show ?thesis using begin_reconcile assms(3) by (auto intro!: threads_ok_add)
next
  case (begin_disabled k' d req)
  then show ?thesis using assms(3) by (auto intro!: threads_ok_add simp: disabled_thread_def harmless_map harmless_disabled)
next
  case (thread_goes ts h p us c p' w l)
  then show ?thesis
    using assms(3) harmless_step(1)[OF _ runningD(4)[OF run] thread_goes(5,6)] by (auto intro: threads_ok_change)
next
  case (thread_ends ts h a us)
  then show ?thesis using assms(3) by (auto intro: threads_ok_drop)
qed (use assms(3) threads_ok_first in auto)

lemma process_threads_ok:
  assumes "running en fl st k" and "process_reaches lib (en_Client en) st evs \<sigma>"
  shows "threads_ok k fl (sy_threads \<sigma>)"
proof -
  obtain \<sigma>0 where "sy_threads \<sigma>0 = first_threads lib st" "sys_steps lib (en_Client en) st \<sigma>0 evs \<sigma>"
    using assms(2) by (auto simp: process_reaches_def)
  from this(2,1) show ?thesis
    by (induction rule: sys_steps.induct) (simp_all add: threads_ok_first step_threads_ok[OF assms(1)])
qed

section \<open>A reconcile among the other threads\<close>

definition view_of :: "cr_kind \<Rightarrow> 'w client \<Rightarrow> flags \<Rightarrow> 'w system \<Rightarrow> target_view" where
  "view_of k c0 fl \<sigma> = view c0 (label_of k) (output_of k fl) (sy_cluster \<sigma>, sy_own \<sigma>)"

text \<open>The events that leave the target to its reconcile.\<close>

definition quiet_for :: "cr_kind \<Rightarrow> flags \<Rightarrow> sys_event \<Rightarrow> bool" where
  "quiet_for k fl ev \<longleftrightarrow> ev \<noteq> NewProcess \<and> ev \<noteq> Foreign (output_of k fl) \<and> (\<forall>a. ev \<noteq> Ends (Reconciles k) a)"

text \<open>The reconcile of \<open>k\<close> is at a point from which it will bring about its success.\<close>

definition on_the_way :: "cr_kind \<Rightarrow> libs \<Rightarrow> 'w client \<Rightarrow> flags \<Rightarrow> 'w target_struct \<Rightarrow> TenantOverride list option \<Rightarrow>
    'w system \<Rightarrow> bool" where
  "on_the_way k lib c0 fl r g \<sigma> \<longleftrightarrow> threads_ok k fl (sy_threads \<sigma>) \<and> Bootstraps \<notin> fst ` set (sy_threads \<sigma>) \<and>
     (\<exists>p. (Reconciles k, p) \<in> set (sy_threads \<sigma>) \<and>
        brings k (label_of k) (output_of k fl) (\<lambda>a v g. \<forall>e. a = DidReconcile k e \<longrightarrow> success lib r e v g) p (view_of k c0 fl \<sigma>) g)"

lemma on_the_way_step:
  assumes run: "running en fl st k" and way: "on_the_way k lib (en_Client en) fl r g \<sigma>"
    and "sys_step lib (en_Client en) st \<sigma> ev \<sigma>'" and "quiet_for k fl ev"
  shows "\<exists>g'. on_the_way k lib (en_Client en) fl r g' \<sigma>' \<and>
    (g' = g \<or> (\<exists>items. g' = Some items \<and> list_of k (en_Client en) (sy_cluster \<sigma>) = Inr items))"
proof -
  let ?way = "brings k (label_of k) (output_of k fl) (\<lambda>a v g. \<forall>e. a = DidReconcile k e \<longrightarrow> success lib r e v g)"
  obtain p where p: "(Reconciles k, p) \<in> set (sy_threads \<sigma>)" "?way p (view_of k (en_Client en) fl \<sigma>) g"
    and ok: "threads_ok k fl (sy_threads \<sigma>)" and nb: "Bootstraps \<notin> fst ` set (sy_threads \<sigma>)"
    using way by (auto simp: on_the_way_def)
  have ok': "threads_ok k fl (sy_threads \<sigma>')" by (rule step_threads_ok[OF run assms(3) ok])
  show ?thesis
    using assms(3)
  proof cases
    case (begin_reconcile k' r' sch)
    then show ?thesis using p nb ok' by (intro exI[of _ g]) (auto simp: on_the_way_def view_of_def)
  next
    case (begin_disabled k' d req)
    then show ?thesis using p nb ok' by (intro exI[of _ g]) (auto simp: on_the_way_def view_of_def)
  next
    case (thread_goes ts h p1 us c p' w l)
    show ?thesis
    proof (cases "h = Reconciles k")
      case True
      have "p1 = p" using p(1) ok thread_goes(3) True by (auto simp: threads_ok_def image_iff)
      then have "?way p1 (view (en_Client en) (label_of k) (output_of k fl) (sy_cluster \<sigma>, sy_own \<sigma>)) g"
        using p(2) by (simp add: view_of_def)
      from brings_step[OF this runningD(4)[OF run] thread_goes(5,6)] obtain g' where
        "?way p' (view (en_Client en) (label_of k) (output_of k fl) (w, l)) g'"
        "g' = g \<or> (\<exists>items. g' = Some items \<and> list_of k (en_Client en) (sy_cluster \<sigma>) = Inr items)" by blast
      then show ?thesis
        using nb ok' thread_goes(2,3) True by (intro exI[of _ g']) (auto simp: on_the_way_def view_of_def)
    next
      case False
      then have "harmless (label_of k) (output_of k fl) p1" using ok nb thread_goes(3) by (auto simp: threads_ok_def)
      from harmless_step(2)[OF this runningD(4)[OF run] thread_goes(5,6)] False
      show ?thesis
        using p nb ok' thread_goes(2,3) by (intro exI[of _ g]) (auto simp: on_the_way_def view_of_def)
    qed
  next
    case (thread_ends ts h a us)
    then have "h \<noteq> Reconciles k" using assms(4) by (auto simp: quiet_for_def)
    then show ?thesis using p nb ok' thread_ends by (intro exI[of _ g]) (auto simp: on_the_way_def view_of_def)
  next
    case (new_process l)
    then show ?thesis using assms(4) by (simp add: quiet_for_def)
  next
    case (objects_change w)
    then show ?thesis using p nb ok' by (intro exI[of _ g]) (auto simp: on_the_way_def view_of_def view_def)
  next
    case (foreign_write n w)
    then show ?thesis using p nb ok' assms(4)
      by (intro exI[of _ g]) (auto simp: on_the_way_def view_of_def view_def quiet_for_def)
  qed
qed

lemma on_the_way_steps:
  assumes run: "running en fl st k"
  shows "sys_steps lib (en_Client en) st \<sigma>1 evs \<sigma> \<Longrightarrow> on_the_way k lib (en_Client en) fl r None \<sigma>1 \<Longrightarrow> \<forall>ev \<in> set evs. quiet_for k fl ev \<Longrightarrow>
    \<exists>g. on_the_way k lib (en_Client en) fl r g \<sigma> \<and> (\<forall>items. g = Some items \<longrightarrow>
      (\<exists>pre post \<sigma>'. evs = pre @ post \<and> sys_steps lib (en_Client en) st \<sigma>1 pre \<sigma>' \<and>
         list_of k (en_Client en) (sy_cluster \<sigma>') = Inr items))"
proof (induction rule: sys_steps.induct)
  case sys_none
  then show ?case by (intro exI[of _ None]) simp
next
  case (sys_snoc evs \<sigma> ev \<sigma>')
  then obtain g where g: "on_the_way k lib (en_Client en) fl r g \<sigma>" "\<forall>items. g = Some items \<longrightarrow>
      (\<exists>pre post \<sigma>'. evs = pre @ post \<and> sys_steps lib (en_Client en) st \<sigma>1 pre \<sigma>' \<and>
         list_of k (en_Client en) (sy_cluster \<sigma>') = Inr items)" by auto
  from on_the_way_step[OF run g(1) sys_snoc.hyps(2)] sys_snoc.prems(2) obtain g' where
    g': "on_the_way k lib (en_Client en) fl r g' \<sigma>'"
      "g' = g \<or> (\<exists>items. g' = Some items \<and> list_of k (en_Client en) (sy_cluster \<sigma>) = Inr items)" by auto
  show ?case
  proof (intro exI[of _ g'] conjI g'(1) allI impI)
    fix items
    assume "g' = Some items"
    then consider "g = Some items" | "list_of k (en_Client en) (sy_cluster \<sigma>) = Inr items" using g'(2) by auto
    then show "\<exists>pre post \<sigma>''. evs @ [ev] = pre @ post \<and> sys_steps lib (en_Client en) st \<sigma>1 pre \<sigma>'' \<and>
        list_of k (en_Client en) (sy_cluster \<sigma>'') = Inr items"
    proof cases
      case 1
      then obtain pre post \<sigma>'' where "evs = pre @ post" "sys_steps lib (en_Client en) st \<sigma>1 pre \<sigma>''"
          "list_of k (en_Client en) (sy_cluster \<sigma>'') = Inr items" using g(2) by blast
      then show ?thesis by (intro exI[of _ pre] exI[of _ "post @ [ev]"] exI[of _ \<sigma>'']) simp
    next
      case 2
      then show ?thesis using sys_snoc.hyps(1) by (intro exI[of _ evs] exI[of _ "[ev]"] exI[of _ \<sigma>]) simp
    qed
  qed
qed

text \<open>Between two reconciles of \<open>k\<close>, once the bootstrap has ended, nothing touches the target.\<close>

definition idle_for :: "cr_kind \<Rightarrow> flags \<Rightarrow> sys_event \<Rightarrow> bool" where
  "idle_for k fl ev \<longleftrightarrow> ev \<noteq> NewProcess \<and> ev \<noteq> Foreign (output_of k fl) \<and> ev \<noteq> Begins (Reconciles k)"

definition left_alone :: "cr_kind \<Rightarrow> flags \<Rightarrow> 'w system \<Rightarrow> bool" where
  "left_alone k fl \<sigma> \<longleftrightarrow> threads_ok k fl (sy_threads \<sigma>) \<and>
     Bootstraps \<notin> fst ` set (sy_threads \<sigma>) \<and> Reconciles k \<notin> fst ` set (sy_threads \<sigma>)"

lemma left_alone_step:
  assumes run: "running en fl st k" and "left_alone k fl \<sigma>"
    and "sys_step lib (en_Client en) st \<sigma> ev \<sigma>'" and "idle_for k fl ev"
  shows "left_alone k fl \<sigma>' \<and> view_of k (en_Client en) fl \<sigma>' = view_of k (en_Client en) fl \<sigma>"
proof -
  have ok: "threads_ok k fl (sy_threads \<sigma>)" and no: "Bootstraps \<notin> fst ` set (sy_threads \<sigma>)"
      "Reconciles k \<notin> fst ` set (sy_threads \<sigma>)"
    using assms(2) by (simp_all add: left_alone_def)
  have ok': "threads_ok k fl (sy_threads \<sigma>')" by (rule step_threads_ok[OF run assms(3) ok])
  show ?thesis
    using assms(3)
  proof cases
    case (thread_goes ts h p us c p' w l)
    then have "harmless (label_of k) (output_of k fl) p" using ok no by (auto simp: threads_ok_def)
    from harmless_step(2)[OF this runningD(4)[OF run] thread_goes(5,6)] show ?thesis
      using no ok' thread_goes(2,3) by (auto simp: left_alone_def view_of_def)
  qed (use no ok' assms(4) in \<open>auto simp: left_alone_def view_of_def view_def idle_for_def\<close>)
qed

lemma left_alone_steps:
  assumes run: "running en fl st k"
  shows "sys_steps lib (en_Client en) st \<sigma>1 evs \<sigma> \<Longrightarrow> left_alone k fl \<sigma>1 \<Longrightarrow> \<forall>ev \<in> set evs. idle_for k fl ev \<Longrightarrow>
    left_alone k fl \<sigma> \<and> view_of k (en_Client en) fl \<sigma> = view_of k (en_Client en) fl \<sigma>1"
proof (induction rule: sys_steps.induct)
  case (sys_snoc evs \<sigma> ev \<sigma>')
  then have now: "left_alone k fl \<sigma>" "view_of k (en_Client en) fl \<sigma> = view_of k (en_Client en) fl \<sigma>1"
      and "idle_for k fl ev" by auto
  with left_alone_step[OF run now(1) sys_snoc.hyps(2)] show ?case by simp
qed simp

text \<open>From the begin of a reconcile to its end.\<close>

lemma reconcile_among_others:
  assumes run: "running en fl st k" and reach: "process_reaches lib (en_Client en) st before \<sigma>0"
    and "Bootstraps \<notin> fst ` set (sy_threads \<sigma>0)"
    and "sys_step lib (en_Client en) st \<sigma>0 (Begins (Reconciles k)) \<sigma>1"
    and "sys_steps lib (en_Client en) st \<sigma>1 evs \<sigma>2" and "\<forall>ev \<in> set evs. quiet_for k fl ev"
    and "sys_step lib (en_Client en) st \<sigma>2 (Ends (Reconciles k) (DidReconcile k (Returned q None))) \<sigma>3"
  shows "\<exists>r items pre post \<sigma>'. active_of k st r \<and> evs = pre @ post \<and> sys_steps lib (en_Client en) st \<sigma>1 pre \<sigma>' \<and>
    list_of k (en_Client en) (sy_cluster \<sigma>') = Inr items \<and> published lib r items (view_of k (en_Client en) fl \<sigma>3) \<and>
    left_alone k fl \<sigma>3"
proof -
  from assms(4) obtain r sch where r: "active_of k st r" and sch: "fair sch"
    and \<sigma>1: "\<sigma>1 = \<sigma>0\<lparr>sy_threads := sy_threads \<sigma>0 @ [(Reconciles k, reconcile_thread k lib sch r)]\<rparr>"
    by cases auto
  note act = started_active[OF runningD(1)[OF run] r]
  have "threads_ok k fl (sy_threads \<sigma>1)"
    by (rule step_threads_ok[OF run assms(4) process_threads_ok[OF run reach]])
  moreover have "brings k (label_of k) (output_of k fl) (success lib r) (reconcile_prog k lib sch r)
      (view_of k (en_Client en) fl \<sigma>1) None"
    using brings_reconcile_of[OF sch, of r k lib "view_of k (en_Client en) fl \<sigma>1"] act by simp
  ultimately have "on_the_way k lib (en_Client en) fl r None \<sigma>1"
    unfolding on_the_way_def using assms(3)
    by (intro conjI exI[of _ "reconcile_thread k lib sch r"])
      (simp_all add: \<sigma>1 reconcile_thread_def brings_map)
  from on_the_way_steps[OF run assms(5) this assms(6)] obtain g where g: "on_the_way k lib (en_Client en) fl r g \<sigma>2"
    "\<forall>items. g = Some items \<longrightarrow> (\<exists>pre post \<sigma>'. evs = pre @ post \<and> sys_steps lib (en_Client en) st \<sigma>1 pre \<sigma>' \<and>
       list_of k (en_Client en) (sy_cluster \<sigma>') = Inr items)" by blast
  from assms(7) have "(Reconciles k, Return (DidReconcile k (Returned q None))) \<in> set (sy_threads \<sigma>2)"
      "view_of k (en_Client en) fl \<sigma>3 = view_of k (en_Client en) fl \<sigma>2"
    by (cases; auto simp: view_of_def)+
  moreover obtain p where "(Reconciles k, p) \<in> set (sy_threads \<sigma>2)" "distinct (map fst (sy_threads \<sigma>2))"
      "brings k (label_of k) (output_of k fl) (\<lambda>a v g. \<forall>e. a = DidReconcile k e \<longrightarrow> success lib r e v g) p
        (view_of k (en_Client en) fl \<sigma>2) g"
    using g(1) by (auto simp: on_the_way_def threads_ok_def)
  ultimately have "success lib r (Returned q None) (view_of k (en_Client en) fl \<sigma>3) g"
    using eq_key_imp_eq_value by fastforce
  then obtain items where items: "g = Some items" "published lib r items (view_of k (en_Client en) fl \<sigma>3)"
    by (auto simp: success_def)
  with g(2) obtain pre post \<sigma>' where "evs = pre @ post" "sys_steps lib (en_Client en) st \<sigma>1 pre \<sigma>'"
      "list_of k (en_Client en) (sy_cluster \<sigma>') = Inr items" by blast
  moreover have "left_alone k fl \<sigma>3"
  proof -
    have "threads_ok k fl (sy_threads \<sigma>2)" "Bootstraps \<notin> fst ` set (sy_threads \<sigma>2)"
      using g(1) by (simp_all add: on_the_way_def)
    with assms(7) show ?thesis
      by cases (auto simp: left_alone_def threads_ok_def image_iff)
  qed
  ultimately show ?thesis using r items(2) by blast
qed

section \<open>A thread that is not interrupted\<close>

lemma goes_first:
  assumes "\<not> returned p" and "next_step p c0 (w, l) = (p', (w1, l1))"
    and "\<exists>evs. set evs \<subseteq> {Goes h} \<and>
      sys_steps lib c0 st \<lparr>sy_cluster = w1, sy_own = l1, sy_threads = ts @ (h, p') # us\<rparr> evs \<sigma>"
  shows "\<exists>evs. set evs \<subseteq> {Goes h} \<and>
      sys_steps lib c0 st \<lparr>sy_cluster = w, sy_own = l, sy_threads = ts @ (h, p) # us\<rparr> evs \<sigma>"
proof -
  have step: "sys_step lib c0 st \<lparr>sy_cluster = w, sy_own = l, sy_threads = ts @ (h, p) # us\<rparr> (Goes h)
      \<lparr>sy_cluster = w1, sy_own = l1, sy_threads = ts @ (h, p') # us\<rparr>"
    by (rule thread_goes[OF _ assms(1) failing_version_refl]) (simp_all add: assms(2))
  obtain evs where "set evs \<subseteq> {Goes h}"
      "sys_steps lib c0 st \<lparr>sy_cluster = w1, sy_own = l1, sy_threads = ts @ (h, p') # us\<rparr> evs \<sigma>"
    using assms(3) by blast
  then show ?thesis by (intro exI[of _ "Goes h # evs"] conjI sys_Cons[OF step]) auto
qed

lemma thread_runs:
  "run p c0 (w, l) = (a, (w', l')) \<Longrightarrow>
     \<exists>evs. set evs \<subseteq> {Goes h} \<and> sys_steps lib c0 st \<lparr>sy_cluster = w, sy_own = l, sy_threads = ts @ (h, p) # us\<rparr> evs
       \<lparr>sy_cluster = w', sy_own = l', sy_threads = ts @ (h, Return a) # us\<rparr>"
proof (induction p arbitrary: w l)
  case (Return b)
  then show ?case by (intro exI[of _ "[]"]) (auto intro: sys_none)
next
  case (GetConfigMap n f)
  then show ?case by (intro goes_first[of "GetConfigMap n f"]) auto
next
  case (ApplyConfigMap cm owner force f)
  obtain err w1 where "cl_ApplyConfigMap c0 cm owner force w = (err, w1)" by fastforce
  then show ?case using ApplyConfigMap by (intro goes_first[of "ApplyConfigMap cm owner force f"]) auto
next
  case (ListObjects k f)
  then show ?case by (intro goes_first[of "ListObjects k f"]) auto
next
  case (GetObject k n f)
  then show ?case by (intro goes_first[of "GetObject k n f"]) auto
next
  case (UpdateStatus k cr f)
  obtain err w1 where "update_of k c0 cr w = (err, w1)" by fastforce
  then show ?case using UpdateStatus by (intro goes_first[of "UpdateStatus k cr f"]) auto
next
  case (Local g f)
  then show ?case by (intro goes_first[of "Local g f"]) auto
qed

section \<open>The bootstrap beside a reconcile\<close>

text \<open>
  The bootstrap has found no config map and has not yet written it; now it writes the empty document,
  whatever is there in the meantime.
\<close>

definition bootstrap_midway :: "libs \<Rightarrow> string \<Rightarrow> NamespacedName \<Rightarrow> string \<Rightarrow> op_action prog" where
  "bootstrap_midway lib lb n body = map_prog DidBootstrap (apply_prog n body (\<lambda>res. case res of
       Inl err \<Rightarrow> Return (Some (ErrWrap (''bootstrap apply for '' @ lb) err))
     | Inr res \<Rightarrow> Local (\<lambda>l. op_SetHash lb (res_Hash res) l) (\<lambda>l. Return None)))"

lemma bootstrap_found_nothing:
  assumes "cl_GetConfigMap c n w = Inl err" and "IsNotFound err" and "Render (lib_Encoder lib) [] = Inr body"
  shows "next_step (map_prog DidBootstrap (bootstrap_prog (lib_Encoder lib) True [\<lparr>bt_Name = lb, bt_OutputCM = n\<rparr>])) c (w, l) =
    (bootstrap_midway lib lb n body, (w, l))"
  using assms by (simp add: bootstrap_midway_def del: append_Cons)

lemma run_bootstrap_midway:
  assumes "orderly c0" and "apply_accepted c0"
  shows "\<exists>w' l'. run (bootstrap_midway lib lb n body) c0 (w, l) = (DidBootstrap None, (w', l')) \<and>
    holds_body c0 n body w' \<and> HashCache_Get (op_hashes l') lb = Some (Hash body)"
proof -
  obtain w1 where w1: "cl_ApplyConfigMap c0 (desired_ConfigMap n body) FieldManager True w = (None, w1)"
    using assms(2) unfolding apply_accepted_def by blast
  have "IsNotFound e" if "cl_GetConfigMap c0 n w = Inl e" for e
    using assms(2) that unfolding apply_accepted_def by blast
  then have "\<exists>res w'. apply_ConfigMap c0 n body w = (Inr res, w')"
    using apply_write_reported[OF orderlyD(1)[OF assms(1)] w1]
    by (auto simp: apply_ConfigMap_def split: sum.split)
  then obtain res w' where ap: "apply_ConfigMap c0 n body w = (Inr res, w')" by blast
  then have "run (bootstrap_midway lib lb n body) c0 (w, l) = (DidBootstrap None, (w', op_SetHash lb (Hash body) l))"
    using apply_hash[OF ap] by (simp add: bootstrap_midway_def run_map run_apply)
  then show ?thesis
    using apply_establishes[OF orderlyD(1)[OF assms(1)] ap] by (simp add: hashes.lookup_put)
qed

lemma started_client:
  assumes "fully_started en fl st" and "active_of k st r"
  shows "r_Client r = en_Client en"
  using assms(2) started_controllers[OF assms(1)]
  by (cases k) (auto simp: loki_controller_of_def mimir_controller_of_def split: if_splits)

lemma single_target:
  "\<forall>k'. enabled_of k' fl \<longleftrightarrow> k' = k \<Longrightarrow> enabled_targets fl = [\<lparr>bt_Name = label_of k, bt_OutputCM = output_of k fl\<rparr>]"
proof -
  assume only: "\<forall>k'. enabled_of k' fl \<longleftrightarrow> k' = k"
  from spec[OF this, of KindLoki] spec[OF this, of KindMimir] show ?thesis
    by (cases k) (simp_all add: enabled_targets_def lokiTargetLabel_def mimirTargetLabel_def)
qed

end
