(* ===== verification/Api_Calls.thy ===== *)
theory Api_Calls
  imports Operator_Runs
begin

text \<open>
  The calls by which the operator changes the cluster. A server that keeps a log of them shows which
  calls a handler makes, in which order and with which arguments, and this is the same whatever the
  server answers: nothing is assumed of the client, so its answers may be stale, calls may fail, and
  others may change the cluster between two calls.
\<close>

section \<open>A log of calls\<close>

datatype api_call = ApplyCall ConfigMap string bool "go_error option"
  | StatusCall cr_kind TenantOverride "go_error option"

text \<open>Each call is logged with its arguments and its answer; \<open>lg\<close> reads the log off the cluster.\<close>

definition logs_calls :: "('w \<Rightarrow> api_call list) \<Rightarrow> 'w client \<Rightarrow> bool" where
  "logs_calls lg c \<longleftrightarrow>
     (\<forall>cm owner force w err w'. cl_ApplyConfigMap c cm owner force w = (err, w') \<longrightarrow>
        lg w' = lg w @ [ApplyCall cm owner force err]) \<and>
     (\<forall>k cr w err w'. update_of k c cr w = (err, w') \<longrightarrow> lg w' = lg w @ [StatusCall k cr err])"

lemma logs_callsD:
  assumes "logs_calls lg c"
  shows "cl_ApplyConfigMap c cm owner force w = (err, w') \<Longrightarrow> lg w' = lg w @ [ApplyCall cm owner force err]"
    and "update_of k c cr w = (err, w') \<Longrightarrow> lg w' = lg w @ [StatusCall k cr err]"
  using assms unfolding logs_calls_def by blast+

text \<open>Any client can be made to keep a log.\<close>

definition and_log :: "('w \<Rightarrow> 'a \<times> 'w) \<Rightarrow> ('a \<Rightarrow> api_call) \<Rightarrow> 'w \<times> api_call list \<Rightarrow> 'a \<times> ('w \<times> api_call list)" where
  "and_log call entry wl = (let (a, w) = call (fst wl) in (a, (w, snd wl @ [entry a])))"

definition with_log :: "'w client \<Rightarrow> ('w \<times> api_call list) client" where
  "with_log c =
     \<lparr>cl_GetConfigMap = (\<lambda>n wl. cl_GetConfigMap c n (fst wl)),
      cl_ApplyConfigMap = (\<lambda>cm owner force. and_log (cl_ApplyConfigMap c cm owner force) (ApplyCall cm owner force)),
      cl_ListLoki = (\<lambda>wl. cl_ListLoki c (fst wl)),
      cl_GetLoki = (\<lambda>n wl. cl_GetLoki c n (fst wl)),
      cl_UpdateLokiStatus = (\<lambda>cr. and_log (cl_UpdateLokiStatus c cr) (StatusCall KindLoki cr)),
      cl_ListMimir = (\<lambda>wl. cl_ListMimir c (fst wl)),
      cl_GetMimir = (\<lambda>n wl. cl_GetMimir c n (fst wl)),
      cl_UpdateMimirStatus = (\<lambda>cr. and_log (cl_UpdateMimirStatus c cr) (StatusCall KindMimir cr))\<rparr>"

lemma and_log_result: "and_log call entry wl = (a, wl') \<Longrightarrow> snd wl' = snd wl @ [entry a]"
  by (auto simp: and_log_def split: prod.splits)

lemma with_log_logs: "logs_calls snd (with_log c)"
proof -
  have "snd wl' = snd wl @ [StatusCall k cr err]" if "update_of k (with_log c) cr wl = (err, wl')" for k cr wl err wl'
    using that by (cases k) (auto simp: with_log_def dest: and_log_result)
  then show ?thesis by (auto simp: logs_calls_def with_log_def dest: and_log_result)
qed

section \<open>The protocol of a reconcile\<close>

text \<open>The status written depends on the state only through the clock.\<close>

definition status_at :: "(nat \<Rightarrow> gotime) \<Rightarrow> TenantOverrideStatus \<Rightarrow> TenantOverrideStatus \<Rightarrow> TenantOverrideStatus" where
  "status_at clock old desired = fst (updated_status old desired
     \<lparr>op_cluster = (), op_hashes = NewHashCache, op_metrics = no_metrics, op_events = [], op_clock = clock\<rparr>)"

lemma op_upserts_only_clock:
  "op_clock s = op_clock u \<Longrightarrow> fst (op_upserts cs ds s) = fst (op_upserts cs ds u)"
proof (induction ds arbitrary: cs s u)
  case (Cons d ds)
  have "fst (op_upsert cs d s) = fst (op_upsert cs d u) \<and> op_clock (snd (op_upsert cs d s)) = op_clock (snd (op_upsert cs d u))"
    using Cons.prems by (simp add: op_upsert_def Now_def)
  with Cons.IH[of "snd (op_upsert cs d s)" "snd (op_upsert cs d u)" "fst (op_upsert cs d s)"]
  show ?case by (simp add: case_prod_beta)
qed simp

lemma updated_status_at: "updated_status old desired s = (st, s') \<Longrightarrow> st = status_at (op_clock s) old desired"
  using op_upserts_only_clock[of s "\<lparr>op_cluster = (), op_hashes = NewHashCache, op_metrics = no_metrics,
      op_events = [], op_clock = op_clock s\<rparr>" "st_Conditions old" "st_Conditions desired"]
  by (auto simp: status_at_def updated_status_def case_prod_beta)

text \<open>The calls of the apply helper: none if the body is there or cannot be read, else one.\<close>

definition apply_calls :: "'w client \<Rightarrow> NamespacedName \<Rightarrow> string \<Rightarrow> 'w \<Rightarrow> api_call list" where
  "apply_calls c n body w =
     (if holds_body c n body w \<or> (case cl_GetConfigMap c n w of Inl err \<Rightarrow> \<not> IsNotFound err | Inr live \<Rightarrow> False)
      then []
      else [ApplyCall (desired_ConfigMap n body) FieldManager True
        (fst (cl_ApplyConfigMap c (desired_ConfigMap n body) FieldManager True w))])"

lemma apply_logged:
  assumes "logs_calls lg c" and "apply_ConfigMap c n body w = (ra, w')"
  shows "lg w' = lg w @ apply_calls c n body w"
proof -
  obtain err w1 where ap: "cl_ApplyConfigMap c (desired_ConfigMap n body) FieldManager True w = (err, w1)" by fastforce
  have wrote: "snd (apply_write c n body w) = w1"
    by (simp add: apply_write_def ap split: option.split sum.split)
  have "w' = (if apply_calls c n body w = [] then w else w1)"
    using assms(2) wrote
    by (auto simp: apply_ConfigMap_def apply_calls_def holds_body_def split: sum.splits if_splits option.splits)
  then show ?thesis using logs_callsD(1)[OF assms(1) ap] by (auto simp: apply_calls_def ap)
qed

text \<open>The status call for one object.\<close>

definition status_call :: "cr_kind \<Rightarrow> libs \<Rightarrow> 'w target_struct \<Rightarrow> TenantOverride list \<Rightarrow> apply_result \<Rightarrow>
    TenantOverride \<Rightarrow> api_call \<Rightarrow> bool" where
  "status_call k lib r items res cr call \<longleftrightarrow> (\<exists>clock err. call = StatusCall k (cr\<lparr>cr_Status :=
     status_at clock (cr_Status cr) (spec_status (r_OutputCM r) (spec_envelope lib (v_Validate (r_Validator r)) cr)
       (spec_valid lib (v_Validate (r_Validator r)) items) res)\<rparr>) err)"

definition status_due :: "libs \<Rightarrow> 'w target_struct \<Rightarrow> TenantOverride list \<Rightarrow> apply_result \<Rightarrow> TenantOverride \<Rightarrow> bool" where
  "status_due lib r items res cr \<longleftrightarrow> needsUpdate (cr_Status cr) (spec_status (r_OutputCM r)
     (spec_envelope lib (v_Validate (r_Validator r)) cr) (spec_valid lib (v_Validate (r_Validator r)) items) res)"

fun conflicted :: "api_call \<Rightarrow> bool" where
  "conflicted (StatusCall k cr (Some err)) = IsConflict err"
| "conflicted _ = False"

text \<open>How a reconcile that starts in the cluster \<open>w\<close> may end, and after which calls.\<close>

inductive reconcile_protocol :: "cr_kind \<Rightarrow> libs \<Rightarrow> 'w target_struct \<Rightarrow> 'w \<Rightarrow> reconcile_end \<Rightarrow> api_call list \<Rightarrow> bool"
  for k :: cr_kind and lib :: libs and r :: "'w target_struct" and w :: 'w where
  list_fails: "list_of k (r_Client r) w = Inl err \<Longrightarrow>
    reconcile_protocol k lib r w (Returned 0 (Some (ErrWrap msg err))) []"
| merge_panics: "list_of k (r_Client r) w = Inr items \<Longrightarrow>
    \<not> (\<forall>ov \<in> set (spec_valid lib (v_Validate (r_Validator r)) items). plain_leaves (ov_Overrides ov)) \<Longrightarrow>
    reconcile_protocol k lib r w (Panicked msg) []"
| render_fails: "list_of k (r_Client r) w = Inr items \<Longrightarrow> spec_body lib (v_Validate (r_Validator r)) items = Inl err \<Longrightarrow>
    reconcile_protocol k lib r w (Returned 0 (Some (ErrWrap ''render'' err))) []"
| apply_fails: "list_of k (r_Client r) w = Inr items \<Longrightarrow> spec_body lib (v_Validate (r_Validator r)) items = Inr body \<Longrightarrow>
    apply_ConfigMap (r_Client r) (r_OutputCM r) body w = (Inl err, w') \<Longrightarrow>
    reconcile_protocol k lib r w (Returned 0 (Some (ErrWrap ''apply'' err))) (apply_calls (r_Client r) (r_OutputCM r) body w)"
| completes: "list_of k (r_Client r) w = Inr items \<Longrightarrow> spec_body lib (v_Validate (r_Validator r)) items = Inr body \<Longrightarrow>
    apply_ConfigMap (r_Client r) (r_OutputCM r) body w = (Inr res, w') \<Longrightarrow>
    list_all2 (status_call k lib r items res) (filter (status_due lib r items res) items) calls \<Longrightarrow>
    reconcile_protocol k lib r w (Returned (if \<exists>call \<in> set calls. conflicted call then statusConflictRequeueDelay else 0) None)
      (apply_calls (r_Client r) (r_OutputCM r) body w @ calls)"

context target_reconciler
begin

lemma update_one_logged:
  assumes "\<And>cr w err w'. update_cr (r_Client r) cr w = (err, w') \<Longrightarrow> lg w' = lg w @ [StatusCall k cr err]"
    and "update_one r e valid res s = (hit, s')"
  shows "\<exists>calls. lg (op_cluster s') = lg (op_cluster s) @ calls \<and> (hit \<longleftrightarrow> (\<exists>call \<in> set calls. conflicted call)) \<and>
    (if needsUpdate (cr_Status (env_CR e)) (spec_status (r_OutputCM r) e valid res)
     then \<exists>clock err. calls = [StatusCall k ((env_CR e)\<lparr>cr_Status :=
       status_at clock (cr_Status (env_CR e)) (spec_status (r_OutputCM r) e valid res)\<rparr>) err]
     else calls = [])"
proof (cases "needsUpdate (cr_Status (env_CR e)) (spec_status (r_OutputCM r) e valid res)")
  case True
  obtain st s1 where st: "updated_status (cr_Status (env_CR e)) (spec_status (r_OutputCM r) e valid res) s = (st, s1)"
    by fastforce
  obtain err w where up: "update_cr (r_Client r) ((env_CR e)\<lparr>cr_Status := st\<rparr>) (op_cluster s1) = (err, w)"
    by fastforce
  have "op_cluster s1 = op_cluster s"
    using st by (auto simp: updated_status_def same_but_clock_def split: prod.splits dest: op_upserts_clock)
  then have "lg w = lg (op_cluster s) @ [StatusCall k ((env_CR e)\<lparr>cr_Status := st\<rparr>) err]"
    using assms(1)[OF up] by simp
  moreover have "s' = op_SetCluster w s1" "hit = (case err of None \<Rightarrow> False | Some err \<Rightarrow> IsConflict err)"
    using assms(2) True by (simp_all add: update_one_eq st up)
  moreover have "conflicted (StatusCall k cr err) = (case err of None \<Rightarrow> False | Some err \<Rightarrow> IsConflict err)" for cr
    by (simp split: option.split)
  ultimately show ?thesis using True updated_status_at[OF st]
    by (intro exI[of _ "[StatusCall k ((env_CR e)\<lparr>cr_Status := st\<rparr>) err]"]) auto
next
  case False
  then show ?thesis using assms(2) by (simp add: update_one_eq)
qed

lemma update_all_logged:
  assumes "\<And>cr w err w'. update_cr (r_Client r) cr w = (err, w') \<Longrightarrow> lg w' = lg w @ [StatusCall k cr err]"
  shows "update_all r (map (spec_envelope lib (verdict r)) crs) (spec_valid lib (verdict r) items) res hit s = (hit', s') \<Longrightarrow>
    \<exists>calls. lg (op_cluster s') = lg (op_cluster s) @ calls \<and> (hit' \<longleftrightarrow> hit \<or> (\<exists>call \<in> set calls. conflicted call)) \<and>
      list_all2 (status_call k lib r items res) (filter (status_due lib r items res) crs) calls"
proof (induction crs arbitrary: hit s)
  case Nil
  then show ?case by (simp add: update_all_Nil)
next
  case (Cons cr crs)
  let ?valid = "spec_valid lib (verdict r) items"
  obtain h s1 where one: "update_one r (spec_envelope lib (verdict r) cr) ?valid res s = (h, s1)" by fastforce
  then have "update_all r (map (spec_envelope lib (verdict r)) crs) ?valid res (hit \<or> h) s1 = (hit', s')"
    using Cons.prems by (simp add: update_all_Cons)
  from Cons.IH[OF this] obtain calls where rest: "lg (op_cluster s') = lg (op_cluster s1) @ calls"
      "hit' \<longleftrightarrow> (hit \<or> h) \<or> (\<exists>call \<in> set calls. conflicted call)"
      "list_all2 (status_call k lib r items res) (filter (status_due lib r items res) crs) calls" by blast
  from update_one_logged[where lg = lg and k = k, OF assms one] obtain first where first: "lg (op_cluster s1) = lg (op_cluster s) @ first"
      "h \<longleftrightarrow> (\<exists>call \<in> set first. conflicted call)"
      "if status_due lib r items res cr then \<exists>call. first = [call] \<and> status_call k lib r items res cr call else first = []"
    unfolding status_due_def status_call_def spec_envelope_simps by (fastforce split: if_splits)
  then show ?case using rest by (intro exI[of _ "first @ calls"]) (auto split: if_splits)
qed

lemma Reconcile_logged:
  assumes "Reconcile lib sch r s = (e, s')" and "fair sch" and "logs_calls lg (r_Client r)"
    and k: "list_crs = list_of k" "update_cr = update_of k"
  shows "\<exists>calls. lg (op_cluster s') = lg (op_cluster s) @ calls \<and> reconcile_protocol k lib r (op_cluster s) e calls"
  using assms(1,2)
proof (cases rule: Reconcile_cases)
  case (list_failed err s1)
  then show ?thesis using list_fails[of k r "op_cluster s" err lib list_err] by (auto simp: k only_metrics_def)
next
  case (panicked msg items)
  then show ?thesis using merge_panics[of k r "op_cluster s" items lib msg] by (auto simp: k only_metrics_def)
next
  case (render_failed err s1 items)
  then show ?thesis using render_fails[of k r "op_cluster s" items lib err] by (auto simp: k only_metrics_def)
next
  case (apply_failed err s1 w items body)
  from apply_fails[of k r "op_cluster s" items lib body err w] apply_logged[OF assms(3) apply_failed(3)]
  show ?thesis using apply_failed by (auto simp: k only_metrics_def)
next
  case (applied items body res w s1 hit)
  from update_all_logged[where lg = lg and k = k, OF logs_callsD(2)[OF assms(3), of k, folded k(2)] applied(6)]
  obtain calls where calls: "lg (op_cluster s') = lg (op_cluster s1) @ calls"
      "hit \<longleftrightarrow> (\<exists>call \<in> set calls. conflicted call)"
      "list_all2 (status_call k lib r items res) (filter (status_due lib r items res) items) calls" by auto
  have "reconcile_protocol k lib r (op_cluster s) e (apply_calls (r_Client r) (r_OutputCM r) body (op_cluster s) @ calls)"
    using completes[OF applied(1)[unfolded k] applied(2,3) calls(3)] by (simp add: applied(7) calls(2))
  then show ?thesis using calls(1) apply_logged[OF assms(3) applied(3)] by (auto simp: applied(4))
qed

end

lemma Reconcile_of_protocol:
  assumes "Reconcile_of k lib sch r s = (e, s')" and "fair sch" and "logs_calls lg (r_Client r)"
  shows "\<exists>calls. lg (op_cluster s') = lg (op_cluster s) @ calls \<and> reconcile_protocol k lib r (op_cluster s) e calls"
  using assms loki.Reconcile_logged[of lib sch r s e s' lg KindLoki] mimir.Reconcile_logged[of lib sch r s e s' lg KindMimir]
  by (cases k) auto

section \<open>What the operator may write\<close>

text \<open>
  The calls that a step of the operator may make when the cluster is \<open>w\<close> at its start: the config map
  of an enabled target, with the one label and the one data key, and the status of an object that was
  read, everything else of it unchanged.
\<close>

fun permitted :: "'w client \<Rightarrow> yaml_encoder \<Rightarrow> flags \<Rightarrow> 'w \<Rightarrow> op_action \<Rightarrow> api_call \<Rightarrow> bool" where
  "permitted c enc fl w (DidReconcile k e) (ApplyCall cm owner force err) =
     (enabled_of k fl \<and> owner = FieldManager \<and> force \<and> (\<exists>body. cm = desired_ConfigMap (output_of k fl) body))"
| "permitted c enc fl w (DidReconcile k e) (StatusCall k' cr err) =
     (enabled_of k fl \<and> k' = k \<and> (\<exists>items old. list_of k c w = Inr items \<and> old \<in> set items \<and> cr = old\<lparr>cr_Status := cr_Status cr\<rparr>))"
| "permitted c enc fl w (DidDisabled k) (StatusCall k' cr err) =
     (\<not> enabled_of k fl \<and> k' = k \<and> marked_disabled (label_of k) cr \<and>
        (\<exists>req old. get_of k c req w = Inr old \<and> cr = old\<lparr>cr_Status := cr_Status cr\<rparr>))"
| "permitted c enc fl w (DidBootstrap e) (ApplyCall cm owner force err) =
     (owner = FieldManager \<and> force \<and> (\<exists>k body. enabled_of k fl \<and> Render enc [] = Inr body \<and>
        cm = desired_ConfigMap (output_of k fl) body))"
| "permitted c enc fl w a call = False"

text \<open>The log grows by calls that satisfy \<open>P\<close> only.\<close>

definition grows :: "('w \<Rightarrow> api_call list) \<Rightarrow> (api_call \<Rightarrow> bool) \<Rightarrow> 'w \<Rightarrow> 'w \<Rightarrow> bool" where
  "grows lg P w w' \<longleftrightarrow> (\<exists>calls. lg w' = lg w @ calls \<and> (\<forall>call \<in> set calls. P call))"

lemma grows_refl [simp]: "grows lg P w w"
  by (simp add: grows_def)

lemma grows_trans: "grows lg P w w' \<Longrightarrow> grows lg P w' w'' \<Longrightarrow> grows lg P w w''"
  unfolding grows_def by (metis append.assoc set_append Un_iff)

text \<open>A call that fails on the way is in the log or is not.\<close>

lemma grows_apply:
  assumes "logs_calls lg c0" and "failing_version c0 c" and "\<And>err. P (ApplyCall cm owner force err)"
  shows "grows lg P w (snd (cl_ApplyConfigMap c cm owner force w))"
proof -
  obtain e0 w0 where w0: "cl_ApplyConfigMap c0 cm owner force w = (e0, w0)" by fastforce
  obtain e w1 where w1: "cl_ApplyConfigMap c cm owner force w = (e, w1)" by fastforce
  have "grows lg P w w0" using logs_callsD(1)[OF assms(1) w0] assms(3) by (auto simp: grows_def)
  then show ?thesis
    using may_fail_state[OF flakyD(3)[OF failing_versionD(1)[OF assms(2), of KindLoki], of w cm owner force, unfolded w1]]
    by (auto simp: w0 w1)
qed

lemma grows_status:
  assumes "logs_calls lg c0" and "failing_version c0 c" and "\<And>err. P (StatusCall k cr err)"
  shows "grows lg P w (snd (update_of k c cr w))"
proof -
  obtain e0 w0 where w0: "update_of k c0 cr w = (e0, w0)" by fastforce
  obtain e w1 where w1: "update_of k c cr w = (e, w1)" by fastforce
  have "grows lg P w w0" using logs_callsD(2)[OF assms(1) w0] assms(3) by (auto simp: grows_def)
  then show ?thesis
    using may_fail_state[OF flakyD(4)[OF failing_versionD(1)[OF assms(2), of k], of w cr, unfolded w1]]
    by (auto simp: w0 w1)
qed

lemma apply_grows:
  assumes "logs_calls lg c0" and "failing_version c0 c"
    and "\<And>err. P (ApplyCall (desired_ConfigMap n body) FieldManager True err)"
    and "apply_ConfigMap c n body w = (ra, w')"
  shows "grows lg P w w'"
proof -
  have "w' = w \<or> w' = snd (cl_ApplyConfigMap c (desired_ConfigMap n body) FieldManager True w)"
    using assms(4) by (auto simp: apply_ConfigMap_def apply_write_def split: sum.splits if_splits option.splits prod.splits)
  then show ?thesis using grows_apply[where P = P, OF assms(1-3)] by auto
qed

context target_reconciler
begin

lemma update_one_cluster:
  assumes "update_one r e valid res s = (hit, s')"
  shows "op_cluster s' = op_cluster s \<or>
    (\<exists>st. op_cluster s' = snd (update_cr (r_Client r) ((env_CR e)\<lparr>cr_Status := st\<rparr>) (op_cluster s)))"
proof (cases "needsUpdate (cr_Status (env_CR e)) (spec_status (r_OutputCM r) e valid res)")
  case True
  obtain st s1 where st: "updated_status (cr_Status (env_CR e)) (spec_status (r_OutputCM r) e valid res) s = (st, s1)"
    by fastforce
  obtain err w where up: "update_cr (r_Client r) ((env_CR e)\<lparr>cr_Status := st\<rparr>) (op_cluster s1) = (err, w)"
    by fastforce
  have "op_cluster s1 = op_cluster s"
    using st by (auto simp: updated_status_def same_but_clock_def split: prod.splits dest: op_upserts_clock)
  moreover have "s' = op_SetCluster w s1" using assms True by (simp add: update_one_eq st up)
  ultimately show ?thesis using up by (intro disjI2 exI[of _ st]) simp
qed (use assms in \<open>simp add: update_one_eq\<close>)

lemma update_all_grows:
  assumes "\<forall>cr \<in> set crs. \<forall>st w. grows lg P w (snd (update_cr (r_Client r) (cr\<lparr>cr_Status := st\<rparr>) w))"
  shows "update_all r (map (spec_envelope lib (verdict r)) crs) valid res hit s = (hit', s') \<Longrightarrow>
    grows lg P (op_cluster s) (op_cluster s')"
  using assms
proof (induction crs arbitrary: hit s)
  case Nil
  then show ?case by (simp add: update_all_Nil)
next
  case (Cons cr crs)
  obtain h s1 where one: "update_one r (spec_envelope lib (verdict r) cr) valid res s = (h, s1)" by fastforce
  then have "update_all r (map (spec_envelope lib (verdict r)) crs) valid res (hit \<or> h) s1 = (hit', s')"
    using Cons.prems(1) by (simp add: update_all_Cons)
  then have "grows lg P (op_cluster s1) (op_cluster s')" by (rule Cons.IH) (use Cons.prems(2) in simp)
  moreover have "grows lg P (op_cluster s) (op_cluster s1)"
    using update_one_cluster[OF one] Cons.prems(2) by (elim disjE exE) simp_all
  ultimately show ?case by (blast intro: grows_trans)
qed

lemma Reconcile_grows:
  assumes "Reconcile lib sch r s = (e, s')" and "fair sch" and "logs_calls lg c0" and "failing_version c0 (r_Client r)"
    and k: "list_crs = list_of k" "update_cr = update_of k"
    and "\<And>body err. P (ApplyCall (desired_ConfigMap (r_OutputCM r) body) FieldManager True err)"
    and "\<And>items cr st err. list_of k c0 (op_cluster s) = Inr items \<Longrightarrow> cr \<in> set items \<Longrightarrow>
      P (StatusCall k (cr\<lparr>cr_Status := st\<rparr>) err)"
  shows "grows lg P (op_cluster s) (op_cluster s')"
  using assms(1,2)
proof (cases rule: Reconcile_cases)
  case (apply_failed err s1 w items body)
  from apply_grows[where P = P, OF assms(3,4) assms(7) apply_failed(3)] show ?thesis by (simp add: apply_failed(5))
next
  case (applied items body res w s1 hit)
  then have "list_of k c0 (op_cluster s) = Inr items"
    using flakyD(2)[OF failing_versionD(1)[OF assms(4), of k], of "op_cluster s"] by (auto simp: k)
  then have "\<forall>cr \<in> set items. \<forall>st v. grows lg P v (snd (update_cr (r_Client r) (cr\<lparr>cr_Status := st\<rparr>) v))"
    unfolding k(2) by (intro ballI allI grows_status[where P = P, OF assms(3,4)] assms(8))
  from update_all_grows[where lg = lg and P = P, OF this applied(6)]
  have "grows lg P w (op_cluster s')" by (simp add: applied(4))
  then show ?thesis by (rule grows_trans[OF apply_grows[where P = P, OF assms(3,4) assms(7) applied(3)]])
qed (simp_all add: only_metrics_def)

end

lemma Reconcile_of_grows:
  assumes "Reconcile_of k lib sch r s = (e, s')" and "fair sch" and "logs_calls lg c0" and "failing_version c0 (r_Client r)"
    and "\<And>body err. P (ApplyCall (desired_ConfigMap (r_OutputCM r) body) FieldManager True err)"
    and "\<And>items cr st err. list_of k c0 (op_cluster s) = Inr items \<Longrightarrow> cr \<in> set items \<Longrightarrow>
      P (StatusCall k (cr\<lparr>cr_Status := st\<rparr>) err)"
  shows "grows lg P (op_cluster s) (op_cluster s')"
proof (cases k)
  case KindLoki
  show ?thesis
    by (rule loki.Reconcile_grows[where P = P and k = k]) (use assms in \<open>auto simp: KindLoki\<close>)
next
  case KindMimir
  show ?thesis
    by (rule mimir.Reconcile_grows[where P = P and k = k]) (use assms in \<open>auto simp: KindMimir\<close>)
qed

lemma bootstrap_grows:
  assumes "logs_calls lg c0" and "failing_version c0 (b_Client b)"
    and "\<And>t body err. t \<in> set ts \<Longrightarrow> Render enc [] = Inr body \<Longrightarrow>
      P (ApplyCall (desired_ConfigMap (bt_OutputCM t) body) FieldManager True err)"
  shows "bootstrap_targets enc b ts s = (e, s') \<Longrightarrow> grows lg P (op_cluster s) (op_cluster s')"
  using assms(3)
proof (induction ts arbitrary: s)
  case (Cons t ts)
  obtain e1 s1 where one: "bootstrap_target enc b t s = (e1, s1)" by fastforce
  have "op_cluster s1 = op_cluster s \<or> (\<exists>body ra. Render enc [] = Inr body \<and>
      apply_ConfigMap (b_Client b) (bt_OutputCM t) body (op_cluster s) = (ra, op_cluster s1))"
    using one by (auto simp: bootstrap_target_def split: sum.splits if_splits prod.splits)
  then have "grows lg P (op_cluster s) (op_cluster s1)"
    using apply_grows[where P = P, OF assms(1,2)] Cons.prems(2)[of t] by fastforce
  moreover have "grows lg P (op_cluster s1) (op_cluster s')"
    using Cons.prems one Cons.IH[of s1] by (auto split: option.splits)
  ultimately show ?case by (rule grows_trans)
qed simp

lemma disabled_of_grows:
  assumes "disabled_Reconcile_of k d req s = (res, s')" and "logs_calls lg c0" and "failing_version c0 (d_Client d)"
    and "\<And>old cr err. get_of k c0 req (op_cluster s) = Inr old \<Longrightarrow> marked_disabled (label_of k) cr \<Longrightarrow>
      cr = old\<lparr>cr_Status := cr_Status cr\<rparr> \<Longrightarrow> P (StatusCall k cr err)"
  shows "grows lg P (op_cluster s) (op_cluster s')"
proof (cases "get_of k (d_Client d) req (op_cluster s)")
  case (Inl err)
  then show ?thesis
    using assms(1) by (cases k) (auto simp: loki_disabled_Reconcile_def mimir_disabled_Reconcile_def)
next
  case (Inr old)
  then have old: "get_of k c0 req (op_cluster s) = Inr old"
    using failing_versionD(2)[OF assms(3), of k req "op_cluster s"] by auto
  obtain changed cr s1 where ap: "applyDisabledStatus (d_Recorder d) old (label_of k) s = ((changed, cr), s1)"
    by (metis surj_pair)
  note props = applyDisabled_result[OF ap]
  have "cr = old\<lparr>cr_Status := cr_Status cr\<rparr>"
    using ap by (auto simp: applyDisabledStatus_def Let_def split: prod.splits)
  moreover have "marked_disabled (label_of k) cr" using props(1,2) by (simp add: marked_disabled_def)
  ultimately have "grows lg P (op_cluster s) (snd (update_of k (d_Client d) cr (op_cluster s)))"
    by (intro grows_status[OF assms(2,3)] assms(4)[OF old])
  moreover have "op_cluster s' = op_cluster s \<or> op_cluster s' = snd (update_of k (d_Client d) cr (op_cluster s))"
    using assms(1) Inr ap props(7)
      loki_disabled.Reconcile_got[of d req s old changed cr s1] mimir_disabled.Reconcile_got[of d req s old changed cr s1]
    by (cases k) (auto simp: lokiTargetLabel_def mimirTargetLabel_def split: if_splits prod.splits)
  ultimately show ?thesis by auto
qed

lemma step_grows:
  assumes st: "fully_started en fl st" and lg: "logs_calls lg (en_Client en)"
    and "op_step lib (en_Client en) st s a s'" and "own_action a"
  shows "grows lg (permitted (en_Client en) (lib_Encoder lib) fl (op_cluster s) a) (op_cluster s) (op_cluster s')"
proof -
  let ?P = "permitted (en_Client en) (lib_Encoder lib) fl (op_cluster s)"
  have active: "grows lg (?P (DidReconcile k e)) (op_cluster s) (op_cluster s')"
    if "active_of k st r" "failing_version (en_Client en) c" "fair sch" "Reconcile_of k lib sch (r\<lparr>r_Client := c\<rparr>) s = (e, s')"
    for k r c sch e
  proof (rule Reconcile_of_grows[where P = "?P (DidReconcile k e)", OF that(4,3) lg])
    show "failing_version (en_Client en) (r_Client (r\<lparr>r_Client := c\<rparr>))" using that(2) by simp
    show "?P (DidReconcile k e) (ApplyCall (desired_ConfigMap (r_OutputCM (r\<lparr>r_Client := c\<rparr>)) body) FieldManager True err)"
      for body err using started_active[OF st that(1)] by auto
    show "?P (DidReconcile k e) (StatusCall k (cr\<lparr>cr_Status := status\<rparr>) err)"
      if "list_of k (en_Client en) (op_cluster s) = Inr items" "cr \<in> set items" for items cr status err
      using started_active[OF st \<open>active_of k st r\<close>] that
      by (auto intro!: bexI[of _ cr])
  qed
  have disabled: "grows lg (?P (DidDisabled k)) (op_cluster s) (op_cluster s')"
    if "\<not> enabled_of k fl" "failing_version (en_Client en) c" "disabled_Reconcile_of k (d\<lparr>d_Client := c\<rparr>) req s = (res, s')"
    for k c d req res
  proof (rule disabled_of_grows[where P = "?P (DidDisabled k)", OF that(3) lg])
    show "failing_version (en_Client en) (d_Client (d\<lparr>d_Client := c\<rparr>))" using that(2) by simp
    show "?P (DidDisabled k) (StatusCall k cr err)"
      if "get_of k (en_Client en) req (op_cluster s) = Inr old" "marked_disabled (label_of k) cr"
        "cr = old\<lparr>cr_Status := cr_Status cr\<rparr>" for old cr err
      unfolding permitted.simps using that \<open>\<not> enabled_of k fl\<close> by blast
  qed
  from assms(3) show ?thesis
  proof cases
    case (step_loki r c sch e)
    then show ?thesis using active[of KindLoki r c sch e] by simp
  next
    case (step_mimir r c sch e)
    then show ?thesis using active[of KindMimir r c sch e] by simp
  next
    case (step_loki_disabled d c req res)
    have "\<not> fl_lokiEnabled fl" by (rule started_disabled(1)[OF st step_loki_disabled(2)])
    then show ?thesis using disabled[of KindLoki c d req res] step_loki_disabled by simp
  next
    case (step_mimir_disabled d c req res)
    have "\<not> fl_mimirEnabled fl" by (rule started_disabled(2)[OF st step_mimir_disabled(2)])
    then show ?thesis using disabled[of KindMimir c d req res] step_mimir_disabled by simp
  next
    case (step_bootstrap b c err)
    have b: "bootstrap_targets (lib_Encoder lib) (b\<lparr>b_Client := c\<rparr>) (enabled_targets fl) s = (err, s')"
      using step_bootstrap(2,4) st by (auto simp: Start_def fully_started_def)
    have "\<exists>k. enabled_of k fl \<and> bt_OutputCM t = output_of k fl" if "t \<in> set (enabled_targets fl)" for t
      using that by (auto simp: enabled_targets_def intro: exI[of _ KindLoki] exI[of _ KindMimir] split: if_splits)
    then have targets: "\<forall>t \<in> set (enabled_targets fl). \<exists>k. enabled_of k fl \<and> bt_OutputCM t = output_of k fl" by blast
    have P: "?P a (ApplyCall (desired_ConfigMap (bt_OutputCM t) body) FieldManager True err')"
      if "t \<in> set (enabled_targets fl)" "Render (lib_Encoder lib) [] = Inr body" for t body err'
      using bspec[OF targets that(1)] that(2) unfolding step_bootstrap(1) by auto
    show ?thesis
      by (rule bootstrap_grows[where P = "?P a", OF lg _ P b]) (simp_all add: step_bootstrap(3))
  qed (use assms(4) in auto)
qed

end
