(* ===== verification/Run_Properties.thy ===== *)
theory Run_Properties
  imports Api_Calls Operator_Properties
begin

text \<open>
  Properties of the running operator (\<open>Operator_Runs\<close>): when the drift check may raise an alarm, that
  a cluster at rest stays so, and what happens when two targets share a config map. The samples are an operator started with the
  default flags on the in-memory server of \<open>Samples\<close>.
\<close>

section \<open>Drift alarms\<close>


lemma mem_orderly: "orderly mem_client"
proof -
  have "status_local (update_of k mem_client) mem_client" for k using mem_status_local by (cases k) simp_all
  then show ?thesis using mem_apply_visible mem_apply_local by (simp add: orderly_def)
qed

definition sample_target_on :: "'w client \<Rightarrow> 'w target_struct" where
  "sample_target_on c = \<lparr>r_Client = c, r_OutputCM = sample_cm, r_Validator = field_validator,
     r_Recorder = True, r_HashCache = True\<rparr>"

lemma controllers_of:
  "fst ` set (su_controllers (snd (main (environment_of c) default_flags))) =
     {LokiActive (sample_target_on c), MimirDisabled \<lparr>d_Client = c, d_Recorder = True\<rparr>}"
  using started_controllers[OF conjunct2[OF main_started[OF main_started_of]]]
  by (simp add: loki_controller_of_def mimir_controller_of_def default_flags_def
      sample_target_on_def sample_cm_def)

lemma sample_controllers:
  "fst ` set (su_controllers (snd (main sample_environment default_flags))) =
     {LokiActive (sample_target field_validator), MimirDisabled \<lparr>d_Client = mem_client, d_Recorder = True\<rparr>}"
  using controllers_of[of mem_client] by (simp add: sample_environment_def sample_target_on_def sample_target_def)

lemma sample_active:
  "active_of k (snd (main sample_environment default_flags)) r \<longleftrightarrow> k = KindLoki \<and> r = sample_target field_validator"
  by (cases k) (simp_all add: sample_controllers)

lemma sample_target_client: "(sample_target v)\<lparr>r_Client := mem_client\<rparr> = sample_target v"
  by (simp add: sample_target_def)

lemma sample_loki_step:
  assumes "loki_Reconcile sample_libs sample_schedule (sample_target field_validator) s = (e, s')"
  shows "op_step sample_libs mem_client (snd (main sample_environment default_flags)) s (DidReconcile KindLoki e) s'"
  by (rule step_loki[OF _ failing_version_refl sample_fair, of "sample_target field_validator"])
    (use assms in \<open>simp_all add: sample_controllers sample_target_client\<close>)

text \<open>The config map is written by somebody else, the operator reconciles, the objects change.\<close>

definition foreign_mem :: mem where
  "foreign_mem = sample_mem\<lparr>mem_cms := [(desired_ConfigMap sample_cm ''overrides: {}'')]\<rparr>"


section \<open>Rest\<close>


definition settled_body :: string where
  "settled_body = show_any (canon (render_doc (spec_output (v_Validate field_validator)
     (spec_valid sample_libs (v_Validate field_validator) [cr_rate]))))"

definition settled_status :: TenantOverrideStatus where
  "settled_status = spec_status sample_cm (spec_envelope sample_libs (v_Validate field_validator) cr_rate)
     (spec_valid sample_libs (v_Validate field_validator) [cr_rate])
     \<lparr>res_Hash = Hash settled_body, res_Generation = 3, res_Skipped = True\<rparr>"

definition settled_cr :: TenantOverride where
  "settled_cr = cr_rate\<lparr>cr_Status := settled_status\<rparr>"

definition settled_cm :: ConfigMap where
  "settled_cm = live_cm\<lparr>cm_Data := [(DataKey, settled_body)]\<rparr>"

definition settled_mem :: mem where
  "settled_mem = \<lparr>mem_cms = [settled_cm], mem_loki = [settled_cr], mem_mimir = []\<rparr>"

lemma not_needsUpdate_same: "\<not> needsUpdate (spec_status cm e valid res) (spec_status cm e valid res)"
proof -
  let ?cs = "st_Conditions (spec_status cm e valid res)"
  have "\<not> takes_reading ?cs d" if "d \<in> set ?cs" for d
    using that by (auto simp: spec_status_def takes_reading_iff vocabulary split: option.splits)
  then have "\<not> conditionsChanged ?cs ?cs"
    by (simp add: conditionsChanged_iff[OF spec_status_distinct])
  then show ?thesis by (simp add: needsUpdate_def peersChanged_iff)
qed

lemma settled_spec:
  "spec_envelope lib validate (cr\<lparr>cr_Status := st\<rparr>) =
     (spec_envelope lib validate cr)\<lparr>env_CR := cr\<lparr>cr_Status := st\<rparr>\<rparr>"
  by (simp add: spec_envelope_def override_of_def effective_tenant_def split: sum.split)

lemma spec_status_CR:
  "cr_Generation cr = cr_Generation (env_CR e) \<Longrightarrow>
     spec_status cm (e\<lparr>env_CR := cr\<rparr>) valid res = spec_status cm e valid res"
  by (simp add: spec_status_def split: option.split)

lemma settled_desired:
  shows "spec_body sample_libs (v_Validate field_validator) [settled_cr] = Inr settled_body"
    and "spec_status sample_cm (spec_envelope sample_libs (v_Validate field_validator) settled_cr)
      (spec_valid sample_libs (v_Validate field_validator) [settled_cr])
      \<lparr>res_Hash = Hash settled_body, res_Generation = cm_Generation settled_cm, res_Skipped = True\<rparr> = settled_status"
proof -
  have same: "spec_valid sample_libs (v_Validate field_validator) [settled_cr] =
      spec_valid sample_libs (v_Validate field_validator) [cr_rate]"
    by (simp add: spec_valid_def settled_cr_def settled_spec)
  show "spec_body sample_libs (v_Validate field_validator) [settled_cr] = Inr settled_body"
    by (simp add: spec_body_def same sample_libs_def[THEN arg_cong[where f = lib_Encoder]] sample_Render settled_body_def)
  show "spec_status sample_cm (spec_envelope sample_libs (v_Validate field_validator) settled_cr)
      (spec_valid sample_libs (v_Validate field_validator) [settled_cr])
      \<lparr>res_Hash = Hash settled_body, res_Generation = cm_Generation settled_cm, res_Skipped = True\<rparr> = settled_status"
    unfolding same by (simp add: settled_status_def settled_cr_def settled_spec spec_status_CR settled_cm_def live_cm_def)
qed

lemma sample_settled:
  "settled cl_ListLoki sample_libs (sample_target field_validator) mem_client settled_mem"
proof -
  have live: "cl_GetConfigMap mem_client sample_cm settled_mem = Inr settled_cm"
    by (simp add: mem_client_def mem_GetConfigMap_def settled_mem_def settled_cm_def live_cm_def sample_cm_def cm_id_def)
  moreover have "holds_body mem_client sample_cm settled_body settled_mem"
    by (simp add: holds_body_def live settled_cm_def)
  moreover have "cl_ListLoki mem_client settled_mem = Inr [settled_cr]" by (simp add: mem_client_def settled_mem_def)
  moreover have "cr_Status settled_cr = settled_status" by (simp add: settled_cr_def)
  moreover have "\<not> needsUpdate settled_status settled_status"
    using not_needsUpdate_same by (simp add: settled_status_def)
  ultimately show ?thesis
    unfolding settled_def
    by (intro exI[of _ "[settled_cr]"] exI[of _ settled_body] exI[of _ settled_cm]) (simp add: settled_desired)
qed

lemma sample_at_rest:
  "at_rest sample_libs mem_client default_flags (snd (main sample_environment default_flags)) settled_mem"
proof -
  have "get_of k mem_client req settled_mem = Inl not_found" if "\<not> enabled_of k default_flags" for k req
    using that by (cases k) (simp_all add: default_flags_def mem_client_def settled_mem_def get_cr_def)
  moreover have "settled (list_of k) sample_libs r mem_client settled_mem"
    if "active_of k (snd (main sample_environment default_flags)) r" for k r
    using that sample_settled by (auto simp: sample_active)
  ultimately show ?thesis unfolding at_rest_def by auto
qed


section \<open>A shared config map\<close>


text \<open>A cluster in which nobody uses the second kind.\<close>

definition lone_client :: "mem client" where
  "lone_client = mem_client\<lparr>cl_ListMimir := (\<lambda>w. Inr [])\<rparr>"


section \<open>Calls\<close>

text \<open>C6. The calls by which a reconcile changes the cluster follow the protocol, whatever the API
  server answers and whatever others do between the calls: none when the list of objects or the
  rendered body is missing; then the apply of the config map with exactly the body that the valid
  listed objects define, unless it is there already or cannot be read; and, only after the apply has
  succeeded, one status call in the order of the list for each object whose status is due, with the
  status it should have and nothing else of the object changed. A retry is asked for exactly when one
  of the status calls was answered with a conflict.\<close>

theorem Reconcile_follows_protocol:
  assumes "Reconcile_of k lib sch r s = (e, s')" and "fair sch" and "logs_calls lg (r_Client r)"
  shows "\<exists>calls. lg (op_cluster s') = lg (op_cluster s) @ calls \<and> reconcile_protocol k lib r (op_cluster s) e calls"
  by (rule Reconcile_of_protocol[OF assms])

definition logged_op :: "(mem \<times> api_call list) op" where
  "logged_op = \<lparr>op_cluster = (sample_mem, []), op_hashes = NewHashCache, op_metrics = no_metrics, op_events = [],
     op_clock = (\<lambda>n. unix_epoch + int n * 1000000000)\<rparr>"

theorem Reconcile_follows_protocol_witness:
  "\<exists>e s'. loki_Reconcile sample_libs sample_schedule (sample_target_on (with_log mem_client)) logged_op = (e, s') \<and>
     reconcile_protocol KindLoki sample_libs (sample_target_on (with_log mem_client)) (sample_mem, []) e (snd (op_cluster s'))"
proof -
  obtain e s' where R: "loki_Reconcile sample_libs sample_schedule (sample_target_on (with_log mem_client)) logged_op = (e, s')"
    by fastforce
  have "logs_calls snd (r_Client (sample_target_on (with_log mem_client)))"
    by (simp add: sample_target_on_def with_log_logs)
  from Reconcile_follows_protocol[of KindLoki, OF _ sample_fair this] R
  have "reconcile_protocol KindLoki sample_libs (sample_target_on (with_log mem_client)) (op_cluster logged_op) e
      (snd (op_cluster s'))"
    by (force simp: logged_op_def)
  then show ?thesis using R by (auto simp: logged_op_def)
qed

text \<open>C7. In no state does the operator that \<open>main\<close> has started write anything but what it is there to
  write, whatever the API server answers and however calls fail: an active reconciler applies the
  config map of its target, with one label and one data key, and writes the status of listed objects
  of its kind; a disabled-target reconciler writes the status of the object it was asked for, marked
  as disabled; the bootstrap applies an empty document to the config maps of enabled targets.\<close>

theorem operator_writes:
  assumes "su_started (snd (main en fl))" and "logs_calls lg (en_Client en)"
    and "op_step lib (en_Client en) (snd (main en fl)) s a s'" and "own_action a"
  shows "\<exists>calls. lg (op_cluster s') = lg (op_cluster s) @ calls \<and>
    (\<forall>call \<in> set calls. permitted (en_Client en) (lib_Encoder lib) fl (op_cluster s) a call)"
  using step_grows[OF conjunct2[OF main_started[OF assms(1)]] assms(2-4)] by (simp add: grows_def)

theorem operator_writes_witness:
  "\<exists>e s'. op_step sample_libs (with_log mem_client) (snd (main (environment_of (with_log mem_client)) default_flags))
       logged_op (DidReconcile KindLoki e) s' \<and>
     (\<forall>call \<in> set (snd (op_cluster s')). permitted (with_log mem_client) (lib_Encoder sample_libs) default_flags
        (sample_mem, []) (DidReconcile KindLoki e) call)"
proof -
  let ?c = "with_log mem_client"
  have logs: "logs_calls snd (en_Client (environment_of ?c))" by (simp add: environment_of_def with_log_logs)
  have same: "(sample_target_on ?c)\<lparr>r_Client := ?c\<rparr> = sample_target_on ?c" by (simp add: sample_target_on_def)
  obtain e s' where R: "loki_Reconcile sample_libs sample_schedule (sample_target_on ?c) logged_op = (e, s')"
    by fastforce
  have "op_step sample_libs ?c (snd (main (environment_of ?c) default_flags)) logged_op (DidReconcile KindLoki e) s'"
    by (rule step_loki[OF _ failing_version_refl sample_fair, of "sample_target_on ?c"])
      (use R in \<open>simp_all add: controllers_of same\<close>)
  then have step: "op_step sample_libs (en_Client (environment_of ?c)) (snd (main (environment_of ?c) default_flags))
      logged_op (DidReconcile KindLoki e) s'" by (simp add: environment_of_def)
  from operator_writes[OF main_started_of logs step] show ?thesis
    using step by (auto simp: logged_op_def environment_of_def)
qed

end
