(* ===== verification/Interleaving_Properties.thy ===== *)
theory Interleaving_Properties
  imports Interleaving Run_Properties Liveness
begin

text \<open>
  Properties of the operator call by call (\<open>Interleaving\<close>): what a reconcile brings about among other
  threads, and what the bootstrap may do to it.
\<close>

section \<open>Programs\<close>


section \<open>A reconcile among other threads\<close>


text \<open>The sample operator: its bootstrap ends, then a reconcile of the Loki target runs.\<close>

lemma sample_output: "output_of KindLoki default_flags = sample_cm" "enabled_of k default_flags \<longleftrightarrow> k = KindLoki"
    "outputs_distinct default_flags"
  by (simp_all add: default_flags_def sample_cm_def outputs_distinct_def) (cases k; simp add: default_flags_def)

lemma sample_client: "en_Client sample_environment = mem_client"
  by (simp add: sample_environment_def environment_of_def)

lemma sample_bootstrap_ends:
  "\<exists>evs l. process_reaches sample_libs mem_client (snd (main sample_environment default_flags)) evs
     \<lparr>sy_cluster = foreign_mem, sy_own = l, sy_threads = []\<rparr>"
proof -
  let ?st = "snd (main sample_environment default_flags)"
  have started: "fully_started sample_environment default_flags ?st"
    using main_started[OF sample_main_started] by blast
  then obtain b where b: "su_bootstrap ?st = Some b" "b_Client b = mem_client" "b_Targets b = enabled_targets default_flags"
    by (auto simp: fully_started_def enabled_targets_def default_flags_def sample_environment_def environment_of_def)
  let ?boot = "map_prog DidBootstrap (bootstrap_prog (lib_Encoder sample_libs) (b_HashCache b) (b_Targets b))"
  obtain err s where B: "bootstrap_targets (lib_Encoder sample_libs) b (b_Targets b) (on foreign_mem (own sample_op)) = (err, s)"
    by fastforce
  have "op_cluster s = op_cluster (on foreign_mem (own sample_op))"
    by (rule bootstrap_targets_existing[OF _ B, of mem_client])
      (simp_all add: b failing_version_refl enabled_targets_def default_flags_def mem_client_def mem_GetConfigMap_def
        foreign_mem_def sample_cm_def cm_id_def desired_ConfigMap_def)
  then have "run ?boot mem_client (foreign_mem, own sample_op) = (DidBootstrap err, (foreign_mem, own s))"
    using run_bootstrap[of "lib_Encoder sample_libs" b "b_Targets b" foreign_mem "own sample_op"] B
    by (simp add: run_map b(2))
  from thread_runs[OF this, of Bootstraps sample_libs ?st "[]" "[]"] obtain evs where
    "sys_steps sample_libs mem_client ?st \<lparr>sy_cluster = foreign_mem, sy_own = own sample_op, sy_threads = first_threads sample_libs ?st\<rparr>
      evs \<lparr>sy_cluster = foreign_mem, sy_own = own s, sy_threads = [(Bootstraps, Return (DidBootstrap err))]\<rparr>"
    by (auto simp: first_threads_def b)
  from sys_snoc[OF this thread_ends[of _ "[]" Bootstraps "DidBootstrap err" "[]"]] show ?thesis
    unfolding process_reaches_def
    by (intro exI[of _ "evs @ [Ends Bootstraps (DidBootstrap err)]"] exI[of _ "own s"]
        exI[of _ "\<lparr>sy_cluster = foreign_mem, sy_own = own sample_op, sy_threads = first_threads sample_libs ?st\<rparr>"])
      (simp add: own_def sample_op_def)
qed


section \<open>The bootstrap beside a reconcile\<close>

text \<open>C12. The bootstrap does not run before any reconciler fires, and it may undo what one has published.
  Take an operator with one enabled target whose config map does not exist. There is a run of its
  threads, with no call failing and nobody else acting, in which the bootstrap finds no config map, then
  a whole reconcile reports success, and then the bootstrap goes on and leaves in the config map, and in
  the hash cache, the document without tenants.\<close>

theorem bootstrap_overwrites_published:
  assumes "su_started (snd (main en fl))" and "orderly (en_Client en)" and "apply_accepted (en_Client en)"
    and "\<forall>k'. enabled_of k' fl \<longleftrightarrow> k' = k" and "active_of k (snd (main en fl)) r" and "fair sch"
    and "op_hashes s = NewHashCache" and "cl_GetConfigMap (en_Client en) (output_of k fl) (op_cluster s) = Inl err"
    and "Reconcile_of k lib sch r s = (Returned q None, s')" and "Render (lib_Encoder lib) [] = Inr body"
  shows "\<exists>evs evs' \<sigma> \<sigma>'.
    process_reaches lib (en_Client en) (snd (main en fl)) (evs @ [Ends (Reconciles k) (DidReconcile k (Returned q None))]) \<sigma> \<and>
    set evs \<subseteq> {Goes Bootstraps, Begins (Reconciles k), Goes (Reconciles k)} \<and> on (sy_cluster \<sigma>) (sy_own \<sigma>) = s' \<and>
    sys_steps lib (en_Client en) (snd (main en fl)) \<sigma> (evs' @ [Ends Bootstraps (DidBootstrap None)]) \<sigma>' \<and>
    set evs' \<subseteq> {Goes Bootstraps} \<and> holds_body (en_Client en) (output_of k fl) body (sy_cluster \<sigma>') \<and>
    HashCache_Get (op_hashes (sy_own \<sigma>')) (label_of k) = Some (Hash body)"
proof -
  let ?c = "en_Client en" and ?st = "snd (main en fl)" and ?n = "output_of k fl"
  let ?boot = "map_prog DidBootstrap (bootstrap_prog (lib_Encoder lib) True [\<lparr>bt_Name = label_of k, bt_OutputCM = ?n\<rparr>])"
  let ?mid = "bootstrap_midway lib (label_of k) ?n body"
  note started = conjunct2[OF main_started[OF assms(1)]]
  have first: "first_threads lib ?st = [(Bootstraps, ?boot)]"
    using started single_target[OF assms(4)] by (auto simp: first_threads_def fully_started_def)
  have nf: "IsNotFound err" using assms(3,8) unfolding apply_accepted_def by blast
  define \<sigma>0 where "\<sigma>0 = \<lparr>sy_cluster = op_cluster s, sy_own = own s, sy_threads = [(Bootstraps, ?boot)]\<rparr>"
  define \<sigma>1 where "\<sigma>1 = \<lparr>sy_cluster = op_cluster s, sy_own = own s, sy_threads = [(Bootstraps, ?mid)]\<rparr>"
  define \<sigma>2 where "\<sigma>2 = \<lparr>sy_cluster = op_cluster s, sy_own = own s,
     sy_threads = [(Bootstraps, ?mid)] @ (Reconciles k, reconcile_thread k lib sch r) # []\<rparr>"
  define \<sigma>3 where "\<sigma>3 = \<lparr>sy_cluster = op_cluster s', sy_own = own s',
     sy_threads = [(Bootstraps, ?mid)] @ (Reconciles k, Return (DidReconcile k (Returned q None))) # []\<rparr>"
  define \<sigma>4 where "\<sigma>4 = \<lparr>sy_cluster = op_cluster s', sy_own = own s', sy_threads = [] @ (Bootstraps, ?mid) # []\<rparr>"
  have 1: "sys_step lib ?c ?st \<sigma>0 (Goes Bootstraps) \<sigma>1"
    unfolding \<sigma>0_def \<sigma>1_def
    using thread_goes[of "\<lparr>sy_cluster = op_cluster s, sy_own = own s, sy_threads = [(Bootstraps, ?boot)]\<rparr>" "[]" Bootstraps ?boot "[]",
        where st = ?st, OF _ _ failing_version_refl] bootstrap_found_nothing[OF assms(8) nf assms(10)]
    by simp
  have 2: "sys_step lib ?c ?st \<sigma>1 (Begins (Reconciles k)) \<sigma>2"
    using begin_reconcile[OF assms(5,6), of \<sigma>1 lib ?c] by (simp add: \<sigma>1_def \<sigma>2_def)
  have "run (reconcile_thread k lib sch r) ?c (op_cluster s, own s) = (DidReconcile k (Returned q None), (op_cluster s', own s'))"
    using run_reconcile[of k lib sch r "op_cluster s" "own s"] started_client[OF started assms(5)] assms(9)
    by (simp add: reconcile_thread_def run_map on_own)
  from thread_runs[OF this] obtain evs where evs: "set evs \<subseteq> {Goes (Reconciles k)}" "sys_steps lib ?c ?st \<sigma>2 evs \<sigma>3"
    unfolding \<sigma>2_def \<sigma>3_def by blast
  have 4: "sys_step lib ?c ?st \<sigma>3 (Ends (Reconciles k) (DidReconcile k (Returned q None))) \<sigma>4"
    using thread_ends[of \<sigma>3 "[(Bootstraps, ?mid)]", where st = ?st] by (simp add: \<sigma>3_def \<sigma>4_def)
  obtain w l where mid: "run ?mid ?c (op_cluster s', own s') = (DidBootstrap None, (w, l))" "holds_body ?c ?n body w"
      "HashCache_Get (op_hashes l) (label_of k) = Some (Hash body)"
    using run_bootstrap_midway[OF assms(2,3)] by blast
  from thread_runs[OF mid(1)] obtain evs' where evs': "set evs' \<subseteq> {Goes Bootstraps}" "sys_steps lib ?c ?st \<sigma>4 evs'
      \<lparr>sy_cluster = w, sy_own = l, sy_threads = [] @ (Bootstraps, Return (DidBootstrap None)) # []\<rparr>"
    unfolding \<sigma>4_def by blast
  have 5: "sys_step lib ?c ?st \<lparr>sy_cluster = w, sy_own = l, sy_threads = [] @ (Bootstraps, Return (DidBootstrap None)) # []\<rparr>
      (Ends Bootstraps (DidBootstrap None)) \<lparr>sy_cluster = w, sy_own = l, sy_threads = []\<rparr>"
    using thread_ends[of "\<lparr>sy_cluster = w, sy_own = l, sy_threads = [(Bootstraps, Return (DidBootstrap None))]\<rparr>" "[]", where st = ?st] by simp
  have "sys_steps lib ?c ?st \<sigma>0 (Goes Bootstraps # Begins (Reconciles k) # evs @ [Ends (Reconciles k) (DidReconcile k (Returned q None))]) \<sigma>4"
    by (intro sys_Cons[OF 1] sys_Cons[OF 2] sys_snoc[OF evs(2) 4])
  then have "process_reaches lib ?c ?st ((Goes Bootstraps # Begins (Reconciles k) # evs) @ [Ends (Reconciles k) (DidReconcile k (Returned q None))]) \<sigma>4"
    unfolding process_reaches_def by (intro exI[of _ \<sigma>0]) (simp add: \<sigma>0_def first assms(7) own_def)
  moreover have "on (sy_cluster \<sigma>4) (sy_own \<sigma>4) = s'" by (simp add: \<sigma>4_def on_own)
  ultimately show ?thesis
    using evs(1) evs'(1) sys_snoc[OF evs'(2) 5] mid(2,3)
    by (intro exI[of _ "Goes Bootstraps # Begins (Reconciles k) # evs"] exI[of _ evs'] exI[of _ \<sigma>4] exI) auto
qed

theorem bootstrap_overwrites_published_witness:
  "\<exists>evs \<sigma>. process_reaches sample_libs mem_client (snd (main sample_environment default_flags)) evs \<sigma> \<and>
     (\<exists>q. Ends (Reconciles KindLoki) (DidReconcile KindLoki (Returned q None)) \<in> set evs) \<and>
     holds_body mem_client sample_cm (show_any (canon (render_doc []))) (sy_cluster \<sigma>)"
proof -
  let ?st = "snd (main sample_environment default_flags)" and ?body = "show_any (canon (render_doc []))"
  obtain q s' where R: "Reconcile_of KindLoki sample_libs sample_schedule (sample_target field_validator) sample_op = (Returned q None, s')"
    using sample_loki_reconciles[of field_validator sample_op sample_schedule] sample_plain sample_fair by auto
  have accepted: "apply_accepted mem_client" using mem_settling by (simp add: settling_server_def)
  have only: "\<forall>k'. enabled_of k' default_flags \<longleftrightarrow> k' = KindLoki" by (simp add: sample_output)
  have active: "active_of KindLoki ?st (sample_target field_validator)" by (simp add: sample_active)
  have new: "op_hashes sample_op = NewHashCache" by (simp add: sample_op_def)
  have missing: "cl_GetConfigMap mem_client (output_of KindLoki default_flags) (op_cluster sample_op) = Inl not_found"
    by (simp add: mem_client_def mem_GetConfigMap_def sample_op_def sample_mem_def)
  have empty: "Render (lib_Encoder sample_libs) [] = Inr ?body" by (simp add: sample_libs_def sample_Render)
  from bootstrap_overwrites_published[OF sample_main_started, unfolded sample_client,
      OF mem_orderly accepted only active sample_fair new missing R empty]
  obtain evs evs' \<sigma> \<sigma>' where
    A: "process_reaches sample_libs mem_client ?st (evs @ [Ends (Reconciles KindLoki) (DidReconcile KindLoki (Returned q None))]) \<sigma>"
    and B: "sys_steps sample_libs mem_client ?st \<sigma> (evs' @ [Ends Bootstraps (DidBootstrap None)]) \<sigma>'"
    and C: "holds_body mem_client sample_cm ?body (sy_cluster \<sigma>')"
    by (auto simp: sample_output simp del: output_of.simps)
  from A obtain s0 where "op_hashes (sy_own s0) = NewHashCache" "sy_threads s0 = first_threads sample_libs ?st"
    "sys_steps sample_libs mem_client ?st s0 (evs @ [Ends (Reconciles KindLoki) (DidReconcile KindLoki (Returned q None))]) \<sigma>"
    by (auto simp: process_reaches_def)
  then have "process_reaches sample_libs mem_client ?st ((evs @ [Ends (Reconciles KindLoki) (DidReconcile KindLoki (Returned q None))])
      @ (evs' @ [Ends Bootstraps (DidBootstrap None)])) \<sigma>'"
    unfolding process_reaches_def using sys_append[OF B] by blast
  then show ?thesis using C by fastforce
qed

end
