(* ===== verification/Reports.thy ===== *)
theory Reports
  imports Kinds
begin

text \<open>
  What a reconcile reports: the events it sends, the counter of conflicts of equal weights and the
  gauges, from the merge of the tenants through the status pass to the state in which it returns.
\<close>

section \<open>The losers of a conflict\<close>

text \<open>Every reference that the merge keeps is one of the contributions merged so far.\<close>

definition refs_from :: "CRRef set \<Rightarrow> tracking \<Rightarrow> bool" where
  "refs_from R st \<longleftrightarrow>
     (\<forall>key w. tr_provenance st key = Some w \<longrightarrow> wi_ref w \<in> R) \<and>
     (\<forall>key fc. tr_conflicts st key = Some fc \<longrightarrow> set (fc_Losers fc) \<subseteq> R)"

lemma refs_from_conflict:
  assumes "refs_from R st" and "wi_ref prior \<in> R"
  shows "refs_from R (record_conflict tenant ref p key prior st)"
  using assms by (auto simp: refs_from_def record_conflict_def Let_def split: option.splits if_splits)

lemma refs_from_visit:
  assumes "visit tenant ref p value st = Done st'" and "refs_from R st" and "ref \<in> R"
  shows "refs_from R st'"
proof -
  obtain st1 where st': "st' = st1\<lparr>tr_provenance := (tr_provenance st1)(path_key p \<mapsto> \<lparr>wi_ref = ref, wi_value = value\<rparr>)\<rparr>"
      and st1: "st1 = st \<or> (\<exists>prior. tr_provenance st (path_key p) = Some prior \<and>
        st1 = record_conflict tenant ref p (path_key p) prior st)"
    using assms(1) by (simp add: visit_def Let_def split: option.splits outcome.splits bool.splits) blast+
  have "refs_from R st1"
    using st1
  proof (elim disjE exE conjE)
    fix prior assume "tr_provenance st (path_key p) = Some prior"
      and c: "st1 = record_conflict tenant ref p (path_key p) prior st"
    then have "wi_ref prior \<in> R" using assms(2) by (simp add: refs_from_def)
    then show ?thesis unfolding c by (rule refs_from_conflict[OF assms(2)])
  qed (use assms(2) in simp)
  then show ?thesis using assms(3) by (auto simp: st' refs_from_def split: if_splits)
qed

lemma refs_from_visit_all:
  "visit_all tenant ref vs st = Done st' \<Longrightarrow> refs_from R st \<Longrightarrow> ref \<in> R \<Longrightarrow> refs_from R st'"
  by (induction tenant ref vs st rule: visit_all.induct)
    (auto split: outcome.splits dest: refs_from_visit)

lemma refs_from_overrides:
  "track_overrides tenant crs st = Done st' \<Longrightarrow> refs_from R st \<Longrightarrow> refOf ` set crs \<subseteq> R \<Longrightarrow> refs_from R st'"
proof (induction tenant crs st rule: track_overrides.induct)
  case (2 tenant cr crs st)
  then obtain st1 where v: "visit_all tenant (refOf cr) (walkLeaves (ov_Overrides cr) []) st = Done st1"
    by (auto split: outcome.splits)
  have "refs_from R st1" by (rule refs_from_visit_all[OF v 2(3)]) (use 2(4) in simp)
  then have "refs_from R (st1\<lparr>tr_merged := DeepMerge (Some (tr_merged st1)) (ov_Overrides cr)\<rparr>)"
    by (simp add: refs_from_def)
  from 2(1)[OF v _ this] 2(2,4) v show ?case by simp
qed simp

lemma materialize_conflicts:
  "materialize cs ks = Done out \<Longrightarrow> fc \<in> set out \<Longrightarrow> \<exists>k. cs k = Some fc"
  by (induction cs ks arbitrary: out rule: materialize.induct) (auto split: option.splits outcome.splits)

lemma TrackingMerge_losers:
  assumes "TrackingMerge tenant crs = Done (m, fcs)" and "fc \<in> set fcs"
  shows "set (fc_Losers fc) \<subseteq> refOf ` set crs"
proof -
  obtain st where st: "track_overrides tenant crs tracking_start = Done st"
      and out: "materialize (tr_conflicts st) (tr_pathKeyOrder st) = Done fcs"
    using assms(1) by (auto simp: TrackingMerge_def split: outcome.splits)
  have "refs_from (refOf ` set crs) st"
    by (rule refs_from_overrides[OF st]) (simp_all add: refs_from_def tracking_start_def)
  then show ?thesis using materialize_conflicts[OF out assms(2)] unfolding refs_from_def by blast
qed

section \<open>The conflicts of a reconcile\<close>

text \<open>The conflicts of a tenant that is published: those of the merge of its layers.\<close>

definition spec_conflicts ::
  "(anymap \<Rightarrow> go_error option) \<Rightarrow> Override list \<Rightarrow> string \<Rightarrow> FieldConflict list option" where
  "spec_conflicts validate valid t =
     (if spec_tenant validate valid t = None then None
      else case TrackingMerge t (layers valid t) of Panic msg \<Rightarrow> None | Done (m, fcs) \<Rightarrow> Some fcs)"

text \<open>The events that belong to a conflict: one for each loser, to the loser.\<close>

definition conflict_report :: "string \<Rightarrow> FieldConflict \<Rightarrow> event list" where
  "conflict_report t fc = map (\<lambda>l. \<lparr>ev_Object = ref_id l, ev_Type = EventTypeNormal,
     ev_Reason = ''FieldOverridden'',
     ev_Message = conflict_message (strings_Join (fc_Path fc) ''.'') fc t\<rparr>) (fc_Losers fc)"

lemma loser_events_report:
  assumes "distinct_crs crs" and "losers_known crs fc"
  shows "loser_events (map (spec_envelope lib validate) crs) t fc = conflict_report t fc"
proof -
  have "loser_event (map (spec_envelope lib validate) crs) t fc l = [\<lparr>ev_Object = ref_id l,
      ev_Type = EventTypeNormal, ev_Reason = ''FieldOverridden'',
      ev_Message = conflict_message (strings_Join (fc_Path fc) ''.'') fc t\<rparr>]"
    if l: "l \<in> set (fc_Losers fc)" for l
  proof -
    obtain cr where cr: "cr \<in> set crs" "ref_Namespace l = cr_Namespace cr" "ref_Name l = cr_Name cr"
      using bspec[OF assms(2)[unfolded losers_known_def] l] by blast
    from spec_lookup_self[OF assms(1) cr(1)] show ?thesis
      by (simp add: loser_event_def cr(2,3) ref_id_def cr_id_def)
  qed
  then have "concat (map (loser_event (map (spec_envelope lib validate) crs) t fc) ls) =
      map (\<lambda>l. \<lparr>ev_Object = ref_id l, ev_Type = EventTypeNormal, ev_Reason = ''FieldOverridden'',
        ev_Message = conflict_message (strings_Join (fc_Path fc) ''.'') fc t\<rparr>) ls"
    if "set ls \<subseteq> set (fc_Losers fc)" for ls
    using that by (induction ls) simp_all
  then show ?thesis by (simp add: loser_events_def conflict_report_def)
qed

text \<open>The losers of the conflicts of valid objects are listed.\<close>

lemma spec_conflicts_known:
  assumes "spec_conflicts validate (spec_valid lib validate items) t = Some fcs" and "fc \<in> set fcs"
  shows "losers_known items fc"
proof -
  let ?valid = "spec_valid lib validate items"
  obtain m where "TrackingMerge t (layers ?valid t) = Done (m, fcs)"
    using assms(1) by (auto simp: spec_conflicts_def split: if_splits outcome.splits)
  from TrackingMerge_losers[OF this assms(2)]
  have sub: "set (fc_Losers fc) \<subseteq> refOf ` set ?valid" by (auto simp: set_layers)
  show ?thesis
    unfolding losers_known_def
  proof
    fix l assume "l \<in> set (fc_Losers fc)"
    then obtain ov where ov: "ov \<in> set ?valid" "l = refOf ov" using sub by auto
    from ov(1)[unfolded spec_valid_member] show "\<exists>cr \<in> set items. ref_Namespace l = cr_Namespace cr \<and> ref_Name l = cr_Name cr"
      by (auto simp: ov(2) refOf_def override_of_def)
  qed
qed

lemma conflict_events_report:
  assumes "distinct_crs items"
    and "\<And>t fcs. (t, fcs) \<in> set cs \<Longrightarrow> spec_conflicts validate (spec_valid lib validate items) t = Some fcs"
  shows "conflict_events (map (spec_envelope lib validate) items) cs =
    concat (map (\<lambda>(t, fcs). concat (map (conflict_report t) fcs)) cs)"
proof -
  have "concat (map (loser_events (map (spec_envelope lib validate) items) t) fcs) = concat (map (conflict_report t) fcs)"
    if "(t, fcs) \<in> set cs" for t fcs
    using loser_events_report[OF assms(1) spec_conflicts_known[OF assms(2)[OF that]]]
    by (intro arg_cong[of _ _ concat] map_cong) simp_all
  then show ?thesis unfolding conflict_events_def by (intro arg_cong[of _ _ concat] map_cong) auto
qed

section \<open>The counter of conflicts\<close>

abbreviation conflict_count :: "'w op \<Rightarrow> string list \<Rightarrow> nat" where
  "conflict_count s \<equiv> m_counters (op_metrics s) FieldConflictsTotal"

definition same_weight_at :: "string \<Rightarrow> FieldConflict \<Rightarrow> bool" where
  "same_weight_at field fc \<longleftrightarrow> fc_SameWeight fc \<and> strings_Join (fc_Path fc) ''.'' = field"

lemma conflict_metrics_tenant:
  "m_counters (foldl (\<lambda>m fc. if fc_SameWeight fc
       then Inc FieldConflictsTotal [label, u, strings_Join (fc_Path fc) ''.''] m else m) m fcs)
     FieldConflictsTotal [label, t, field] =
   m_counters m FieldConflictsTotal [label, t, field] +
     (if u = t then length (filter (same_weight_at field) fcs) else 0)"
  by (induction fcs arbitrary: m) (auto simp: counters_Inc same_weight_at_def)

lemma conflict_metrics_count:
  "gomap_ok cs \<Longrightarrow> m_counters (conflict_metrics label cs m) FieldConflictsTotal [label, t, field] =
     m_counters m FieldConflictsTotal [label, t, field] +
     (case map_of cs t of None \<Rightarrow> 0 | Some fcs \<Rightarrow> length (filter (same_weight_at field) fcs))"
proof (induction cs arbitrary: m)
  case (Cons c cs)
  obtain u fcs where c: "c = (u, fcs)" by fastforce
  let ?m = "foldl (\<lambda>m fc. if fc_SameWeight fc
    then Inc FieldConflictsTotal [label, u, strings_Join (fc_Path fc) ''.''] m else m) m fcs"
  have step: "conflict_metrics label (c # cs) m = conflict_metrics label cs ?m"
    by (simp add: conflict_metrics_def c)
  have "map_of cs u = None" "gomap_ok cs" using Cons.prems by (simp_all add: c)
  then show ?case
    unfolding step Cons.IH[OF \<open>gomap_ok cs\<close>] conflict_metrics_tenant by (auto simp: c split: option.split)
qed (simp add: conflict_metrics_def)

lemma conflict_metrics_gauges [simp]: "m_gauges (conflict_metrics label cs m) = m_gauges m"
proof -
  have "m_gauges (foldl (\<lambda>m fc. if fc_SameWeight fc
      then Inc FieldConflictsTotal [label, u, strings_Join (fc_Path fc) ''.''] m else m) m fcs) = m_gauges m" for u fcs m
    by (induction fcs arbitrary: m) simp_all
  note tenant = this
  show ?thesis unfolding conflict_metrics_def by (induction cs arbitrary: m) (simp_all add: tenant split: prod.split)
qed

lemma count_invalid_conflicts [simp]:
  "conflict_count (count_invalid label lib validate cr s) = conflict_count s"
  by (simp add: count_invalid_def counters_Inc fun_eq_iff split: sum.split option.split)

lemma counts_invalid_conflicts [simp]:
  "conflict_count (foldl (\<lambda>s cr. count_invalid label lib validate cr s) s crs) = conflict_count s"
  by (induction crs arbitrary: s) simp_all

text \<open>The event about drift that the reconcile has reverted.\<close>

definition drift_report :: "'w target_struct \<Rightarrow> bool \<times> string \<Rightarrow> 'w \<Rightarrow> event list" where
  "drift_report r drift w =
     (if \<not> fst drift then []
      else case cl_GetConfigMap (r_Client r) (r_OutputCM r) w of
        Inl err \<Rightarrow> []
      | Inr live \<Rightarrow> [\<lparr>ev_Object = cm_id live, ev_Type = EventTypeWarning, ev_Reason = ''ConfigMapDrifted'',
          ev_Message = ''third-party write reverted (field manager: '' @ snd drift @ '')''\<rparr>])"

context target_reconciler
begin

section \<open>Merging\<close>

lemma merge_groups_conflicts:
  assumes "merge_groups r gs out cs s = (Done (out', cs'), s')" and "gomap_ok gs" and "gomap_ok cs"
  shows "gomap_ok cs' \<and> conflict_count s' = conflict_count s \<and>
    map_of cs' t = (case map_of gs t of
      None \<Rightarrow> map_of cs t
    | Some g \<Rightarrow> (case TrackingMerge t (SortGroup g) of
        Panic msg \<Rightarrow> map_of cs t
      | Done (m, fcs) \<Rightarrow> if verdict r m = None then Some fcs else map_of cs t))"
  using assms
proof (induction gs arbitrary: out cs s)
  case Nil
  then show ?case by (simp add: merge_groups_Nil)
next
  case (Cons ug gs)
  obtain u g where ug: "ug = (u, g)" by fastforce
  obtain m fcs where tm: "TrackingMerge u (SortGroup g) = Done (m, fcs)"
    using Cons.prems(1) by (cases "TrackingMerge u (SortGroup g)") (auto simp: ug merge_groups_Cons)
  have gs: "gomap_ok gs" "map_of gs u = None" using Cons.prems(2) by (simp_all add: ug)
  show ?case
  proof (cases "verdict r m")
    case None
    have "merge_groups r gs (gomap_put u m out) (gomap_put u fcs cs) s = (Done (out', cs'), s')"
      using Cons.prems(1) by (simp add: ug merge_groups_Cons tm None)
    from Cons.IH[OF this gs(1)] Cons.prems(3) show ?thesis
      using gs(2) by (auto simp: ug tm None split: option.split outcome.split)
  next
    case (Some err)
    let ?s = "op_Inc ValidationErrorsTotal [label, u, ''merged_result_invalid''] s"
    have "merge_groups r gs out cs ?s = (Done (out', cs'), s')"
      using Cons.prems(1) by (simp add: ug merge_groups_Cons tm Some)
    from Cons.IH[OF this gs(1) Cons.prems(3)] show ?thesis
      using gs(2) by (auto simp: ug tm Some counters_Inc fun_eq_iff split: option.split outcome.split)
  qed
qed

text \<open>The tenants with an output are the tenants with a list of conflicts, in the same order.\<close>

lemma merge_groups_keys:
  "merge_groups r gs out cs s = (Done (out', cs'), s') \<Longrightarrow> map fst out = map fst cs \<Longrightarrow> map fst out' = map fst cs'"
proof (induction gs arbitrary: out cs s)
  case Nil
  then show ?case by (simp add: merge_groups_Nil)
next
  case (Cons ug gs)
  obtain u g where ug: "ug = (u, g)" by fastforce
  obtain m fcs where tm: "TrackingMerge u (SortGroup g) = Done (m, fcs)"
    using Cons.prems(1) by (cases "TrackingMerge u (SortGroup g)") (auto simp: ug merge_groups_Cons)
  show ?case
  proof (cases "verdict r m")
    case None
    have "merge_groups r gs (gomap_put u m out) (gomap_put u fcs cs) s = (Done (out', cs'), s')"
      using Cons.prems(1) by (simp add: ug merge_groups_Cons tm None)
    from Cons.IH[OF this] Cons.prems(2) show ?thesis by (simp only: update_keys)
  next
    case (Some err)
    then show ?thesis using Cons.IH Cons.prems by (simp add: ug merge_groups_Cons tm)
  qed
qed

text \<open>What the merge collects is what the valid objects define, tenant by tenant.\<close>

lemma conflicts_spec:
  assumes "fair sch" and "merge_groups r (sch_groups sch (GroupByTenant valid)) [] [] s = (Done (out, cs), s')"
  shows "gomap_ok cs" and "conflict_count s' = conflict_count s"
    and "map_of cs t = spec_conflicts (verdict r) valid t"
proof -
  let ?gs = "sch_groups sch (GroupByTenant valid)"
  have ms: "mset (GroupByTenant valid) = mset ?gs" using assms(1) by (simp add: fair_def)
  have ok: "gomap_ok ?gs" and look: "map_of ?gs = map_of (GroupByTenant valid)"
    using gomap_ok_perm[OF ms] map_of_perm[OF ms] by simp_all
  note spec = merge_groups_conflicts[OF assms(2) ok gomap_ok_Nil]
  show "gomap_ok cs" "conflict_count s' = conflict_count s" using spec by blast+
  have cs: "map_of cs t = (case map_of (GroupByTenant valid) t of
      None \<Rightarrow> None
    | Some g \<Rightarrow> (case TrackingMerge t (SortGroup g) of
        Panic msg \<Rightarrow> None | Done (m, fcs) \<Rightarrow> if verdict r m = None then Some fcs else None))"
    using spec[of t] by (auto simp: look split: option.splits outcome.splits)
  show "map_of cs t = spec_conflicts (verdict r) valid t"
  proof (cases "layers valid t = []")
    case True
    then show ?thesis using cs
      by (simp add: map_of_GroupByTenant Let_def layers_def spec_conflicts_def spec_tenant_def)
  next
    case False
    then have g: "map_of (GroupByTenant valid) t = Some (filter (\<lambda>c. ov_TenantId c = t) valid)"
      by (simp add: map_of_GroupByTenant Let_def layers_def)
    show ?thesis
    proof (cases "TrackingMerge t (layers valid t)")
      case (Done mf)
      obtain m fcs where mf: "mf = (m, fcs)" by fastforce
      have m: "m = merge_overrides [] (layers valid t)" using merged_is Done mf by blast
      have st: "spec_tenant (verdict r) valid t = (if verdict r m = None then Some m else None)"
        using False by (simp add: spec_tenant_def Let_def m)
      show ?thesis
        unfolding cs spec_conflicts_def g st using Done by (simp add: layers_def mf)
    next
      case (Panic msg)
      then show ?thesis unfolding cs spec_conflicts_def g by (simp add: layers_def)
    qed
  qed
qed

section \<open>Reporting\<close>

lemma update_one_metrics: "update_one r e valid res s = (hit, s') \<Longrightarrow> op_metrics s' = op_metrics s"
proof -
  assume up: "update_one r e valid res s = (hit, s')"
  obtain st s1 where st: "updated_status (cr_Status (env_CR e)) (spec_status (r_OutputCM r) e valid res) s = (st, s1)"
    by fastforce
  then have "same_but_clock s s1"
    by (auto simp: updated_status_def split: prod.splits dest: op_upserts_clock)
  with up show ?thesis
    by (auto simp: update_one_eq st same_but_clock_def Let_def split: prod.splits if_splits)
qed

lemma update_all_metrics: "update_all r envs valid res hit s = (hit', s') \<Longrightarrow> op_metrics s' = op_metrics s"
proof (induction envs arbitrary: hit s)
  case (Cons e envs)
  obtain h s1 where one: "update_one r e valid res s = (h, s1)" by fastforce
  then show ?case
    using Cons.IH[of "hit \<or> h" s1] Cons.prems update_one_metrics[OF one] by (simp add: update_all_Cons)
qed (simp add: update_all_Nil)

lemma finish_reports:
  assumes "finish sch r drift envs valid out cs res s = (e, s')" and "r_Recorder r"
  shows "op_events s' = op_events s @ drift_report r drift (op_cluster s) @ conflict_events envs (sch_conflicts sch cs)"
    and "m_gauges (op_metrics s') ActiveCRs [label] = Some (int (length envs))"
    and "m_gauges (op_metrics s') ActiveTenants [label] = Some (int (length out))"
    and "gomap_ok (sch_conflicts sch cs) \<Longrightarrow> conflict_count s' [label, t, field] = conflict_count s [label, t, field] +
      (case map_of (sch_conflicts sch cs) t of None \<Rightarrow> 0 | Some fcs \<Rightarrow> length (filter (same_weight_at field) fcs))"
proof -
  let ?s1 = "op_Inc ReconcileTotal [label, result_label (if res_Skipped res then ResultNoop else ResultSuccess)] s"
  let ?s2 = "if r_HashCache r then op_SetHash label (res_Hash res) ?s1 else ?s1"
  let ?s3 = "if fst drift \<and> r_Recorder r
     then (case cl_GetConfigMap (r_Client r) (r_OutputCM r) (op_cluster ?s2) of
             Inr live \<Rightarrow> op_Event (cm_id live) EventTypeWarning ''ConfigMapDrifted''
               (''third-party write reverted (field manager: '' @ snd drift @ '')'') ?s2
           | Inl err \<Rightarrow> ?s2)
     else ?s2"
  let ?s5 = "op_SetGauge ActiveTenants [label] (int (length out))
     (op_SetGauge ActiveCRs [label] (int (length envs)) ?s3)"
  obtain now s6 where now: "Now ?s5 = (now, s6)" by fastforce
  let ?s7 = "op_SetGauge LastReconcileTimestamp [label] ((now - unix_epoch) div 1000000000) s6"
  obtain hit s8 where up: "update_all r envs valid res False (emit r envs (sch_conflicts sch cs) ?s7) = (hit, s8)"
    by fastforce
  have s': "s' = s8"
    using assms(1) unfolding finish_eq Let_def now prod.case up by simp
  have "op_events ?s3 = op_events s @ drift_report r drift (op_cluster s)"
    using assms(2) by (simp add: drift_report_def split: sum.split)
  then have "op_events ?s7 = op_events s @ drift_report r drift (op_cluster s)"
    using Now_frame(4)[OF now] by simp
  then show "op_events s' = op_events s @ drift_report r drift (op_cluster s) @ conflict_events envs (sch_conflicts sch cs)"
    using update_all_events[OF up] emit_events[of r envs "sch_conflicts sch cs" ?s7] assms(2) by (simp add: s')
  have g7: "m_gauges (op_metrics ?s7) ActiveCRs [label] = Some (int (length envs))"
      "m_gauges (op_metrics ?s7) ActiveTenants [label] = Some (int (length out))"
    using Now_frame(3)[OF now] by (simp_all add: gauges_SetGauge)
  then show "m_gauges (op_metrics s') ActiveCRs [label] = Some (int (length envs))"
      "m_gauges (op_metrics s') ActiveTenants [label] = Some (int (length out))"
    using update_all_metrics[OF up] emit_metrics[of r envs "sch_conflicts sch cs" ?s7] by (simp_all add: s')
  have "conflict_count ?s3 = conflict_count s"
    by (simp add: counters_Inc fun_eq_iff split: sum.split)
  then have "conflict_count ?s7 = conflict_count s"
    using Now_frame(3)[OF now] by simp
  then show "conflict_count s' [label, t, field] = conflict_count s [label, t, field] +
      (case map_of (sch_conflicts sch cs) t of None \<Rightarrow> 0 | Some fcs \<Rightarrow> length (filter (same_weight_at field) fcs))"
    if "gomap_ok (sch_conflicts sch cs)"
    using update_all_metrics[OF up] emit_metrics[of r envs "sch_conflicts sch cs" ?s7] conflict_metrics_count[OF that]
    by (simp add: s')
qed

text \<open>
  The account of a reconcile that reports no error: after an event about drift, if it was found,
  come the events of the conflicts of the published tenants, each once; the counter has grown
  by the conflicts of equal weights, and the gauges tell the numbers of objects and of tenants.
\<close>

lemma Reconcile_reports:
  assumes R: "Reconcile lib sch r s = (Returned q None, s')" and "fair sch" and "r_Recorder r"
    and items: "list_crs (r_Client r) (op_cluster s) = Inr items" and "distinct_crs items"
  obtains cs w where "gomap_ok cs"
    and "\<And>t. map_of cs t = spec_conflicts (verdict r) (spec_valid lib (verdict r) items) t"
    and "op_events s' = op_events s @ drift_report r (checkDrift r s) w @
      concat (map (\<lambda>(t, fcs). concat (map (conflict_report t) fcs)) cs)"
    and "\<And>t field. conflict_count s' [label, t, field] = conflict_count s [label, t, field] +
      (case map_of cs t of None \<Rightarrow> 0 | Some fcs \<Rightarrow> length (filter (same_weight_at field) fcs))"
    and "m_gauges (op_metrics s') ActiveCRs [label] = Some (int (length items))"
    and "m_gauges (op_metrics s') ActiveTenants [label] = Some (int (length cs))"
    and "\<exists>res body. apply_ConfigMap (r_Client r) (r_OutputCM r) body (op_cluster s) = (Inr res, w)"
proof -
  let ?valid = "spec_valid lib (verdict r) items" and ?drift = "checkDrift r s"
  let ?envs = "map (spec_envelope lib (verdict r)) items"
  define s1 where "s1 = (if fst ?drift then op_Inc OutputDriftTotal [label, snd ?drift] s else s)"
  define s2 where "s2 = foldl (\<lambda>s cr. count_invalid label lib (verdict r) cr s) s1 items"
  have s1: "op_cluster s1 = op_cluster s" "op_events s1 = op_events s" "conflict_count s1 = conflict_count s"
    by (simp_all add: s1_def counters_Inc fun_eq_iff)
  have m2: "only_metrics s1 s2" unfolding s2_def by (rule only_metrics_counts[OF only_metrics_refl])
  have c2: "conflict_count s2 = conflict_count s" by (simp add: s2_def s1)
  have g: "gather lib r s1 = (Inr ?envs, s2)" using items by (simp add: gather_eq s1 s2_def)
  have valid: "valid_overrides ?envs = ?valid" by (simp add: spec_valid_def)
  obtain o3 s3 where mg: "merge_groups r (sch_groups sch (GroupByTenant ?valid)) [] [] s2 = (o3, s3)" by fastforce
  note R' = R[unfolded Reconcile_eq Let_def, folded s1_def, unfolded g prod.case sum.case valid mg]
  obtain out cs where o3: "o3 = Done (out, cs)" using R' by (cases o3) auto
  have m3: "op_cluster s3 = op_cluster s" "op_events s3 = op_events s"
    using s1 m2 merge_groups_metrics[OF mg] by (simp_all add: only_metrics_def)
  note spec = conflicts_spec[OF assms(2) mg[unfolded o3]]
  have c3: "conflict_count s3 = conflict_count s" using spec(2) c2 by simp
  have P: "publish lib sch r ?drift ?envs ?valid out cs s3 = (Returned q None, s')" using R' by (simp add: o3)
  then obtain body where body: "Render (lib_Encoder lib) out = Inr body"
    by (auto simp: publish_eq split: sum.splits)
  obtain ra w where ap: "apply_ConfigMap (r_Client r) (r_OutputCM r) body (op_cluster s) = (ra, w)" by fastforce
  let ?s4 = "op_SetCluster w (op_SetGauge OutputSizeBytes [label] (int (length body)) s3)"
  obtain res where ra: "ra = Inr res" using P by (cases ra) (auto simp: publish_eq body m3 ap)
  have F: "finish sch r ?drift ?envs ?valid out cs res ?s4 = (Returned q None, s')"
    using P by (simp add: publish_eq body m3 ap ra)
  have ms: "mset cs = mset (sch_conflicts sch cs)" using assms(2) by (simp add: fair_def)
  have ok: "gomap_ok (sch_conflicts sch cs)" and look: "map_of (sch_conflicts sch cs) = map_of cs"
    using gomap_ok_perm[OF ms] map_of_perm[OF ms] spec(1) by simp_all
  have known: "spec_conflicts (verdict r) ?valid t = Some fcs" if "(t, fcs) \<in> set (sch_conflicts sch cs)" for t fcs
    using that spec(3)[of t] by (simp add: gomap_get_iff[OF ok, symmetric] look)
  note fin = finish_reports[OF F assms(3)]
  show ?thesis
  proof (rule that)
    show "gomap_ok (sch_conflicts sch cs)" by (rule ok)
    show "map_of (sch_conflicts sch cs) t = spec_conflicts (verdict r) ?valid t" for t by (simp add: look spec(3))
    show "op_events s' = op_events s @ drift_report r ?drift w @
        concat (map (\<lambda>(t, fcs). concat (map (conflict_report t) fcs)) (sch_conflicts sch cs))"
      using fin(1) conflict_events_report[OF assms(5) known] by (simp add: m3)
    show "conflict_count s' [label, t, field] = conflict_count s [label, t, field] +
        (case map_of (sch_conflicts sch cs) t of None \<Rightarrow> 0 | Some fcs \<Rightarrow> length (filter (same_weight_at field) fcs))" for t field
      using fin(4)[OF ok] by (simp add: c3)
    show "m_gauges (op_metrics s') ActiveCRs [label] = Some (int (length items))" using fin(2) by simp
    have "length (sch_conflicts sch cs) = length out"
      using mset_eq_length[OF ms] arg_cong[OF merge_groups_keys[OF mg[unfolded o3]], of length] by simp
    then show "m_gauges (op_metrics s') ActiveTenants [label] = Some (int (length (sch_conflicts sch cs)))"
      using fin(3) by simp
    show "\<exists>res body. apply_ConfigMap (r_Client r) (r_OutputCM r) body (op_cluster s) = (Inr res, w)"
      using ap ra by blast
  qed
qed

end

section \<open>For both targets\<close>

lemma Reconcile_of_reports:
  assumes "Reconcile_of k lib sch r s = (Returned q None, s')" and "fair sch" and "r_Recorder r"
    and "list_of k (r_Client r) (op_cluster s) = Inr items" and "distinct_crs items"
  obtains cs w where "gomap_ok cs"
    and "\<And>t. map_of cs t = spec_conflicts (v_Validate (r_Validator r))
      (spec_valid lib (v_Validate (r_Validator r)) items) t"
    and "op_events s' = op_events s @ drift_report r (checkDrift_of k r s) w @
      concat (map (\<lambda>(t, fcs). concat (map (conflict_report t) fcs)) cs)"
    and "\<And>t field. conflict_count s' [label_of k, t, field] = conflict_count s [label_of k, t, field] +
      (case map_of cs t of None \<Rightarrow> 0 | Some fcs \<Rightarrow> length (filter (same_weight_at field) fcs))"
    and "m_gauges (op_metrics s') ActiveCRs [label_of k] = Some (int (length items))"
    and "m_gauges (op_metrics s') ActiveTenants [label_of k] = Some (int (length cs))"
    and "\<exists>res body. apply_ConfigMap (r_Client r) (r_OutputCM r) body (op_cluster s) = (Inr res, w)"
proof (cases k)
  case KindLoki
  show ?thesis
    by (rule loki.Reconcile_reports[of lib sch r s q s' items]) (use assms that KindLoki in simp_all)
next
  case KindMimir
  show ?thesis
    by (rule mimir.Reconcile_reports[of lib sch r s q s' items]) (use assms that KindMimir in simp_all)
qed

end
