(* ===== verification/Divergences.thy ===== *)
theory Divergences
  imports Liveness Merge_Properties
begin

text \<open>
  Where the code departs from what its comments or its purpose say, on inputs small enough to
  follow: conflicts that are missed, merged or listed in a random order; a drift alarm over the
  operator's own write; a status that changes at random; and a foreign writer with the operator's
  own name.
\<close>

section \<open>Conflicts\<close>

text \<open>A NUL in a key makes two paths one: two objects that write different fields are reported as in
  conflict, although the merge keeps both values.\<close>

lemma TrackingMerge_confuses_NUL:
  "TrackingMerge ''t'' [contribution ''a'' 0 [(''p'', Obj [(''q'', Str ''a'')])],
      contribution ''b'' 1 [(''p'' @ [CHR 0x00] @ ''q'', Str ''b'')]] =
   Done ([(''p'', Obj [(''q'', Str ''a'')]), (''p'' @ [CHR 0x00] @ ''q'', Str ''b'')],
     [\<lparr>fc_Tenant = ''t'', fc_Path = [''p'' @ [CHR 0x00] @ ''q''], fc_Winner = refc ''b'' 1,
        fc_Losers = [refc ''a'' 0], fc_SameWeight = False\<rparr>])"
  by (simp add: TrackingMerge_def visit_def tracking_start_def Let_def record_conflict_def
      path_key_def refc_def zero_CRRef_def DeepMerge_def merge_into_Cons)

text \<open>The order of the conflicts follows the order in which Go ranges over the overrides.\<close>

lemma TrackingMerge_order_varies:
  fixes fields :: "string \<Rightarrow> anymap"
  defines "fields v \<equiv> [(''x'', Str v), (''y'', Str v)]"
  shows "map_eqv (fields v) (rev (fields v))"
    and "map_outcome (map fc_Path \<circ> snd) (TrackingMerge ''t''
      [contribution ''a'' 0 (fields ''a''), contribution ''b'' 1 (fields ''b'')]) = Done [[''x''], [''y'']]"
    and "map_outcome (map fc_Path \<circ> snd) (TrackingMerge ''t''
      [contribution ''a'' 0 (fields ''a''), contribution ''b'' 1 (rev (fields ''b''))]) = Done [[''y''], [''x'']]"
  by (rule map_eqv_perm) (simp_all add: fields_def TrackingMerge_def visit_def tracking_start_def Let_def
      record_conflict_def path_key_def DeepMerge_def)

section \<open>The message about an unknown key\<close>

text \<open>
  The Loki validator names the unknown key that the iteration meets first, and the message becomes
  part of the condition \<open>Validated\<close>. An object with two unknown keys whose map is iterated in
  another order by the next reconcile needs a status update again, so the gate does not close.
\<close>

lemma loki_message:
  assumes "k \<notin> lokiKnownFields pkg"
  shows "lokiValidator_Validate marshal pkg dflt ((k, v) # raw) =
    Some (ErrMsg (''loki: field '' @ strconv_Quote k @ '' not found in type validation.Limits''))"
  using assms by (simp add: lokiValidator_Validate_def)

lemma unknown_keys_reopen_gate:
  assumes "unmarshalRawExtension lib (spec_Overrides (cr_Spec cr)) = Inr ((a, x) # raw)"
    and "unmarshalRawExtension lib' (spec_Overrides (cr_Spec cr)) = Inr ((b, y) # raw')"
    and "a \<notin> lokiKnownFields pkg" and "b \<notin> lokiKnownFields pkg" and "strconv_Quote a \<noteq> strconv_Quote b"
    and "validate = lokiValidator_Validate marshal pkg dflt"
    and "updated_status old (spec_status cm (spec_envelope lib validate cr) valid res) s = (new, s')"
    and "distinct (map cond_Type (st_Conditions old))"
  shows "needsUpdate new (spec_status cm (spec_envelope lib' validate cr) valid' res')"
proof -
  let ?d = "spec_status cm (spec_envelope lib validate cr) valid res"
  let ?d' = "spec_status cm (spec_envelope lib' validate cr) valid' res'"
  let ?msg = "\<lambda>k. ''loki: field '' @ strconv_Quote k @ '' not found in type validation.Limits''"
  let ?c = "\<lambda>k. mk_condition ConditionValidated ConditionFalse ReasonValidationFailed (?msg k)"
  have msg: "?c a \<in> set (st_Conditions ?d)" "?c b \<in> set (st_Conditions ?d')"
    using assms(1-4,6) by (simp_all add: spec_status_def spec_envelope_def loki_message)
  have ups: "op_upserts (st_Conditions old) (st_Conditions ?d) s = (st_Conditions new, s')"
    using assms(7) by (auto simp: updated_status_def split: prod.splits)
  from op_upserts_hold[OF ups spec_status_distinct msg(1)]
  obtain c where c: "cond_of (st_Conditions new) ConditionValidated = Some c" "conditionsEquivalent c (?c a)"
    by auto
  have "\<not> conditionsEquivalent (?c a) (?c b)" using assms(5) by (simp add: conditionsEquivalent_def)
  then have "\<not> conditionsEquivalent c (?c b)"
    using conditionsEquivalent_trans[OF conditionsEquivalent_sym[OF c(2)]] by blast
  then have "takes_reading (st_Conditions new) (?c b)" using c(1) by (simp add: takes_reading_iff)
  moreover have "distinct (map cond_Type (st_Conditions new))" by (rule distinct_op_upserts[OF ups assms(8)])
  ultimately have "conditionsChanged (st_Conditions new) (st_Conditions ?d')"
    using msg(2) conditionsChanged_iff by blast
  then show ?thesis by (simp add: needsUpdate_def)
qed

section \<open>Alarms over the operator's own writes\<close>

text \<open>
  A server whose answer to the read after the write is lost, as long as the config map holds
  \<open>body\<close>. The write takes effect, the reconcile fails, and the cache keeps the hash from before.
\<close>

definition unread_client :: "string \<Rightarrow> mem client" where
  "unread_client body = mem_client\<lparr>cl_GetConfigMap := (\<lambda>n w. case mem_GetConfigMap n w of
      Inl err \<Rightarrow> Inl err
    | Inr live \<Rightarrow> if map_of (cm_Data live) DataKey = Some body then Inl (ErrMsg ''timeout'') else Inr live)\<rparr>"

lemma unread_client_simps [simp]:
  "cl_ListLoki (unread_client body) = cl_ListLoki mem_client"
  "cl_ApplyConfigMap (unread_client body) = cl_ApplyConfigMap mem_client"
  by (simp_all add: unread_client_def)

lemma unread_apply:
  assumes live: "mem_GetConfigMap name w = Inr live" and old: "cm_body DataKey live = b"
    and "Hash b \<noteq> Hash body"
  obtains err w' where "apply_ConfigMap (unread_client body) name body w = (Inl err, w')"
    and "holds_body mem_client name body w'"
proof -
  let ?w = "w\<lparr>mem_cms := mem_applied (desired_ConfigMap name body) FieldManager (mem_cms w)\<rparr>"
  have "map_of (cm_Data live) DataKey \<noteq> Some body" using assms by (auto simp: cm_body_def)
  then have get: "cl_GetConfigMap (unread_client body) name w = Inr live"
    using live by (simp add: unread_client_def)
  obtain new where new: "find (\<lambda>c. cm_id c = name) (mem_applied (desired_ConfigMap name body) FieldManager (mem_cms w)) = Some new"
    using find_applied_ex[of "desired_ConfigMap name body"] by auto
  then have data: "map_of (cm_Data new) DataKey = Some body"
    using find_applied[of "desired_ConfigMap name body" FieldManager "mem_cms w" new DataKey body] by simp
  have ap: "cl_ApplyConfigMap mem_client (desired_ConfigMap name body) FieldManager True w = (None, ?w)"
    by (simp add: mem_client_def)
  have "cl_GetConfigMap (unread_client body) name ?w = Inl (ErrMsg ''timeout'')"
    using new data by (simp add: unread_client_def mem_GetConfigMap_def)
  moreover have "\<not> (case map_of (cm_Data live) DataKey of None \<Rightarrow> False | Some l \<Rightarrow> Hash l = Hash body)"
    using assms(2,3) by (auto simp: cm_body_def split: option.splits)
  ultimately have "apply_ConfigMap (unread_client body) name body w =
      (Inl (ErrWrap (''re-get configmap '' @ nn_String name @ '' after apply'') (ErrMsg ''timeout'')), ?w)"
    using get ap by (simp add: apply_ConfigMap_def apply_write_def)
  moreover have "holds_body mem_client name body ?w"
    using new data by (simp add: holds_body_def mem_client_def mem_GetConfigMap_def)
  ultimately show ?thesis by (rule that)
qed

text \<open>
  The operator has published \<open>b\<close> and cached its hash; the objects define another body, whose write
  succeeds but is not confirmed. The next drift check, which reads the config map again, reports
  somebody else's write, although nobody else wrote.
\<close>

lemma unconfirmed_write_alarms:
  assumes "cl_GetConfigMap mem_client sample_cm (op_cluster s) = Inr live"
    and "HashCache_Get (op_hashes s) ''loki'' = Some (Hash (cm_body DataKey live))"
    and "spec_body sample_libs (v_Validate v) (mem_loki (op_cluster s)) = Inr body"
    and "Hash (cm_body DataKey live) \<noteq> Hash body" and "fair sch"
    and "\<forall>c \<in> set (spec_valid sample_libs (v_Validate v) (mem_loki (op_cluster s))). plain_leaves (ov_Overrides c)"
  shows "loki_checkDrift (sample_target v) s = (False, []) \<and>
    (\<exists>err s'. loki_Reconcile sample_libs sch ((sample_target v)\<lparr>r_Client := unread_client body\<rparr>) s
        = (Returned 0 (Some err), s') \<and> fst (loki_checkDrift (sample_target v) s'))"
proof
  show "loki_checkDrift (sample_target v) s = (False, [])"
    using assms(1,2) by (simp add: loki.checkDrift_eq lokiTargetLabel_def)
  let ?r = "(sample_target v)\<lparr>r_Client := unread_client body\<rparr>"
  obtain e s' where R: "loki_Reconcile sample_libs sch ?r s = (e, s')" by fastforce
  have l: "cl_ListLoki (r_Client ?r) (op_cluster s) = Inr (mem_loki (op_cluster s))" by (simp add: mem_client_def)
  have live: "mem_GetConfigMap sample_cm (op_cluster s) = Inr live" using assms(1) by (simp add: mem_client_def)
  obtain err w' where ap: "apply_ConfigMap (unread_client body) sample_cm body (op_cluster s) = (Inl err, w')"
      "holds_body mem_client sample_cm body w'"
    by (rule unread_apply[OF live refl assms(4)])
  have "e = Returned 0 (Some (ErrWrap ''apply'' err)) \<and> op_cluster s' = w' \<and> op_hashes s' = op_hashes s"
    using R assms(5) by (cases rule: loki.Reconcile_cases) (use l assms(3,6) ap(1) in \<open>auto simp: only_metrics_def\<close>)
  moreover have "fst (loki_checkDrift (sample_target v) s')"
    if "op_cluster s' = w'" "op_hashes s' = op_hashes s"
    using ap(2) that assms(2,4)
    by (auto simp: loki.checkDrift_eq lokiTargetLabel_def holds_body_def cm_body_def split: sum.splits option.splits)
  ultimately show "\<exists>err s'. loki_Reconcile sample_libs sch ?r s = (Returned 0 (Some err), s') \<and>
      fst (loki_checkDrift (sample_target v) s')"
    using R by auto
qed

text \<open>It happens: no objects are left, and the config map still holds what an earlier reconcile wrote.\<close>

definition stale_op :: "mem op" where
  "stale_op = (op_of (sample_mem\<lparr>mem_loki := [], mem_cms := [desired_ConfigMap sample_cm ''abc'']\<rparr>))
     \<lparr>op_hashes := HashCache_Set NewHashCache ''loki'' (Hash ''abc'')\<rparr>"

lemma empty_document:
  "spec_body sample_libs (v_Validate v) [] = Inr ''{overrides:{},}''"
  by (simp add: spec_body_def spec_output_def spec_valid_def sample_libs_def sample_Render render_doc_def
      render_inner_def render_keys_def)

lemma digest_of_empty:
  "sha256 ''{overrides:{},}'' = [927108056, 3249770512, 2356618501, 921964021, 1055186618, 469948961,
     3495227397, 1376718104]"
  by code_simp

lemma digests_differ: "Hash ''abc'' \<noteq> Hash ''{overrides:{},}''"
proof -
  have "hd (Hash ''abc'') = CHR ''b''" unfolding Hash_def hex_digest_abc by simp
  moreover have "hd (Hash ''{overrides:{},}'') = char_of (51 :: nat)"
    unfolding Hash_def hex_digest_def digest_of_empty by (simp add: hex_of_word_def hex_digit_def)
  moreover have "char_of (51 :: nat) \<noteq> CHR ''b''" by code_simp
  ultimately show ?thesis by force
qed

lemma unconfirmed_write_happens:
  "loki_checkDrift (sample_target field_validator) stale_op = (False, []) \<and>
    (\<exists>err s'. loki_Reconcile sample_libs sample_schedule
        ((sample_target field_validator)\<lparr>r_Client := unread_client ''{overrides:{},}''\<rparr>) stale_op
          = (Returned 0 (Some err), s') \<and> fst (loki_checkDrift (sample_target field_validator) s'))"
proof (rule unconfirmed_write_alarms)
  let ?live = "desired_ConfigMap sample_cm ''abc''"
  have body: "cm_body DataKey ?live = ''abc''" by (simp add: cm_body_def)
  show "cl_GetConfigMap mem_client sample_cm (op_cluster stale_op) = Inr ?live"
    by (simp add: mem_client_def mem_GetConfigMap_def stale_op_def)
  show "HashCache_Get (op_hashes stale_op) ''loki'' = Some (Hash (cm_body DataKey ?live))"
    unfolding body by (simp add: stale_op_def hashes.lookup_put)
  show "Hash (cm_body DataKey ?live) \<noteq> Hash ''{overrides:{},}''" unfolding body by (rule digests_differ)
qed (simp_all add: stale_op_def empty_document sample_fair spec_valid_def)

text \<open>The counter of reverted writes counts what was found, even when nothing is reverted.\<close>

lemma drift_counted_without_revert:
  assumes "loki_checkDrift r s = (True, mgr)" and "cl_ListLoki (r_Client r) (op_cluster s) = Inl err"
  shows "\<exists>e s'. loki_Reconcile lib sch r s = (Returned 0 (Some e), s') \<and> op_cluster s' = op_cluster s \<and>
    m_counters (op_metrics s') OutputDriftTotal [''loki'', mgr] =
      Suc (m_counters (op_metrics s) OutputDriftTotal [''loki'', mgr])"
  by (simp add: loki.Reconcile_eq loki.gather_eq assms counters_Inc lokiTargetLabel_def)

section \<open>The foreign writer\<close>

text \<open>The own name is recognised before white space is trimmed, so it can be reported as foreign.\<close>

lemma own_name_reported_foreign:
  assumes "cm_ManagedFields cm = [\<lparr>mf_Manager = '' '' @ FieldManager, mf_Time = None\<rparr>]"
  shows "extractConflictingFieldManager (Some cm) FieldManager = FieldManager"
  using assms by (simp add: extractConflictingFieldManager_def drift_step_def drift_start_def drift_result_def
      Let_def maxLen_def FieldManager_def strings_TrimSpace_def is_space_def)

end
