(* ===== verification/Spec2Isabelle.thy ===== *)
theory Spec2Isabelle
  imports Merge_Properties Operator_Properties Liveness Round_Trip Memory_Properties Interleaving_Properties
    Reports Divergences
begin

text \<open>
  A verification development for the runtime-overrides operator, a Kubernetes operator that merges
  the \<open>LokiTenantOverride\<close> and \<open>MimirTenantOverride\<close> objects of a cluster, tenant by tenant, into one
  output config map per backend, which Loki and Mimir read as their runtime configuration.

  \<^bold>\<open>The program and its parts.\<close> A reconcile of a target lists all objects of its kind, decodes and
  validates each (\<open>gather\<close>), groups the valid ones by tenant, layers each group by (weight,
  namespace, name), merges it and records the conflicts, validates the merged result, renders all
  tenants as one document, writes it by server-side apply unless the live body has the same hash,
  and then writes back a status on each object and events for the losers of conflicts. Around it:
  a drift check against a cache of applied hashes, a bootstrap runnable that creates missing config
  maps, reconcilers that mark the objects of a disabled target, admission webhooks that run the
  same validation, and the start-up that wires them by flags.

  \<^bold>\<open>Theories\<close>, in the order in which they build on each other.
  \<^item> \<open>Prelude\<close>: Go strings, maps, errors, panics and stable sorting; the contract \<open>stable_sorter\<close>.
  \<^item> \<open>Any_Values\<close>: the values of type \<open>any\<close> that decoded JSON gives, paths and leaves, and equality
    up to the iteration order of maps.
  \<^item> \<open>Tenant_Groups\<close>: \<open>internal/merge/types.go\<close> and \<open>group.go\<close>.
  \<^item> \<open>Deep_Merge\<close>: \<open>DeepMerge\<close> and \<open>deepCopy\<close> of \<open>internal/merge/merge.go\<close>.
  \<^item> \<open>Tracking\<close>: \<open>internal/merge/conflict.go\<close>.
  \<^item> \<open>Sha256\<close>, \<open>Rendering\<close>: \<open>SortedMarshal\<close> of \<open>merge.go\<close> and \<open>internal/render/render.go\<close>, with an
    executable SHA-256.
  \<^item> \<open>Api_Types\<close>: the kinds of \<open>api/v1alpha1\<close> and the fields of Kubernetes types that are used.
  \<^item> \<open>Hash_Cache\<close>, \<open>Metrics\<close>, \<open>Cluster\<close>: \<open>internal/controller/hashcache.go\<close>, \<open>internal/metrics\<close>,
    and the operator's state \<open>'w op\<close> over a client of the API server.
  \<^item> \<open>Apply_Config\<close>: \<open>internal/apply/apply.go\<close>. \<open>Config\<close>: \<open>internal/config/config.go\<close>.
    \<open>Validation\<close>: \<open>internal/validate\<close>.
  \<^item> \<open>Status\<close>, \<open>Peers\<close>, \<open>Drift\<close>, \<open>Bootstrap\<close>, \<open>Disabled\<close>: the files of those names in
    \<open>internal/controller\<close>.
  \<^item> \<open>Reconcile_Base\<close>: the structs of the reconcilers, \<open>unmarshalRawExtension\<close>, and the specification
    of a reconcile (\<open>spec_valid\<close>, \<open>spec_tenant\<close>, \<open>spec_output\<close>, \<open>spec_body\<close>, \<open>spec_status\<close>).
  \<^item> \<open>Target_Reconciler\<close>: the contract both reconcilers fulfil, and its consequences.
    \<open>Loki_Controller\<close>, \<open>Mimir_Controller\<close>: \<open>loki_controller.go\<close> and \<open>mimir_controller.go\<close>, written out
    separately as in the code; each interprets the contract. \<open>Kinds\<close> selects between them.
  \<^item> \<open>Convergence\<close>: the contract's consequences for sequences of reconciles with failing calls;
    \<open>Interference\<close>: what a reconcile leaves alone of other targets, and the hash cache in step with
    the config map.
  \<^item> \<open>Reports\<close>: the events and the counted conflicts of a reconcile.
  \<^item> \<open>Go_Memory\<close>: cells, allocation, and which cells a call may change. \<open>Merge_Heap\<close>: \<open>DeepMerge\<close>,
    \<open>deepCopy\<close> and the merge rounds of \<open>TrackingMerge\<close> on maps and slices in memory.
    \<open>Object_Memory\<close>: the structs of \<open>api/v1alpha1\<close> with their pointers and slices, and
    \<open>upsertCondition\<close> on slices. \<open>Deep_Copies\<close>: \<open>zz_generated.deepcopy.go\<close>, and the status update
    of both reconcilers on a deep copy.
  \<^item> \<open>Scheme\<close>: the registration of the API types, \<open>api/v1alpha1/groupversion_info.go\<close> and the \<open>init\<close>
    functions. \<open>Webhook\<close>, \<open>Banner\<close>: \<open>internal/webhook\<close>, \<open>cmd/banner.go\<close>. \<open>Main_Wiring\<close>: \<open>cmd/main.go\<close>, which
    composes the configuration, \<open>InitDefaults\<close>, \<open>New\<close>, the reconcilers, the bootstrap and the webhooks.
  \<^item> \<open>Operator_Runs\<close>: the operator that \<open>main\<close> starts as a transition system, whose steps are runs of
    its handlers, whose calls to the API server may fail, changes by others and restarts.
  \<^item> \<open>Api_Calls\<close>: the calls by which a handler changes the cluster, as a server that logs them sees
    them, and the protocol of a reconcile (\<open>reconcile_protocol\<close>).
  \<^item> \<open>Api_Programs\<close>: the reconcile, the bootstrap and the disabled-target reconcile as trees of API
    calls with one branch per answer, which agree with the handlers. \<open>Interleaving\<close>: these programs as
    threads of one process, one call or local step at a time, with restarts and changes by others
    between any two of them.
  \<^item> \<open>Samples\<close>: an API server in memory, an encoder, validators and objects, for the theorems that
    show hypotheses met. \<open>Merge_Properties\<close>, \<open>Memory_Properties\<close>, \<open>Operator_Properties\<close>,
    \<open>Run_Properties\<close>, \<open>Interleaving_Properties\<close>, \<open>Round_Trip\<close>, \<open>Liveness\<close> and this theory: the
    properties. \<open>Divergences\<close>: small inputs on which the code departs from what its comments say.

  \<^bold>\<open>State and effects.\<close> A Go map is an association list whose order is that of one \<open>range\<close> loop;
  ranges over maps the operator builds itself go through a \<open>schedule\<close>, an arbitrary permutation.
  The operator's state is the cluster (a type parameter), the hash cache, the metrics, the events
  sent and a stream of clock readings; operations take and return it. Errors are values of
  \<open>go_error\<close>, with the reasons that \<open>IsNotFound\<close> and \<open>IsConflict\<close> look at; a panic is the
  constructor \<open>Panic\<close> or \<open>Panicked\<close>. Weights and generations are machine words read as signed
  integers. Recursion on values is structural or has a measure.

  \<^bold>\<open>Memory.\<close> Most of the model works on values, which cannot be shared. Where the code writes to
  shared maps, slices or structs, it is modelled a second time on explicit memory: a relation (\<open>rep\<close>,
  \<open>spec_rep\<close>, \<open>status_rep\<close>, \<open>object_rep\<close>, \<open>list_rep\<close>) says which value a reference stands for and which
  cells it owns, and the code in memory is shown to compute the functions on values and to write only
  cells that are new or its own. In memory \<open>DeepMerge\<close> and \<open>deepCopy\<close> follow references, so they take
  fuel there; fuel greater than the size of the value is enough (\<open>DeepMerge_heap_refines\<close>).

  \<^bold>\<open>Third-party code\<close> is a parameter: the API server with its cache (\<open>client\<close>), the YAML encoder and
  the JSON decoder (\<open>libs\<close>), the upstream \<open>Limits\<close> packages (\<open>limits_pkg\<close>), the manager
  (\<open>environment\<close>), the scheme and its builder (\<open>scheme_lib\<close>). What theorems need of it are named hypotheses: \<open>apply_visible\<close> (a read that
  follows a successful apply sees it), \<open>apply_local\<close>, \<open>status_local\<close>, \<open>sorts_keys\<close>, \<open>decodes_maps\<close>,
  \<open>marshal_sorted\<close>, \<open>reads_back\<close> (the decoder of the backends inverts the encoder), \<open>orderly\<close> (what was accepted is
  seen, and a write touches one object), \<open>copies_deeply\<close> (the deep copies of \<open>k8s.io\<close> types),
  \<open>adds_types\<close> (adding to a scheme adds what was registered and loses nothing), \<open>flaky\<close>, \<open>failing_version\<close> and \<open>settling_server\<close> (any call may fail, and a write that is reported as
  failed may have happened). \<open>Samples\<close> has concrete code for which they hold.

  \<^bold>\<open>What the lemmas show.\<close> The merge: what is in the result at every path,
  independence of iteration order, and an exact account of the conflicts reported. The reconcile: a
  successful one has published the body that the valid objects define, whatever order they were listed
  in, every value in it stems from a valid object of that tenant, the events and counters account for
  exactly the conflicts among these objects, and a failed one leaves hashes and events alone. Sequences of reconciles converge as soon as one runs without a failing call, and what
  is published decodes to the merged values. In every run of the operator, with any of its calls
  failing, the drift check is silent unless somebody else wrote the config map or a write of the
  operator's own was reported as failed; and a cluster at rest stays at rest under all handlers, the
  bootstrap and restarts. Whatever the API server answers, the calls of a reconcile follow its
  protocol, and no handler writes anything but what is its own. Among other threads a reconcile
  publishes what it has listed once the bootstrap has ended, and it stays published until the next
  one, while the bootstrap itself may undo what a reconcile has published. In memory: the merge and the status update write nothing that the listed
  objects own. The rest of the operator: the status gate, the apply helper, bootstrap, validation,
  webhooks that agree with the reconcilers beside which they are started, start-up.

  \<^bold>\<open>Not modelled\<close>: log lines; the parsing of the command line; the HTTP servers and
  the leader election of controller-runtime; the text of UTF-8 beyond ASCII in \<open>strings.TrimSpace\<close>,
  \<open>strings.ToLower\<close> and \<open>%q\<close>; tests, charts and manifests.
\<close>

section \<open>Reconciling\<close>

text \<open>C1. A reconcile of either target that reports no error has published: the output config map
  holds, under the data key, a body with the hash of the rendering of all tenants, each with the
  merge of its valid contributions in layer order where that is valid, and of no others; the hash
  cache holds that hash.\<close>

theorem Reconcile_publishes_spec:
  assumes "Reconcile_of k lib sch r s = (Returned q None, s')" and "fair sch"
    and "apply_visible (r_Client r)" and "status_local (update_of k (r_Client r)) (r_Client r)"
  shows "\<exists>items out body. list_of k (r_Client r) (op_cluster s) = Inr items \<and> gomap_ok out \<and>
    (\<forall>t. map_of out t = spec_tenant (v_Validate (r_Validator r))
       (spec_valid lib (v_Validate (r_Validator r)) items) t) \<and>
    Render (lib_Encoder lib) out = Inr body \<and>
    holds_body (r_Client r) (r_OutputCM r) body (op_cluster s') \<and>
    (r_HashCache r \<longrightarrow> HashCache_Get (op_hashes s') (label_of k) = Some (Hash body))"
  by (rule Reconcile_of_publishes[OF assms])
    (metis gomap_ok_spec_output map_of_spec_output spec_body_def)

theorem Reconcile_publishes_spec_witness:
  "\<exists>q s' body. mimir_Reconcile sample_libs sample_schedule (sample_target field_validator) sample_op
       = (Returned q None, s') \<and> holds_body mem_client sample_cm body (op_cluster s')"
proof -
  obtain q s' where R: "mimir_Reconcile sample_libs sample_schedule (sample_target field_validator) sample_op
      = (Returned q None, s')"
    using sample_mimir_reconciles[of field_validator sample_op sample_schedule] sample_plain sample_fair by auto
  from Reconcile_publishes_spec[of KindMimir, OF _ sample_fair, of sample_libs "sample_target field_validator"
      sample_op q s'] R mem_apply_visible mem_status_local(2)
  show ?thesis by auto
qed

text \<open>C2. Every value in the published document comes from a valid object: the reconcile leaves in the
  config map the rendering of an output in which each tenant's whole map is accepted by the
  validator, and each leaf of it is the leaf, at that path, of the decoded overrides of an object
  whose effective tenant it is and which the validator accepts.\<close>

theorem published_values_are_valid:
  assumes "Reconcile_of k lib sch r s = (Returned q None, s')" and "fair sch" and "decodes_maps lib"
    and "apply_visible (r_Client r)" and "status_local (update_of k (r_Client r)) (r_Client r)"
  shows "\<exists>items out body. list_of k (r_Client r) (op_cluster s) = Inr items \<and>
    Render (lib_Encoder lib) out = Inr body \<and>
    holds_body (r_Client r) (r_OutputCM r) body (op_cluster s') \<and>
    (\<forall>t m. map_of out t = Some m \<longrightarrow> v_Validate (r_Validator r) m = None \<and>
      (\<forall>p v. p \<noteq> [] \<and> leaf_at p (Obj m) = Some v \<longrightarrow>
        (\<exists>cr raw. cr \<in> set items \<and> effective_tenant cr = t \<and>
           unmarshalRawExtension lib (spec_Overrides (cr_Spec cr)) = Inr raw \<and>
           v_Validate (r_Validator r) raw = None \<and> leaf_at p (Obj raw) = Some v)))"
proof -
  let ?v = "v_Validate (r_Validator r)"
  from assms(1,2,4,5) obtain items body where it: "list_of k (r_Client r) (op_cluster s) = Inr items"
      and bd: "spec_body lib ?v items = Inr body"
      and hb: "holds_body (r_Client r) (r_OutputCM r) body (op_cluster s')"
    by (rule Reconcile_of_publishes)
  show ?thesis
    by (intro exI[of _ items] exI[of _ "spec_output ?v (spec_valid lib ?v items)"] exI[of _ body]
        conjI it hb bd[unfolded spec_body_def])
      (use spec_output_values[OF _ assms(3), of ?v items] in blast)
qed

theorem published_values_are_valid_witness:
  "\<exists>q s' out body. loki_Reconcile sample_libs sample_schedule (sample_target field_validator) sample_op
       = (Returned q None, s') \<and> Render sample_encoder out = Inr body \<and>
     holds_body mem_client sample_cm body (op_cluster s') \<and>
     (\<forall>m. map_of out ''t2'' = Some m \<longrightarrow> v_Validate field_validator m = None)"
proof -
  obtain q s' where R: "loki_Reconcile sample_libs sample_schedule (sample_target field_validator) sample_op
      = (Returned q None, s')"
    using sample_loki_reconciles[of field_validator sample_op sample_schedule] sample_plain sample_fair by auto
  then have R': "Reconcile_of KindLoki sample_libs sample_schedule (sample_target field_validator) sample_op
      = (Returned q None, s')" by simp
  have st: "status_local (update_of KindLoki (r_Client (sample_target field_validator)))
      (r_Client (sample_target field_validator))" using mem_status_local(1) by simp
  have vis: "apply_visible (r_Client (sample_target field_validator))" using mem_apply_visible by simp
  from published_values_are_valid[OF R' sample_fair sample_decodes vis st] R
  show ?thesis by (fastforce simp: sample_libs_def)
qed

text \<open>C15. What is published does not depend on the order in which the API server lists the objects nor
  on the order in which Go ranges over the groups: two successful reconciles over the same objects
  leave bodies with one and the same hash.\<close>

theorem Reconcile_order_independent:
  assumes "Reconcile_of k lib sch1 r s1 = (Returned q1 None, s1')"
    and "Reconcile_of k lib sch2 r s2 = (Returned q2 None, s2')"
    and "fair sch1" and "fair sch2"
    and "list_of k (r_Client r) (op_cluster s1) = Inr items1"
    and "list_of k (r_Client r) (op_cluster s2) = Inr items2"
    and "mset items1 = mset items2" and "distinct_crs items1"
    and "apply_visible (r_Client r)" and "status_local (update_of k (r_Client r)) (r_Client r)"
  shows "\<exists>body. holds_body (r_Client r) (r_OutputCM r) body (op_cluster s1') \<and>
    holds_body (r_Client r) (r_OutputCM r) body (op_cluster s2')"
proof -
  from Reconcile_of_publishes[OF assms(1,3,9,10)] obtain b1 where
    b1: "spec_body lib (v_Validate (r_Validator r)) items1 = Inr b1"
      "holds_body (r_Client r) (r_OutputCM r) b1 (op_cluster s1')" using assms(5) by auto
  from Reconcile_of_publishes[OF assms(2,4,9,10)] obtain b2 where
    b2: "spec_body lib (v_Validate (r_Validator r)) items2 = Inr b2"
      "holds_body (r_Client r) (r_OutputCM r) b2 (op_cluster s2')" using assms(6) by auto
  have "b1 = b2" using b1(1) b2(1) spec_body_perm[OF assms(7,8)] by simp
  then show ?thesis using b1(2) b2(2) by blast
qed

definition id_schedule :: schedule where
  "id_schedule = \<lparr>sch_groups = (\<lambda>m. m), sch_conflicts = (\<lambda>m. m)\<rparr>"

definition reversed_op :: "mem op" where
  "reversed_op = op_of (sample_mem\<lparr>mem_loki := [cr_bogus, cr_burst, cr_rate]\<rparr>)"

theorem Reconcile_order_independent_witness:
  "\<exists>q1 q2 s1 s2 body.
     loki_Reconcile sample_libs sample_schedule (sample_target field_validator) sample_op = (Returned q1 None, s1) \<and>
     loki_Reconcile sample_libs id_schedule (sample_target field_validator) reversed_op = (Returned q2 None, s2) \<and>
     holds_body mem_client sample_cm body (op_cluster s1) \<and> holds_body mem_client sample_cm body (op_cluster s2)"
proof -
  have fair: "fair id_schedule" by (simp add: fair_def id_schedule_def)
  have ms: "mset [cr_rate, cr_burst, cr_bogus] = mset [cr_bogus, cr_burst, cr_rate]" by simp
  have plain: "\<forall>c \<in> set (spec_valid sample_libs (v_Validate field_validator) (mem_loki (op_cluster reversed_op))).
      plain_leaves (ov_Overrides c)"
  proof -
    have "set (spec_valid sample_libs (v_Validate field_validator) [cr_bogus, cr_burst, cr_rate]) =
        set (spec_valid sample_libs (v_Validate field_validator) [cr_rate, cr_burst, cr_bogus])"
      using arg_cong[OF spec_valid_perm[OF ms, of sample_libs "v_Validate field_validator"], of set_mset]
      by simp
    then show ?thesis using sample_plain by (simp add: reversed_op_def)
  qed
  obtain q1 s1 where R1: "loki_Reconcile sample_libs sample_schedule (sample_target field_validator) sample_op
      = (Returned q1 None, s1)"
    using sample_loki_reconciles[of field_validator sample_op sample_schedule] sample_plain sample_fair by auto
  obtain q2 s2 where R2: "loki_Reconcile sample_libs id_schedule (sample_target field_validator) reversed_op
      = (Returned q2 None, s2)"
    using sample_loki_reconciles[OF plain fair] by blast
  have dis: "distinct_crs [cr_rate, cr_burst, cr_bogus]"
    by (simp add: distinct_crs_def cr_rate_def cr_burst_def cr_bogus_def sample_cr_def cr_id_def)
  have "\<exists>body. holds_body mem_client sample_cm body (op_cluster s1) \<and> holds_body mem_client sample_cm body (op_cluster s2)"
    using Reconcile_order_independent[of KindLoki sample_libs sample_schedule "sample_target field_validator"
        sample_op q1 s1 id_schedule reversed_op q2 s2 "[cr_rate, cr_burst, cr_bogus]" "[cr_bogus, cr_burst, cr_rate]"]
      R1 R2 sample_fair fair sample_list dis mem_apply_visible mem_status_local ms
    by (simp add: mem_client_def reversed_op_def op_of_def)
  then show ?thesis using R1 R2 by blast
qed

text \<open>C24. A reconcile that reports an error has left the hash cache and the events as they were, counts
  itself as a failed write and asks for no delayed retry; if the objects could not be listed or the
  document not be rendered the cluster is as it was.\<close>

theorem Reconcile_failure_contained:
  assumes "Reconcile_of k lib sch r s = (Returned q (Some err), s')" and "fair sch"
  shows "q = 0 \<and> op_hashes s' = op_hashes s \<and> op_events s' = op_events s \<and>
    (\<exists>m. op_metrics s' = Inc ReconcileTotal [label_of k, ''write_failed''] m) \<and>
    ((\<nexists>items body. list_of k (r_Client r) (op_cluster s) = Inr items \<and>
        spec_body lib (v_Validate (r_Validator r)) items = Inr body) \<longrightarrow> op_cluster s' = op_cluster s)"
  using Reconcile_of_failed[OF assms] Reconcile_of_nothing_written[OF assms] by auto

definition failing_target :: "mem target_struct" where
  "failing_target = (sample_target field_validator)\<lparr>r_Client := mem_client\<lparr>cl_ListLoki := (\<lambda>w. Inl (ErrMsg ''timeout''))\<rparr>\<rparr>"

theorem Reconcile_failure_contained_witness:
  "\<exists>err s'. loki_Reconcile sample_libs sample_schedule failing_target sample_op = (Returned 0 (Some err), s') \<and>
     op_cluster s' = sample_mem"
proof -
  obtain e s' where R: "loki_Reconcile sample_libs sample_schedule failing_target sample_op = (e, s')" by fastforce
  have l: "cl_ListLoki (r_Client failing_target) (op_cluster sample_op) = Inl (ErrMsg ''timeout'')"
    by (simp add: failing_target_def)
  from R sample_fair obtain err where e: "e = Returned 0 (Some err)"
    by (cases rule: loki.Reconcile_cases) (use l in auto)
  from Reconcile_failure_contained[of KindLoki sample_libs sample_schedule failing_target sample_op 0 err s'] R e l sample_fair
  show ?thesis by auto
qed



text \<open>C14. The account that a reconcile gives of itself. A reconcile that reports no error sends, with a
  recorder, one event about drift if it found drift, then for each published tenant and each conflict
  of the merge of its layers one event to each loser, and no others; it counts the conflicts of
  equal weights, by tenant and field; and the gauges tell the numbers of objects and of published
  tenants.\<close>

theorem Reconcile_reports_conflicts:
  assumes "Reconcile_of k lib sch r s = (Returned q None, s')" and "fair sch" and "r_Recorder r"
    and "list_of k (r_Client r) (op_cluster s) = Inr items" and "distinct_crs items"
    and "apply_visible (r_Client r)"
  shows "\<exists>cs drift. gomap_ok cs \<and>
    (\<forall>t. map_of cs t = spec_conflicts (v_Validate (r_Validator r))
       (spec_valid lib (v_Validate (r_Validator r)) items) t) \<and>
    op_events s' = op_events s @ drift @ concat (map (\<lambda>(t, fcs). concat (map (conflict_report t) fcs)) cs) \<and>
    map ev_Reason drift = (if fst (checkDrift_of k r s) then [''ConfigMapDrifted''] else []) \<and>
    m_gauges (op_metrics s') ActiveCRs [label_of k] = Some (int (length items)) \<and>
    m_gauges (op_metrics s') ActiveTenants [label_of k] = Some (int (length cs)) \<and>
    (\<forall>t field. conflict_count s' [label_of k, t, field] = conflict_count s [label_of k, t, field] +
       (case map_of cs t of None \<Rightarrow> 0 | Some fcs \<Rightarrow> length (filter (same_weight_at field) fcs)))"
proof (rule Reconcile_of_reports[OF assms(1-5)])
  fix cs w
  let ?drift = "drift_report r (checkDrift_of k r s) w"
  assume ok: "gomap_ok cs" and cs: "\<And>t. map_of cs t = spec_conflicts (v_Validate (r_Validator r))
        (spec_valid lib (v_Validate (r_Validator r)) items) t"
    and ev: "op_events s' = op_events s @ ?drift @ concat (map (\<lambda>(t, fcs). concat (map (conflict_report t) fcs)) cs)"
    and ct: "\<And>t field. conflict_count s' [label_of k, t, field] = conflict_count s [label_of k, t, field] +
      (case map_of cs t of None \<Rightarrow> 0 | Some fcs \<Rightarrow> length (filter (same_weight_at field) fcs))"
    and ga: "m_gauges (op_metrics s') ActiveCRs [label_of k] = Some (int (length items))"
      "m_gauges (op_metrics s') ActiveTenants [label_of k] = Some (int (length cs))"
    and ap: "\<exists>res body. apply_ConfigMap (r_Client r) (r_OutputCM r) body (op_cluster s) = (Inr res, w)"
  from ap obtain body where "holds_body (r_Client r) (r_OutputCM r) body w"
    using apply_establishes[OF assms(6)] by blast
  then have "map ev_Reason ?drift = (if fst (checkDrift_of k r s) then [''ConfigMapDrifted''] else [])"
    by (auto simp: drift_report_def holds_body_def split: sum.splits)
  then show ?thesis using ok cs ev ct ga by blast
qed

text \<open>Two objects of equal weight that set the same field.\<close>

definition twin_libs :: libs where
  "twin_libs = sample_libs\<lparr>lib_Unmarshal := (\<lambda>b. Inr (Some [(''rate'', Str b)]))\<rparr>"

definition cr_first :: TenantOverride where "cr_first = sample_cr ''ns'' ''a'' ''t1'' 1 ''slow''"
definition cr_second :: TenantOverride where "cr_second = sample_cr ''ns'' ''b'' ''t1'' 1 ''fast''"

definition twin_op :: "mem op" where
  "twin_op = op_of (sample_mem\<lparr>mem_loki := [cr_first, cr_second]\<rparr>)"

definition twin_conflict :: FieldConflict where
  "twin_conflict = \<lparr>fc_Tenant = ''t1'', fc_Path = [''rate''],
     fc_Winner = \<lparr>ref_Namespace = ''ns'', ref_Name = ''b'', ref_Weight = 1\<rparr>,
     fc_Losers = [\<lparr>ref_Namespace = ''ns'', ref_Name = ''a'', ref_Weight = 1\<rparr>], fc_SameWeight = True\<rparr>"

lemma twin_valid:
  "spec_valid twin_libs (v_Validate field_validator) [cr_first, cr_second] =
     [ov ''a'' ''t1'' 1 [(''rate'', Str ''slow'')], ov ''b'' ''t1'' 1 [(''rate'', Str ''fast'')]]"
  by (simp add: spec_valid_def spec_envelope_def cr_first_def cr_second_def sample_cr_def twin_libs_def
      field_verdict override_of_def effective_tenant_def ov_def unmarshalRawExtension_def)

lemma twin_conflicts:
  "spec_conflicts (v_Validate field_validator) [ov ''a'' ''t1'' 1 [(''rate'', Str ''slow'')], ov ''b'' ''t1'' 1 [(''rate'', Str ''fast'')]] t
     = (if t = ''t1'' then Some [twin_conflict] else None)"
proof (cases "t = ''t1''")
  case True
  have l: "layers [ov ''a'' ''t1'' 1 [(''rate'', Str ''slow'')], ov ''b'' ''t1'' 1 [(''rate'', Str ''fast'')]] ''t1'' =
      [ov ''a'' ''t1'' 1 [(''rate'', Str ''slow'')], ov ''b'' ''t1'' 1 [(''rate'', Str ''fast'')]]"
    by (simp add: layers_def ov_def SortGroup_def SortStableFunc_def stable_sort_def compare_overrides_def
        strings_Compare_def Let_def)
  have "TrackingMerge ''t1'' [ov ''a'' ''t1'' 1 [(''rate'', Str ''slow'')], ov ''b'' ''t1'' 1 [(''rate'', Str ''fast'')]] =
      Done ([(''rate'', Str ''fast'')], [twin_conflict])"
    by (simp add: TrackingMerge_def visit_def tracking_start_def Let_def record_conflict_def
        path_key_def zero_CRRef_def DeepMerge_def merge_into_Cons ov_def refOf_def twin_conflict_def)
  moreover have "merge_overrides [] [ov ''a'' ''t1'' 1 [(''rate'', Str ''slow'')], ov ''b'' ''t1'' 1 [(''rate'', Str ''fast'')]] =
      [(''rate'', Str ''fast'')]"
    by (simp add: merge_overrides_def ov_def merge_into_Cons)
  ultimately show ?thesis
    unfolding True spec_conflicts_def spec_tenant_def l Let_def by (simp add: field_verdict)
next
  case False
  then have "layers [ov ''a'' ''t1'' 1 [(''rate'', Str ''slow'')], ov ''b'' ''t1'' 1 [(''rate'', Str ''fast'')]] t = []"
    by (simp add: layers_def ov_def)
  then show ?thesis using False by (simp add: spec_conflicts_def spec_tenant_def)
qed

lemma twin_reconciles:
  "\<exists>q s'. loki_Reconcile twin_libs sample_schedule (sample_target field_validator) twin_op = (Returned q None, s')"
proof -
  obtain e s' where R: "loki_Reconcile twin_libs sample_schedule (sample_target field_validator) twin_op = (e, s')" by fastforce
  have l: "cl_ListLoki mem_client (op_cluster twin_op) = Inr [cr_first, cr_second]"
    by (simp add: mem_client_def twin_op_def)
  obtain body where b: "spec_body twin_libs (v_Validate field_validator) [cr_first, cr_second] = Inr body"
    by (simp add: spec_body_def twin_libs_def sample_libs_def sample_Render)
  have p: "\<forall>c \<in> set (spec_valid twin_libs (v_Validate field_validator) [cr_first, cr_second]). plain_leaves (ov_Overrides c)"
    by (simp add: twin_valid ov_def plain_leaves_def)
  from R sample_fair show ?thesis
    by (cases rule: loki.Reconcile_cases) (use R l b p mem_apply_never_fails in auto)
qed

theorem Reconcile_reports_conflicts_witness:
  "\<exists>q s'. loki_Reconcile twin_libs sample_schedule (sample_target field_validator) twin_op = (Returned q None, s') \<and>
     map ev_Object (op_events s') = [NamespacedName ''ns'' ''a''] \<and>
     m_counters (op_metrics s') FieldConflictsTotal [''loki'', ''t1'', ''rate''] = 1"
proof -
  obtain q s' where R: "loki_Reconcile twin_libs sample_schedule (sample_target field_validator) twin_op = (Returned q None, s')"
    using twin_reconciles by blast
  have l: "list_of KindLoki (r_Client (sample_target field_validator)) (op_cluster twin_op) = Inr [cr_first, cr_second]"
    by (simp add: mem_client_def twin_op_def)
  have d: "distinct_crs [cr_first, cr_second]"
    by (simp add: distinct_crs_def cr_first_def cr_second_def sample_cr_def cr_id_def)
  have c: "checkDrift_of KindLoki (sample_target field_validator) twin_op = (False, [])"
    by (simp add: loki.checkDrift_eq twin_op_def hashes.lookup_fresh)
  have start: "op_events twin_op = []" "conflict_count twin_op ls = 0" for ls
    by (simp_all add: twin_op_def op_of_def no_metrics_def)
  from Reconcile_reports_conflicts[of KindLoki, OF _ sample_fair _ l d, of twin_libs q s', unfolded c start] R
  obtain cs where ok: "gomap_ok cs"
      and cs: "\<And>t. map_of cs t = (if t = ''t1'' then Some [twin_conflict] else None)"
      and ev: "op_events s' = concat (map (\<lambda>(t, fcs). concat (map (conflict_report t) fcs)) cs)"
      and ct: "\<And>t field. conflict_count s' [''loki'', t, field] =
        (case map_of cs t of None \<Rightarrow> 0 | Some fcs \<Rightarrow> length (filter (same_weight_at field) fcs))"
    by (auto simp: c start mem_apply_visible twin_valid twin_conflicts lokiTargetLabel_def)
  have "mset cs = mset [(''t1'', [twin_conflict])]"
    by (rule gomap_eq_perm) (use ok cs in \<open>auto simp: fun_eq_iff\<close>)
  then have "cs = [(''t1'', [twin_conflict])]" by simp
  with ev ct[of "''t1''" "''rate''"] R show ?thesis
    by (auto simp: conflict_report_def twin_conflict_def ref_id_def same_weight_at_def)
qed

text \<open>C27. A tenant whose merged result fails validation is left out of the output, and each of its
  valid objects nevertheless reports \<open>Applied=True\<close> with the reason \<open>WrittenToConfigMap\<close>.\<close>

theorem skipped_tenant_reported_applied:
  assumes "fair sch"
    and "loki_merge_groups r (sch_groups sch (GroupByTenant valid)) [] [] s = (Done (out, cs), s')"
    and "v_Validate (r_Validator r) (merge_overrides [] (layers valid (effective_tenant cr))) \<noteq> None"
    and "env_ValidErr (spec_envelope lib (v_Validate (r_Validator r)) cr) = None"
  shows "map_of out (effective_tenant cr) = None \<and>
    (\<exists>c. cond_of (st_Conditions (loki_computeDesiredStatus r
        (spec_envelope lib (v_Validate (r_Validator r)) cr) valid res)) ConditionApplied = Some c \<and>
      cond_Status c = ConditionTrue \<and> cond_Reason c = ReasonWrittenToConfigMap)"
proof -
  have "map_of out = map_of (spec_output (v_Validate (r_Validator r)) valid)"
    by (rule map_of_perm[OF loki.output_spec[OF assms(1,2)]])
  then have "map_of out (effective_tenant cr) = None"
    using assms(3) by (auto simp: map_of_spec_output spec_tenant_def Let_def)
  then show ?thesis using assms(4) by (simp add: loki_computeDesiredStatus_def vocabulary)
qed

theorem skipped_tenant_reported_applied_witness:
  "\<exists>out cs s' c. loki_merge_groups (sample_target cross_validator)
      (rev (GroupByTenant [ov ''a'' ''t1'' 1 [(''rate'', Num 0x4020000000000000)],
         ov ''b'' ''t1'' 2 [(''burst'', Num 0x4030000000000000)]])) [] [] sample_op = (Done (out, cs), s') \<and>
     map_of out ''t1'' = None \<and>
     cond_of (st_Conditions (loki_computeDesiredStatus (sample_target cross_validator)
        (spec_envelope sample_libs (v_Validate cross_validator) cr_rate)
        [ov ''a'' ''t1'' 1 [(''rate'', Num 0x4020000000000000)],
         ov ''b'' ''t1'' 2 [(''burst'', Num 0x4030000000000000)]] sample_result)) ConditionApplied = Some c \<and>
     cond_Status c = ConditionTrue"
proof -
  let ?valid = "[ov ''a'' ''t1'' 1 [(''rate'', Num 0x4020000000000000)],
    ov ''b'' ''t1'' 2 [(''burst'', Num 0x4030000000000000)]]"
  have ten: "effective_tenant cr_rate = ''t1''"
    by (simp add: effective_tenant_def cr_rate_def sample_cr_def)
  have layers: "layers ?valid ''t1'' = ?valid"
    by (simp add: layers_def ov_def SortGroup_def SortStableFunc_def stable_sort_def compare_overrides_def)
  have bad: "v_Validate (r_Validator (sample_target cross_validator))
      (merge_overrides [] (layers ?valid (effective_tenant cr_rate))) \<noteq> None"
    unfolding ten layers by (simp add: merge_overrides_def ov_def cross_validator_def merge_into_Cons)
  have ok: "env_ValidErr (spec_envelope sample_libs (v_Validate (r_Validator (sample_target cross_validator))) cr_rate) = None"
    by (simp add: spec_envelope_def cr_rate_def sample_cr_def cross_validator_def)
  have "\<forall>(t, g) \<in> set (rev (GroupByTenant ?valid)). \<forall>c \<in> set g. plain_leaves (ov_Overrides c)"
    by (simp add: GroupByTenant_def group_append_def ov_def plain_leaves_def)
  from loki.merge_groups_plain[OF this] obtain out cs s' where mg:
      "loki_merge_groups (sample_target cross_validator) (rev (GroupByTenant ?valid)) [] [] sample_op = (Done (out, cs), s')"
    by blast
  then have mg': "loki_merge_groups (sample_target cross_validator) (sch_groups sample_schedule (GroupByTenant ?valid)) [] []
      sample_op = (Done (out, cs), s')" by (simp add: sample_schedule_def)
  from skipped_tenant_reported_applied[OF sample_fair mg' bad ok, of sample_result] mg
  show ?thesis unfolding ten by auto
qed

end
